(* ===== verification/Prelude.thy ===== *)
theory Prelude
  imports Main
begin

text \<open>
  The vocabulary every component shares: \<^verbatim>\<open>int64\<close> arithmetic with its wrap-around, the part of Go's
  \<^verbatim>\<open>time\<close>, \<^verbatim>\<open>strings\<close>, \<^verbatim>\<open>strconv\<close> and \<^verbatim>\<open>encoding/hex\<close> packages the repository calls, and Go error
  values with \<^verbatim>\<open>errors.Is\<close>. A Go \<^verbatim>\<open>string\<close> or \<^verbatim>\<open>[]byte\<close> is a list of bytes, hence a HOL \<open>string\<close>.

  Conventions of the whole library. An operation that reads or writes shared state takes the state
  as its last argument and returns it as the last component of its result. \<^verbatim>\<open>time.Now()\<close> is an
  explicit argument: the reading the call gets, in nanoseconds since the Unix epoch. A returned
  \<open>error\<close> that may be nil is a \<open>go_error option\<close>; a result that comes with an error is a sum, \<open>Inl\<close>
  the error. The random bytes of \<^verbatim>\<open>crypto/rand\<close> are an explicit argument too.
\<close>

named_theorems go_simps "evaluation rules of the Go library model"
named_theorems store_simps "definitions of the storage backends"

section \<open>Integers\<close>

type_synonym bytes = string

text \<open>An \<^verbatim>\<open>int64\<close> (and \<^verbatim>\<open>int\<close> on a 64-bit platform) is an \<open>int\<close> between \<open>-(2 ^ 63)\<close> and \<open>2 ^ 63 - 1\<close>;
  every arithmetic operation is followed by \<open>i64\<close>, the two's complement wrap-around.\<close>

definition i64 :: "int \<Rightarrow> int" where
  "i64 x = (x + 9223372036854775808) mod 18446744073709551616 - 9223372036854775808"

definition in_i64 :: "int \<Rightarrow> bool" where
  "in_i64 x \<longleftrightarrow> - 9223372036854775808 \<le> x \<and> x < 9223372036854775808"

definition maxInt64 :: int where
  "maxInt64 = 9223372036854775807"

definition minInt64 :: int where
  "minInt64 = - 9223372036854775808"

text \<open>\<^verbatim>\<open>atomic.Uint64\<close> counters wrap at \<open>2 ^ 64\<close>.\<close>

definition u64 :: "int \<Rightarrow> int" where
  "u64 x = x mod 18446744073709551616"

text \<open>Go's \<^verbatim>\<open>/\<close> on integers truncates towards zero.\<close>

definition quot :: "int \<Rightarrow> int \<Rightarrow> int" where
  "quot a b = sgn a * sgn b * (\<bar>a\<bar> div \<bar>b\<bar>)"

section \<open>Time\<close>

type_synonym time = int
type_synonym duration = int

definition millisecond :: duration where "millisecond = 1000000"
definition second :: duration where "second = 1000000000"
definition minute :: duration where "minute = 60000000000"
definition hour :: duration where "hour = 3600000000000"

text \<open>\<^verbatim>\<open>t.Add(d)\<close>, \<^verbatim>\<open>t.Sub(u)\<close> (which saturates at the ends of the \<^verbatim>\<open>int64\<close> range), \<^verbatim>\<open>t.After(u)\<close>,
  \<^verbatim>\<open>t.Before(u)\<close>, \<^verbatim>\<open>t.Truncate(d)\<close>, \<^verbatim>\<open>t.Unix()\<close>, \<^verbatim>\<open>t.UnixMilli()\<close>, \<^verbatim>\<open>t.UnixNano()\<close> and
  \<^verbatim>\<open>d.Milliseconds()\<close>.\<close>

definition time_Add :: "time \<Rightarrow> duration \<Rightarrow> time" where
  "time_Add t d = t + d"

definition time_Sub :: "time \<Rightarrow> time \<Rightarrow> duration" where
  "time_Sub t u = (if t - u < minInt64 then minInt64 else if maxInt64 < t - u then maxInt64 else t - u)"

definition time_After :: "time \<Rightarrow> time \<Rightarrow> bool" where
  "time_After t u \<longleftrightarrow> u < t"

definition time_Before :: "time \<Rightarrow> time \<Rightarrow> bool" where
  "time_Before t u \<longleftrightarrow> t < u"

definition time_Truncate :: "time \<Rightarrow> duration \<Rightarrow> time" where
  "time_Truncate t d = (if d \<le> 0 then t else t - t mod d)"

definition time_Unix :: "time \<Rightarrow> int" where
  "time_Unix t = t div 1000000000"

definition time_UnixMilli :: "time \<Rightarrow> int" where
  "time_UnixMilli t = t div 1000000"

definition time_UnixNano :: "time \<Rightarrow> int" where
  "time_UnixNano t = i64 t"

definition dur_Milliseconds :: "duration \<Rightarrow> int" where
  "dur_Milliseconds d = quot d 1000000"

text \<open>\<^verbatim>\<open>-d\<close> on a \<^verbatim>\<open>time.Duration\<close>.\<close>

definition dur_neg :: "duration \<Rightarrow> duration" where
  "dur_neg d = i64 (- d)"

section \<open>Strings\<close>

text \<open>\<^verbatim>\<open>strconv.FormatInt(i, 10)\<close>, which is also the verb \<^verbatim>\<open>%d\<close>.\<close>

definition digitChar :: "nat \<Rightarrow> char" where
  "digitChar d = char_of (48 + d)"

fun natDigits :: "nat \<Rightarrow> string" where
  "natDigits n = (if n < 10 then [digitChar n] else natDigits (n div 10) @ [digitChar (n mod 10)])"

declare natDigits.simps [simp del]

definition FormatInt :: "int \<Rightarrow> string" where
  "FormatInt i = (if i < 0 then CHR ''-'' # natDigits (nat (- i)) else natDigits (nat i))"

text \<open>\<^verbatim>\<open>strings.Split(s, sep)\<close> and \<^verbatim>\<open>strings.SplitN(s, sep, 2)\<close> for a one-byte separator.\<close>

fun Split :: "char \<Rightarrow> string \<Rightarrow> string list" where
  "Split c [] = [[]]"
| "Split c (x # xs) =
     (if x = c then [] # Split c xs
      else (case Split c xs of [] \<Rightarrow> [[x]] | y # ys \<Rightarrow> (x # y) # ys))"

definition SplitN2 :: "char \<Rightarrow> string \<Rightarrow> string list" where
  "SplitN2 c s =
     (let k = takeWhile (\<lambda>x. x \<noteq> c) s in
      if c \<in> set s then [k, drop (Suc (length k)) s] else [s])"

text \<open>\<^verbatim>\<open>strings.Join(parts, sep)\<close>.\<close>

fun Join :: "string list \<Rightarrow> string \<Rightarrow> string" where
  "Join [] sep = []"
| "Join [x] sep = x"
| "Join (x # y # ys) sep = x @ sep @ Join (y # ys) sep"

text \<open>\<^verbatim>\<open>strings.TrimSpace\<close>: the UTF-8 encodings of the code points \<^verbatim>\<open>unicode.IsSpace\<close> accepts are removed
  at both ends.\<close>

definition spaceEncodings :: "string list" where
  "spaceEncodings = map (map char_of)
     ([[9], [10], [11], [12], [13], [32], [194, 133], [194, 160], [225, 154, 128], [226, 128, 168],
       [226, 128, 169], [226, 128, 175], [226, 129, 159], [227, 128, 128]] @
      map (\<lambda>d. [226, 128, 128 + d]) [0..<11] :: nat list list)"

fun stripPrefix :: "string \<Rightarrow> string \<Rightarrow> string option" where
  "stripPrefix [] s = Some s"
| "stripPrefix (p # ps) [] = None"
| "stripPrefix (p # ps) (x # xs) = (if p = x then stripPrefix ps xs else None)"

fun stripAny :: "string list \<Rightarrow> string \<Rightarrow> string option" where
  "stripAny [] s = None"
| "stripAny (p # ps) s = (case stripPrefix p s of Some r \<Rightarrow> Some r | None \<Rightarrow> stripAny ps s)"

fun trimLeft :: "nat \<Rightarrow> string list \<Rightarrow> string \<Rightarrow> string" where
  "trimLeft 0 ps s = s"
| "trimLeft (Suc n) ps s = (case stripAny ps s of None \<Rightarrow> s | Some r \<Rightarrow> trimLeft n ps r)"

definition TrimSpace :: "string \<Rightarrow> string" where
  "TrimSpace s =
     (let l = trimLeft (length s) spaceEncodings s in
      rev (trimLeft (length l) (map rev spaceEncodings) (rev l)))"

text \<open>\<^verbatim>\<open>hex.EncodeToString\<close>.\<close>

definition hexDigit :: "nat \<Rightarrow> char" where
  "hexDigit d = (if d < 10 then char_of (48 + d) else char_of (87 + d))"

definition hexByte :: "char \<Rightarrow> string" where
  "hexByte c = [hexDigit (of_char c div 16), hexDigit (of_char c mod 16)]"

definition EncodeToString :: "bytes \<Rightarrow> string" where
  "EncodeToString b = concat (map hexByte b)"

section \<open>Durations as text\<close>

text \<open>\<^verbatim>\<open>d.Truncate(m)\<close> and \<^verbatim>\<open>d.String()\<close> of \<^verbatim>\<open>time.Duration\<close>.\<close>

definition dur_Truncate :: "duration \<Rightarrow> duration \<Rightarrow> duration" where
  "dur_Truncate d m = (if m \<le> 0 then d else d - sgn d * (\<bar>d\<bar> mod m))"

text \<open>The fraction \<open>v / 10 ^ prec\<close> with trailing zeros and an empty fraction left out.\<close>

definition padLeft :: "nat \<Rightarrow> string \<Rightarrow> string" where
  "padLeft n s = replicate (n - length s) (CHR ''0'') @ s"

definition fmtFrac :: "nat \<Rightarrow> nat \<Rightarrow> string" where
  "fmtFrac v prec =
     (let ds = rev (dropWhile (\<lambda>c. c = CHR ''0'') (rev (padLeft prec (natDigits (v mod 10 ^ prec)))))
      in if ds = [] then [] else CHR ''.'' # ds)"

definition fmtUnit :: "nat \<Rightarrow> nat \<Rightarrow> string" where
  "fmtUnit v prec = natDigits (v div 10 ^ prec) @ fmtFrac v prec"

definition dur_String :: "duration \<Rightarrow> string" where
  "dur_String d =
     (let u = nat \<bar>d\<bar>; s = u div 1000000000 in
      (if d < 0 then ''-'' else '''') @
      (if u = 0 then ''0s''
       else if u < 1000 then natDigits u @ ''ns''
       else if u < 1000000 then fmtUnit u 3 @ [char_of (194::nat), char_of (181::nat)] @ ''s''
       else if u < 1000000000 then fmtUnit u 6 @ ''ms''
       else (if s < 60 then [] else
               (if s < 3600 then [] else natDigits (s div 3600) @ ''h'') @
               natDigits (s div 60 mod 60) @ ''m'') @
            natDigits (s mod 60) @ fmtFrac u 9 @ ''s''))"

section \<open>Errors\<close>

text \<open>
  Error values: a package variable made by \<^verbatim>\<open>errors.New\<close> (\<open>Sentinel\<close>, named by its message, which no
  two of them share), \<^verbatim>\<open>fmt.Errorf\<close> with one \<^verbatim>\<open>%w\<close> between two texts (\<open>Wrapf\<close>), with \<^verbatim>\<open>%w: %w\<close> (\<open>Wrap2\<close>)
  and with none (\<open>Errorf\<close>), and the struct \<^verbatim>\<open>floodguard.RejectedError\<close>. An error of a package outside the
  repository is an \<open>Errorf\<close> or whatever the caller supplies.
\<close>

datatype go_error =
    Sentinel string
  | Wrapf string go_error string
  | Wrap2 go_error go_error
  | Errorf string
  | RejectedError string bytes

text \<open>\<^verbatim>\<open>errors.Is(err, target)\<close> for a target that is a package variable.\<close>

fun errors_Is :: "go_error \<Rightarrow> go_error \<Rightarrow> bool" where
  "errors_Is (Wrapf p e s) t = (Wrapf p e s = t \<or> errors_Is e t)"
| "errors_Is (Wrap2 e f) t = (Wrap2 e f = t \<or> errors_Is e t \<or> errors_Is f t)"
| "errors_Is e t = (e = t)"

text \<open>\<^verbatim>\<open>err.Error()\<close>.\<close>

fun error_Error :: "go_error \<Rightarrow> string" where
  "error_Error (Sentinel m) = m"
| "error_Error (Wrapf p e s) = p @ error_Error e @ s"
| "error_Error (Wrap2 e f) = error_Error e @ '': '' @ error_Error f"
| "error_Error (Errorf m) = m"
| "error_Error (RejectedError r c) = ''floodguard: request rejected ('' @ r @ '')''"

text \<open>A \<^verbatim>\<open>context.Context\<close> as far as the code looks into it: what \<^verbatim>\<open>ctx.Err()\<close> returns.\<close>

type_synonym ctx = "go_error option"

abbreviation (input) background :: ctx where "background \<equiv> None"

text \<open>A call that runs code of the caller's choice may panic; deferred calls run in both cases.\<close>

datatype 'a outcome = Returned 'a | Panicked string

text \<open>A component of a larger state, for the operations of one object among several.\<close>

definition onPart :: "('w \<Rightarrow> 's) \<Rightarrow> ('s \<Rightarrow> 'w \<Rightarrow> 'w) \<Rightarrow> ('s \<Rightarrow> 'a \<times> 's) \<Rightarrow> 'w \<Rightarrow> 'a \<times> 'w" where
  "onPart get put f w = (case f (get w) of (x, s) \<Rightarrow> (x, put s w))"

section \<open>Facts\<close>

lemma onPart_eq: "onPart get put f w = (x, w') \<longleftrightarrow> (\<exists>s. f (get w) = (x, s) \<and> w' = put s w)"
  by (auto simp: onPart_def split: prod.splits)

subsection \<open>Wrap-around\<close>

lemma i64_id [simp]: "in_i64 x \<Longrightarrow> i64 x = x"
  by (simp add: in_i64_def i64_def)

lemma in_i64_i64 [simp]: "in_i64 (i64 x)"
  by (simp add: in_i64_def i64_def)

lemma i64_i64 [simp]: "i64 (i64 x) = i64 x"
  by simp

lemma i64_mod_eq: "x mod 18446744073709551616 = y mod 18446744073709551616 \<Longrightarrow> i64 x = i64 y"
  unfolding i64_def by (simp add: mod_add_cong)

lemma i64_mod: "i64 x mod 18446744073709551616 = x mod 18446744073709551616"
  unfolding i64_def by (simp add: mod_diff_left_eq)

lemma i64_add_left [simp]: "i64 (i64 x + y) = i64 (x + y)"
  by (rule i64_mod_eq) (metis i64_mod mod_add_left_eq)

lemma i64_add_right [simp]: "i64 (x + i64 y) = i64 (x + y)"
  using i64_add_left [of y x] by (simp add: add.commute)

lemma i64_neg [simp]: "i64 (- i64 x) = i64 (- x)"
  by (rule i64_mod_eq) (metis i64_mod mod_minus_eq)

lemma i64_diff_right [simp]: "i64 (x - i64 y) = i64 (x - y)"
  by (rule i64_mod_eq) (metis i64_mod mod_diff_right_eq)

lemma i64_diff_left [simp]: "i64 (i64 x - y) = i64 (x - y)"
  by (rule i64_mod_eq) (metis i64_mod mod_diff_left_eq)

lemma dur_neg_pos: "0 < d \<Longrightarrow> in_i64 d \<Longrightarrow> dur_neg d = - d"
  by (simp add: dur_neg_def in_i64_def)

lemma in_i64_between: "0 < d \<Longrightarrow> in_i64 d' \<Longrightarrow> d \<le> d' \<Longrightarrow> in_i64 d"
  by (simp add: in_i64_def)

lemma dur_Milliseconds_pos: "0 \<le> d \<Longrightarrow> dur_Milliseconds d = d div 1000000"
  by (cases "d = 0") (simp_all add: dur_Milliseconds_def quot_def)

lemma time_Sub_small: "in_i64 (t - u) \<Longrightarrow> time_Sub t u = t - u"
  by (simp add: time_Sub_def in_i64_def minInt64_def maxInt64_def)

lemma time_Sub_less: "0 < m \<Longrightarrow> in_i64 m \<Longrightarrow> time_Sub t u < m \<longleftrightarrow> t - u < m"
  by (auto simp: time_Sub_def in_i64_def minInt64_def maxInt64_def)

lemmas time_simps [go_simps] =
  time_Add_def time_After_def time_Before_def millisecond_def second_def minute_def hour_def

subsection \<open>Milliseconds\<close>

lemma ms_mono: "now \<le> t \<Longrightarrow> time_UnixMilli now \<le> time_UnixMilli t"
  by (simp add: time_UnixMilli_def zdiv_mono1)

text \<open>Within two milliseconds of its end a key may already have lapsed on the server.\<close>

lemma ms_live:
  "1000000 \<le> d \<Longrightarrow> t + 2 * millisecond < now + d \<Longrightarrow>
     time_UnixMilli t < time_UnixMilli now + dur_Milliseconds d"
  by (simp add: dur_Milliseconds_pos time_UnixMilli_def millisecond_def)

lemma ms_lapsed:
  "1000000 \<le> d \<Longrightarrow> now + d \<le> t \<Longrightarrow> time_UnixMilli now + dur_Milliseconds d \<le> time_UnixMilli t"
  by (simp add: dur_Milliseconds_pos time_UnixMilli_def)

subsection \<open>Errors\<close>

lemma errors_Is_refl [simp]: "errors_Is e e"
  by (cases e) simp_all

lemma errors_Is_Wrapf_Sentinel [simp]: "errors_Is (Wrapf p e s) (Sentinel m) = errors_Is e (Sentinel m)"
  by simp

subsection \<open>Decimal numbers\<close>

lemma digitChar_inj: "a < 10 \<Longrightarrow> b < 10 \<Longrightarrow> digitChar a = digitChar b \<Longrightarrow> a = b"
  unfolding digitChar_def by (drule arg_cong [where f = "of_char :: char \<Rightarrow> nat"]) simp

text \<open>The value of a digit string, which undoes \<open>natDigits\<close>.\<close>

definition digitsVal :: "string \<Rightarrow> nat" where
  "digitsVal s = foldl (\<lambda>a c. 10 * a + (of_char c - 48)) 0 s"

lemma digitsVal_snoc: "digitsVal (s @ [c]) = 10 * digitsVal s + (of_char c - 48)"
  by (simp add: digitsVal_def)

lemma of_char_digitChar: "d < 10 \<Longrightarrow> of_char (digitChar d) = 48 + d"
  unfolding digitChar_def by simp

lemma digitsVal_natDigits [simp]: "digitsVal (natDigits n) = n"
proof (induction n rule: natDigits.induct)
  case (1 n)
  show ?case
  proof (cases "n < 10")
    case True
    then have "natDigits n = [] @ [digitChar n]" by (simp add: natDigits.simps [of n])
    with True show ?thesis by (simp only: digitsVal_snoc) (simp add: digitsVal_def of_char_digitChar)
  next
    case False
    then have "natDigits n = natDigits (n div 10) @ [digitChar (n mod 10)]"
      by (simp add: natDigits.simps [of n])
    then have "digitsVal (natDigits n) = 10 * (n div 10) + n mod 10"
      using False 1 by (simp add: digitsVal_snoc of_char_digitChar)
    then show ?thesis by simp
  qed
qed

lemma natDigits_inj [simp]: "natDigits a = natDigits b \<longleftrightarrow> a = b"
  by (metis digitsVal_natDigits)

lemma natDigits_chars: "set (natDigits n) \<subseteq> digitChar ` {..<10}"
proof (induction n rule: natDigits.induct)
  case (1 n)
  then show ?case
    by (cases "n < 10") (auto simp: natDigits.simps [of n])
qed

lemma natDigits_nonempty [simp]: "natDigits n \<noteq> []"
  by (simp add: natDigits.simps [of n])

lemma digitChar_not: "d < 10 \<Longrightarrow> of_char c < (48 :: nat) \<or> 57 < (of_char c :: nat) \<Longrightarrow> digitChar d \<noteq> c"
  using of_char_digitChar [of d] by auto

lemma not_natDigits: "of_char c < (48 :: nat) \<or> 57 < (of_char c :: nat) \<Longrightarrow> c \<notin> set (natDigits n)"
  using natDigits_chars [of n] digitChar_not [of _ c] by blast

lemma minus_not_digit: "CHR ''-'' \<notin> set (natDigits n)"
  by (rule not_natDigits) simp

lemma bar_not_digit: "CHR ''|'' \<notin> set (natDigits n)"
  by (rule not_natDigits) simp

lemma FormatInt_inj: "FormatInt a = FormatInt b \<longleftrightarrow> a = b"
proof
  assume eq: "FormatInt a = FormatInt b"
  have hd: "hd (natDigits n) \<noteq> CHR ''-''" for n
    using minus_not_digit [of n] hd_in_set [OF natDigits_nonempty [of n]] by metis
  show "a = b"
    using eq hd [of "nat a"] hd [of "nat b"]
    by (auto simp: FormatInt_def split: if_splits dest: arg_cong [where f = hd])
qed simp

lemma bar_not_FormatInt: "CHR ''|'' \<notin> set (FormatInt i)"
  by (simp add: FormatInt_def bar_not_digit)

subsection \<open>Hexadecimal text\<close>

lemma hexDigit_inj: "a < 16 \<Longrightarrow> b < 16 \<Longrightarrow> hexDigit a = hexDigit b \<Longrightarrow> a = b"
proof -
  assume a: "a < 16" and b: "b < 16" and "hexDigit a = hexDigit b"
  then have "(of_char (hexDigit a) :: nat) = of_char (hexDigit b)" by simp
  with a b show "a = b" by (auto simp: hexDigit_def split: if_splits)
qed

lemma hexByte_inj: "hexByte c = hexByte d \<Longrightarrow> c = d"
proof -
  assume eq: "hexByte c = hexByte d"
  have lt: "of_char x div 16 < (16::nat)" for x :: char
    using nat_of_char_less_256 [of x] by (simp add: less_mult_imp_div_less)
  have "of_char c div 16 = (of_char d div 16 :: nat)" and "of_char c mod 16 = (of_char d mod 16 :: nat)"
    using eq lt hexDigit_inj by (auto simp: hexByte_def)
  then have "(of_char c :: nat) = of_char d"
    by (metis div_mod_decomp)
  then show "c = d" by simp
qed

lemma EncodeToString_inj: "EncodeToString a = EncodeToString b \<longleftrightarrow> a = b"
proof (induction a arbitrary: b)
  case Nil
  then show ?case by (cases b) (simp_all add: EncodeToString_def hexByte_def)
next
  case (Cons x a)
  show ?case
  proof (cases b)
    case Nil
    then show ?thesis by (simp add: EncodeToString_def hexByte_def)
  next
    case (Cons y b')
    have "EncodeToString (x # a) = hexByte x @ EncodeToString a"
      and "EncodeToString b = hexByte y @ EncodeToString b'"
      by (simp_all add: EncodeToString_def Cons)
    moreover have "length (hexByte x) = length (hexByte y)" by (simp add: hexByte_def)
    ultimately show ?thesis
      using Cons.IH hexByte_inj Cons by auto
  qed
qed

lemma EncodeToString_Nil [simp]: "EncodeToString b = [] \<longleftrightarrow> b = []"
  by (cases b) (simp_all add: EncodeToString_def hexByte_def)

subsection \<open>Sorted lists\<close>

lemma sorted_le_last: "sorted xs \<Longrightarrow> x \<in> set xs \<Longrightarrow> x \<le> last xs"
  by (induction xs) auto

subsection \<open>Text with a separator\<close>

text \<open>Two concatenations \<open>a | b\<close> agree only when the parts do, if the separator is not in the first part.\<close>

lemma sep_append_inj:
  "c \<notin> set a \<Longrightarrow> c \<notin> set a' \<Longrightarrow> a @ c # b = a' @ c # b' \<longleftrightarrow> a = a' \<and> b = b'"
proof (induction a arbitrary: a')
  case Nil
  then show ?case by (cases a') auto
next
  case (Cons x a)
  then show ?case by (cases a') auto
qed

lemma sep_append_inj_right:
  "c \<notin> set b \<Longrightarrow> c \<notin> set b' \<Longrightarrow> a @ c # b = a' @ c # b' \<longleftrightarrow> a = a' \<and> b = b'"
  using sep_append_inj [of c "rev b" "rev b'" "rev a" "rev a'"]
  by (metis append.assoc append_Cons append_Nil rev.simps(2) rev_append rev_rev_ident set_rev)

end
