(* ===== verification/Redis_Iface.thy ===== *)
theory Redis_Iface
  imports Prelude
begin

text \<open>
  Redis and the client package \<^verbatim>\<open>go-redis\<close> are not part of the repository. They enter the model as a
  parameter: a record \<open>'r redis\<close> of the commands the code issues, over a server state of any type
  \<open>'r\<close>. A command takes the server's clock (in milliseconds) at which it runs. \<open>rd_call\<close> sends a
  command, a transaction or a Lua script to the server; it fails with an error or hands back the
  reply, and the \<open>rd_as\<close> functions convert a reply to a Go value.

  What the code relies on is stated by the predicates below, each a documented behaviour of Redis or
  of the client. A theorem about a Redis backend has the predicates it needs as hypotheses. The theory
  \<open>Redis_Ref\<close> has a server that satisfies all of them.
\<close>

datatype reply = RNil | RInt int | RBulk string | RArr "reply list"

type_synonym 'r rcmd = "'r \<Rightarrow> reply \<times> 'r"

record 'r redis =
  rd_GET :: "int \<Rightarrow> string \<Rightarrow> 'r \<Rightarrow> string option"
  rd_SET :: "int \<Rightarrow> string \<Rightarrow> string \<Rightarrow> 'r \<Rightarrow> 'r"
  rd_SETPX :: "int \<Rightarrow> string \<Rightarrow> string \<Rightarrow> int \<Rightarrow> 'r \<Rightarrow> 'r"
  rd_SETNXPX :: "int \<Rightarrow> string \<Rightarrow> string \<Rightarrow> int \<Rightarrow> 'r \<Rightarrow> bool \<times> 'r"
  rd_DEL :: "int \<Rightarrow> string \<Rightarrow> 'r \<Rightarrow> int \<times> 'r"
  rd_ZADD :: "int \<Rightarrow> string \<Rightarrow> int \<Rightarrow> string \<Rightarrow> 'r \<Rightarrow> 'r"
  rd_ZREM :: "int \<Rightarrow> string \<Rightarrow> string \<Rightarrow> 'r \<Rightarrow> 'r"
  rd_ZREMRANGEBYSCORE :: "int \<Rightarrow> string \<Rightarrow> int \<Rightarrow> int \<Rightarrow> 'r \<Rightarrow> 'r"
  rd_ZINCRBY :: "int \<Rightarrow> string \<Rightarrow> int \<Rightarrow> string \<Rightarrow> 'r \<Rightarrow> 'r"
  rd_ZCARD :: "int \<Rightarrow> string \<Rightarrow> 'r \<Rightarrow> int"
  rd_ZSCORE :: "int \<Rightarrow> string \<Rightarrow> string \<Rightarrow> 'r \<Rightarrow> int option"
  rd_ZRANGEBYSCORE :: "int \<Rightarrow> string \<Rightarrow> int \<Rightarrow> int \<Rightarrow> 'r \<Rightarrow> string list"
  rd_ZMAX :: "int \<Rightarrow> string \<Rightarrow> 'r \<Rightarrow> (string \<times> int) option" \<comment> \<open>\<open>ZREVRANGE key 0 0 WITHSCORES\<close>\<close>
  rd_PEXPIRE :: "int \<Rightarrow> string \<Rightarrow> int \<Rightarrow> 'r \<Rightarrow> 'r"
  rd_call :: "ctx \<Rightarrow> 'r rcmd \<Rightarrow> 'r \<Rightarrow> (go_error + reply) \<times> 'r"
  rd_asSlice :: "reply \<Rightarrow> go_error + reply list"
  rd_asInt :: "reply \<Rightarrow> go_error + int"
  rd_asBool :: "reply \<Rightarrow> go_error + bool"
  rd_px :: "duration \<Rightarrow> int" \<comment> \<open>the expiry in milliseconds the client sends for a \<open>time.Duration\<close>\<close>

section \<open>What the code relies on\<close>

text \<open>A call that returns a reply ran on the server; a call that fails may or may not have run.\<close>

definition redis_call_law :: "'r redis \<Rightarrow> bool" where
  "redis_call_law R \<longleftrightarrow>
     (\<forall>c body r v r'. rd_call R c body r = (Inr v, r') \<longrightarrow> body r = (v, r')) \<and>
     (\<forall>c body r e r'. rd_call R c body r = (Inl e, r') \<longrightarrow> r' = r \<or> r' = snd (body r))"

text \<open>The server is reachable: a call under a live context returns its reply.\<close>

definition redis_up :: "'r redis \<Rightarrow> bool" where
  "redis_up R \<longleftrightarrow> (\<forall>body r. rd_call R None body r = (Inr (fst (body r)), snd (body r)))"

text \<open>Replies arrive as the Go values their RESP types stand for, durations leave as milliseconds.\<close>

definition redis_decode_law :: "'r redis \<Rightarrow> bool" where
  "redis_decode_law R \<longleftrightarrow>
     (\<forall>xs. rd_asSlice R (RArr xs) = Inr xs) \<and>
     (\<forall>n. rd_asInt R (RInt n) = Inr n) \<and>
     (\<forall>n. rd_asBool R (RInt n) = Inr (n = 1)) \<and>
     (\<forall>d. 1000000 \<le> d \<longrightarrow> rd_px R d = d div 1000000)"

text \<open>String keys: what \<^verbatim>\<open>GET\<close> returns after \<^verbatim>\<open>SET\<close> with and without expiry, \<^verbatim>\<open>SET NX PX\<close> and \<^verbatim>\<open>DEL\<close>.\<close>

definition redis_string_law :: "'r redis \<Rightarrow> bool" where
  "redis_string_law R \<longleftrightarrow>
     (\<forall>t t' k k' v px r. 0 < px \<longrightarrow> t \<le> t' \<longrightarrow>
        rd_GET R t' k' (rd_SETPX R t k v px r) =
          (if k' = k then if t' < t + px then Some v else None else rd_GET R t' k' r)) \<and>
     (\<forall>t t' k k' v r. t \<le> t' \<longrightarrow>
        rd_GET R t' k' (rd_SET R t k v r) = (if k' = k then Some v else rd_GET R t' k' r)) \<and>
     (\<forall>t k v px r. rd_SETNXPX R t k v px r =
        (if rd_GET R t k r = None then (True, rd_SETPX R t k v px r) else (False, r))) \<and>
     (\<forall>t t' k k' r. t \<le> t' \<longrightarrow>
        rd_GET R t' k' (snd (rd_DEL R t k r)) = (if k' = k then None else rd_GET R t' k' r)) \<and>
     (\<forall>t t' k r. t \<le> t' \<longrightarrow> rd_GET R t k r = None \<longrightarrow> rd_GET R t' k r = None) \<and>
     (\<forall>t t' k r v. t \<le> t' \<longrightarrow> rd_GET R t' k r = Some v \<longrightarrow> rd_GET R t k r = Some v)"

text \<open>A command that writes to a key leaves the strings under all other keys as they are.\<close>

definition redis_frame_law :: "'r redis \<Rightarrow> bool" where
  "redis_frame_law R \<longleftrightarrow>
     (\<forall>t t' k k' r. k' \<noteq> k \<longrightarrow>
        (\<forall>v. rd_GET R t' k' (rd_SET R t k v r) = rd_GET R t' k' r) \<and>
        (\<forall>v px. rd_GET R t' k' (rd_SETPX R t k v px r) = rd_GET R t' k' r) \<and>
        (\<forall>v px. rd_GET R t' k' (snd (rd_SETNXPX R t k v px r)) = rd_GET R t' k' r) \<and>
        rd_GET R t' k' (snd (rd_DEL R t k r)) = rd_GET R t' k' r \<and>
        (\<forall>s m. rd_GET R t' k' (rd_ZADD R t k s m r) = rd_GET R t' k' r) \<and>
        (\<forall>m. rd_GET R t' k' (rd_ZREM R t k m r) = rd_GET R t' k' r) \<and>
        (\<forall>a b. rd_GET R t' k' (rd_ZREMRANGEBYSCORE R t k a b r) = rd_GET R t' k' r) \<and>
        (\<forall>s m. rd_GET R t' k' (rd_ZINCRBY R t k s m r) = rd_GET R t' k' r) \<and>
        (\<forall>px. rd_GET R t' k' (rd_PEXPIRE R t k px r) = rd_GET R t' k' r))"

text \<open>
  Sorted sets, through two views of the server: \<open>zs t k r\<close> maps the members of key \<open>k\<close> at clock \<open>t\<close>
  to their scores and \<open>ex k r\<close> is the key's expiry. A key keeps its expiry when members are added or
  removed; a key whose last member goes disappears, expiry and all.
\<close>

definition redis_expiry_law ::
  "(int \<Rightarrow> string \<Rightarrow> 'r \<Rightarrow> (string \<rightharpoonup> int)) \<Rightarrow> (string \<Rightarrow> 'r \<Rightarrow> int option) \<Rightarrow> bool" where
  "redis_expiry_law zs ex \<longleftrightarrow>
     (\<forall>t t' k r. t \<le> t' \<longrightarrow>
        zs t' k r = (case ex k r of Some e \<Rightarrow> if e \<le> t' then Map.empty else zs t k r | None \<Rightarrow> zs t k r))"

definition redis_zset_law ::
  "'r redis \<Rightarrow> (int \<Rightarrow> string \<Rightarrow> 'r \<Rightarrow> (string \<rightharpoonup> int)) \<Rightarrow> (string \<Rightarrow> 'r \<Rightarrow> int option) \<Rightarrow> bool" where
  "redis_zset_law R zs ex \<longleftrightarrow>
     (\<forall>t k r. finite (dom (zs t k r))) \<and>
     redis_expiry_law zs ex \<and>
     (\<forall>t k s m r. zs t k (rd_ZADD R t k s m r) = (zs t k r)(m \<mapsto> s)) \<and>
     (\<forall>t k s m r. ex k (rd_ZADD R t k s m r) = (if zs t k r = Map.empty then None else ex k r)) \<and>
     (\<forall>t k m r. zs t k (rd_ZREM R t k m r) = (zs t k r)(m := None)) \<and>
     (\<forall>t k m r. zs t k (rd_ZREM R t k m r) \<noteq> Map.empty \<longrightarrow> ex k (rd_ZREM R t k m r) = ex k r) \<and>
     (\<forall>t k a b r. zs t k (rd_ZREMRANGEBYSCORE R t k a b r) =
        (\<lambda>m. case zs t k r m of None \<Rightarrow> None | Some s \<Rightarrow> if a \<le> s \<and> s \<le> b then None else Some s)) \<and>
     (\<forall>t k a b r. zs t k (rd_ZREMRANGEBYSCORE R t k a b r) \<noteq> Map.empty \<longrightarrow>
        ex k (rd_ZREMRANGEBYSCORE R t k a b r) = ex k r) \<and>
     (\<forall>t k s m r. zs t k (rd_ZINCRBY R t k s m r) =
        (zs t k r)(m \<mapsto> (case zs t k r m of None \<Rightarrow> s | Some x \<Rightarrow> x + s))) \<and>
     (\<forall>t k r. rd_ZCARD R t k r = int (card (dom (zs t k r)))) \<and>
     (\<forall>t k m r. rd_ZSCORE R t k m r = zs t k r m) \<and>
     (\<forall>t k a b r. set (rd_ZRANGEBYSCORE R t k a b r) = {m. \<exists>s. zs t k r m = Some s \<and> a \<le> s \<and> s \<le> b}) \<and>
     (\<forall>t k r. rd_ZMAX R t k r = None \<longleftrightarrow> zs t k r = Map.empty) \<and>
     (\<forall>t k r m s. rd_ZMAX R t k r = Some (m, s) \<longrightarrow>
        zs t k r m = Some s \<and> (\<forall>m' s'. zs t k r m' = Some s' \<longrightarrow> s' \<le> s)) \<and>
     (\<forall>t k px r. 0 < px \<longrightarrow> zs t k (rd_PEXPIRE R t k px r) = zs t k r) \<and>
     (\<forall>t k px r. 0 < px \<longrightarrow> zs t k r \<noteq> Map.empty \<longrightarrow> ex k (rd_PEXPIRE R t k px r) = Some (t + px))"

section \<open>Consequences\<close>

lemma call_Inr: "redis_call_law R \<Longrightarrow> rd_call R c body r = (Inr v, r') \<Longrightarrow> body r = (v, r')"
  by (simp add: redis_call_law_def)

lemma call_Inl: "redis_call_law R \<Longrightarrow> rd_call R c body r = (Inl e, r') \<Longrightarrow> r' = r \<or> r' = snd (body r)"
  by (simp add: redis_call_law_def)

lemma call_up: "redis_up R \<Longrightarrow> body r = (v, r') \<Longrightarrow> rd_call R None body r = (Inr v, r')"
  by (simp add: redis_up_def)

lemma decode_simps:
  assumes "redis_decode_law R"
  shows "rd_asSlice R (RArr xs) = Inr xs" and "rd_asInt R (RInt n) = Inr n"
    and "rd_asBool R (RInt n) = Inr (n = 1)" and "1000000 \<le> d \<Longrightarrow> rd_px R d = d div 1000000"
  using assms by (auto simp: redis_decode_law_def)

lemma string_simps:
  assumes "redis_string_law R"
  shows "0 < px \<Longrightarrow> t \<le> t' \<Longrightarrow> rd_GET R t' k' (rd_SETPX R t k v px r) =
          (if k' = k then if t' < t + px then Some v else None else rd_GET R t' k' r)"
    and "t \<le> t' \<Longrightarrow> rd_GET R t' k' (rd_SET R t k v r) = (if k' = k then Some v else rd_GET R t' k' r)"
    and "rd_SETNXPX R t k v px r =
          (if rd_GET R t k r = None then (True, rd_SETPX R t k v px r) else (False, r))"
    and "t \<le> t' \<Longrightarrow> rd_GET R t' k' (snd (rd_DEL R t k r)) = (if k' = k then None else rd_GET R t' k' r)"
  using assms by (auto simp: redis_string_law_def)

lemma string_GET_antimono:
  "redis_string_law R \<Longrightarrow> t \<le> t' \<Longrightarrow> rd_GET R t' k r = Some v \<Longrightarrow> rd_GET R t k r = Some v"
  by (simp add: redis_string_law_def)

lemma frame_simps:
  assumes "redis_frame_law R" "k' \<noteq> k"
  shows "rd_GET R t' k' (rd_SET R t k v r) = rd_GET R t' k' r"
    and "rd_GET R t' k' (snd (rd_SETNXPX R t k v px r)) = rd_GET R t' k' r"
    and "rd_GET R t' k' (snd (rd_DEL R t k r)) = rd_GET R t' k' r"
    and "rd_GET R t' k' (rd_ZADD R t k sc m r) = rd_GET R t' k' r"
    and "rd_GET R t' k' (rd_ZREM R t k m r) = rd_GET R t' k' r"
    and "rd_GET R t' k' (rd_ZREMRANGEBYSCORE R t k a b r) = rd_GET R t' k' r"
    and "rd_GET R t' k' (rd_ZINCRBY R t k sc m r) = rd_GET R t' k' r"
    and "rd_GET R t' k' (rd_PEXPIRE R t k px r) = rd_GET R t' k' r"
  using assms by (simp_all add: redis_frame_law_def)

lemma call_state:
  assumes "redis_call_law R" "rd_call R c body r = (x, r')"
  shows "r' = r \<or> r' = snd (body r)"
  using call_Inl [OF assms(1)] call_Inr [OF assms(1)] assms(2) by (cases x) (blast, metis snd_conv)

lemma zset_simps:
  assumes "redis_zset_law R zs ex"
  shows "finite (dom (zs t k r))"
    and "zs t k (rd_ZADD R t k s m r) = (zs t k r)(m \<mapsto> s)"
    and "zs t k (rd_ZREM R t k m r) = (zs t k r)(m := None)"
    and "zs t k (rd_ZREMRANGEBYSCORE R t k a b r) =
          (\<lambda>m. case zs t k r m of None \<Rightarrow> None | Some s \<Rightarrow> if a \<le> s \<and> s \<le> b then None else Some s)"
    and "zs t k (rd_ZINCRBY R t k s m r) =
          (zs t k r)(m \<mapsto> (case zs t k r m of None \<Rightarrow> s | Some x \<Rightarrow> x + s))"
    and "rd_ZCARD R t k r = int (card (dom (zs t k r)))"
    and "rd_ZSCORE R t k m r = zs t k r m"
    and "set (rd_ZRANGEBYSCORE R t k a b r) = {m. \<exists>s. zs t k r m = Some s \<and> a \<le> s \<and> s \<le> b}"
    and "0 < px \<Longrightarrow> zs t k (rd_PEXPIRE R t k px r) = zs t k r"
    and "0 < px \<Longrightarrow> zs t k r \<noteq> Map.empty \<Longrightarrow> ex k (rd_PEXPIRE R t k px r) = Some (t + px)"
    and "ex k (rd_ZADD R t k s m r) = (if zs t k r = Map.empty then None else ex k r)"
    and "zs t k (rd_ZREM R t k m r) \<noteq> Map.empty \<Longrightarrow> ex k (rd_ZREM R t k m r) = ex k r"
    and "zs t k (rd_ZREMRANGEBYSCORE R t k a b r) \<noteq> Map.empty \<Longrightarrow>
          ex k (rd_ZREMRANGEBYSCORE R t k a b r) = ex k r"
  using assms unfolding redis_zset_law_def by (elim conjE; metis)+

lemma zset_later:
  "redis_zset_law R zs ex \<Longrightarrow> t \<le> t' \<Longrightarrow>
     zs t' k r = (case ex k r of Some e \<Rightarrow> if e \<le> t' then Map.empty else zs t k r | None \<Rightarrow> zs t k r)"
  by (simp add: redis_zset_law_def redis_expiry_law_def)

end
