(* ===== verification/Redis_Ref.thy ===== *)
theory Redis_Ref
  imports Redis_Iface "HOL-Library.AList"
begin

text \<open>
  A reference server for the parameter of \<open>Redis_Iface\<close>: string keys and sorted sets, each with an
  optional expiry, and a client that hands every command to the server unless its context is done. It
  satisfies all the laws, so the hypotheses of the theorems about Redis backends can hold, and the
  witnesses of those theorems run on it. It stands for Redis only in the witnesses.
\<close>

section \<open>The server\<close>

record refServer =
  rs_strings :: "string \<rightharpoonup> string \<times> int option"
  rs_zsets :: "string \<rightharpoonup> (string \<times> int) list \<times> int option"

definition refEmpty :: refServer where
  "refEmpty = \<lparr>rs_strings = Map.empty, rs_zsets = Map.empty\<rparr>"

fun live :: "int option \<Rightarrow> int \<Rightarrow> bool" where
  "live None t = True"
| "live (Some e) t = (t < e)"

definition ref_GET :: "int \<Rightarrow> string \<Rightarrow> refServer \<Rightarrow> string option" where
  "ref_GET t k r = (case rs_strings r k of None \<Rightarrow> None | Some (v, e) \<Rightarrow> if live e t then Some v else None)"

definition ref_set :: "string \<Rightarrow> string \<Rightarrow> int option \<Rightarrow> refServer \<Rightarrow> refServer" where
  "ref_set k v e r = r\<lparr>rs_strings := (rs_strings r)(k \<mapsto> (v, e))\<rparr>"

definition ref_SETNXPX :: "int \<Rightarrow> string \<Rightarrow> string \<Rightarrow> int \<Rightarrow> refServer \<Rightarrow> bool \<times> refServer" where
  "ref_SETNXPX t k v px r = (if ref_GET t k r = None then (True, ref_set k v (Some (t + px)) r) else (False, r))"

definition ref_DEL :: "int \<Rightarrow> string \<Rightarrow> refServer \<Rightarrow> int \<times> refServer" where
  "ref_DEL t k r =
     (if ref_GET t k r = None then 0 else 1,
      r\<lparr>rs_strings := (rs_strings r)(k := None), rs_zsets := (rs_zsets r)(k := None)\<rparr>)"

text \<open>The live entries of a sorted set, its expiry, and writing it back: an empty set is no key.\<close>

definition ref_entries :: "int \<Rightarrow> string \<Rightarrow> refServer \<Rightarrow> (string \<times> int) list" where
  "ref_entries t k r =
     (case rs_zsets r k of None \<Rightarrow> [] | Some (l, e) \<Rightarrow> if live e t then AList.clearjunk l else [])"

definition ref_ex :: "string \<Rightarrow> refServer \<Rightarrow> int option" where
  "ref_ex k r = (case rs_zsets r k of None \<Rightarrow> None | Some (l, e) \<Rightarrow> e)"

definition ref_put :: "string \<Rightarrow> (string \<times> int) list \<Rightarrow> int option \<Rightarrow> refServer \<Rightarrow> refServer" where
  "ref_put k l e r = r\<lparr>rs_zsets := (rs_zsets r)(k := if l = [] then None else Some (l, e))\<rparr>"

definition ref_zs :: "int \<Rightarrow> string \<Rightarrow> refServer \<Rightarrow> (string \<rightharpoonup> int)" where
  "ref_zs t k r = map_of (ref_entries t k r)"

definition ref_ZADD :: "int \<Rightarrow> string \<Rightarrow> int \<Rightarrow> string \<Rightarrow> refServer \<Rightarrow> refServer" where
  "ref_ZADD t k s m r =
     (let l = ref_entries t k r in ref_put k (AList.update m s l) (if l = [] then None else ref_ex k r) r)"

definition ref_keep :: "int \<Rightarrow> string \<Rightarrow> (string \<times> int \<Rightarrow> bool) \<Rightarrow> refServer \<Rightarrow> refServer" where
  "ref_keep t k P r = ref_put k (filter P (ref_entries t k r)) (ref_ex k r) r"

fun zmax :: "(string \<times> int) list \<Rightarrow> (string \<times> int) option" where
  "zmax [] = None"
| "zmax (p # l) = (case zmax l of None \<Rightarrow> Some p | Some q \<Rightarrow> if snd p < snd q then Some q else Some p)"

definition refRedis :: "refServer redis" where
  "refRedis =
     \<lparr>rd_GET = ref_GET,
      rd_SET = (\<lambda>t k v. ref_set k v None),
      rd_SETPX = (\<lambda>t k v px. ref_set k v (Some (t + px))),
      rd_SETNXPX = ref_SETNXPX,
      rd_DEL = ref_DEL,
      rd_ZADD = ref_ZADD,
      rd_ZREM = (\<lambda>t k m. ref_keep t k (\<lambda>p. fst p \<noteq> m)),
      rd_ZREMRANGEBYSCORE = (\<lambda>t k a b. ref_keep t k (\<lambda>p. \<not> (a \<le> snd p \<and> snd p \<le> b))),
      rd_ZINCRBY = (\<lambda>t k s m r. ref_ZADD t k (case ref_zs t k r m of None \<Rightarrow> s | Some x \<Rightarrow> x + s) m r),
      rd_ZCARD = (\<lambda>t k r. int (length (ref_entries t k r))),
      rd_ZSCORE = (\<lambda>t k m r. ref_zs t k r m),
      rd_ZRANGEBYSCORE = (\<lambda>t k a b r. map fst (filter (\<lambda>p. a \<le> snd p \<and> snd p \<le> b) (ref_entries t k r))),
      rd_ZMAX = (\<lambda>t k r. zmax (ref_entries t k r)),
      rd_PEXPIRE = (\<lambda>t k px r. ref_put k (ref_entries t k r) (Some (t + px)) r),
      rd_call = (\<lambda>c body r. case c of Some e \<Rightarrow> (Inl e, r) | None \<Rightarrow> (case body r of (v, r') \<Rightarrow> (Inr v, r'))),
      rd_asSlice = (\<lambda>v. case v of RArr xs \<Rightarrow> Inr xs | _ \<Rightarrow> Inl (Errorf ''redis: unexpected type for Slice'')),
      rd_asInt = (\<lambda>v. case v of RInt n \<Rightarrow> Inr n | _ \<Rightarrow> Inl (Errorf ''redis: unexpected type for Int'')),
      rd_asBool = (\<lambda>v. case v of RInt n \<Rightarrow> Inr (n = 1) | _ \<Rightarrow> Inl (Errorf ''redis: unexpected type for Bool'')),
      rd_px = (\<lambda>d. if 0 < d \<and> d < 1000000 then 1 else quot d 1000000)\<rparr>"

section \<open>It keeps the laws\<close>

lemma live_mono: "t \<le> t' \<Longrightarrow> live e t' \<Longrightarrow> live e t"
  by (cases e) auto

lemma refRedis_call_law [simp]: "redis_call_law refRedis"
  by (auto simp: redis_call_law_def refRedis_def split: option.splits prod.splits)

lemma refRedis_up [simp]: "redis_up refRedis"
  by (simp add: redis_up_def refRedis_def case_prod_unfold)

lemma refRedis_decode_law [simp]: "redis_decode_law refRedis"
  by (simp add: redis_decode_law_def refRedis_def quot_def)

lemma refRedis_string_law [simp]: "redis_string_law refRedis"
  unfolding redis_string_law_def refRedis_def
  by (auto simp: ref_GET_def ref_set_def ref_SETNXPX_def ref_DEL_def dest: live_mono split: option.splits if_splits)

lemma refRedis_frame_law [simp]: "redis_frame_law refRedis"
  unfolding redis_frame_law_def refRedis_def
  by (simp add: ref_GET_def ref_set_def ref_SETNXPX_def ref_DEL_def ref_ZADD_def ref_keep_def ref_put_def Let_def)

lemma distinct_entries: "distinct (map fst (ref_entries t k r))"
  by (simp add: ref_entries_def distinct_clearjunk split: option.split)

lemma entries_put: "distinct (map fst l) \<Longrightarrow> live e t \<Longrightarrow> ref_entries t k (ref_put k l e r) = l"
  by (simp add: ref_entries_def ref_put_def distinct_clearjunk_id)

lemma ex_put: "ref_ex k (ref_put k l e r) = (if l = [] then None else e)"
  by (simp add: ref_ex_def ref_put_def)

lemma live_ex: "ref_entries t k r \<noteq> [] \<Longrightarrow> live (ref_ex k r) t"
  by (auto simp: ref_entries_def ref_ex_def split: option.splits if_splits)

lemma zs_Nil: "ref_zs t k r = Map.empty \<longleftrightarrow> ref_entries t k r = []"
  by (simp add: ref_zs_def)

lemma map_of_filter:
  "distinct (map fst l) \<Longrightarrow>
     map_of (filter P l) m = (case map_of l m of None \<Rightarrow> None | Some s \<Rightarrow> if P (m, s) then Some s else None)"
proof (induction l)
  case (Cons a l)
  have "map_of l (fst a) = None" using Cons.prems by (simp add: map_of_eq_None_iff)
  with Cons show ?case by (cases a) auto
qed simp

lemma entries_keep:
  "ref_entries t k (ref_keep t k P r) = filter P (ref_entries t k r)"
proof (cases "ref_entries t k r = []")
  case False
  then show ?thesis
    using distinct_entries [of t k r] live_ex [OF False] unfolding ref_keep_def
    by (intro entries_put) (simp_all add: distinct_map_filter)
qed (simp add: ref_keep_def ref_put_def ref_entries_def)

lemma ex_keep: "ref_entries t k (ref_keep t k P r) \<noteq> [] \<Longrightarrow> ref_ex k (ref_keep t k P r) = ref_ex k r"
  unfolding entries_keep by (auto simp: ref_keep_def ex_put)

lemma entries_ZADD: "ref_entries t k (ref_ZADD t k s m r) = AList.update m s (ref_entries t k r)"
  unfolding ref_ZADD_def Let_def using distinct_entries [of t k r] live_ex [of t k r]
  by (intro entries_put) (simp_all add: distinct_update)

lemma update_not_Nil: "AList.update m s l \<noteq> []"
  by (cases l) auto

lemma ex_ZADD: "ref_ex k (ref_ZADD t k s m r) = (if ref_entries t k r = [] then None else ref_ex k r)"
  by (simp add: ref_ZADD_def Let_def ex_put update_not_Nil)

lemma zmax_None: "zmax l = None \<longleftrightarrow> l = []"
  by (cases l) (auto split: option.splits)

lemma zmax_Some: "zmax l = Some p \<Longrightarrow> p \<in> set l \<and> (\<forall>q \<in> set l. snd q \<le> snd p)"
proof (induction l arbitrary: p)
  case (Cons a l)
  show ?case
  proof (cases "zmax l")
    case None
    with Cons.prems show ?thesis by (simp add: zmax_None)
  next
    case (Some q)
    with Cons.prems Cons.IH [OF Some] show ?thesis by (fastforce split: if_splits)
  qed
qed simp

lemma refRedis_expiry_law: "redis_expiry_law ref_zs ref_ex"
  unfolding redis_expiry_law_def
  by (auto simp: ref_zs_def ref_entries_def ref_ex_def dest: live_mono split: option.splits)

lemma ref_zs_ZMAX:
  assumes "zmax (ref_entries t k r) = Some (m, s)"
  shows "ref_zs t k r m = Some s \<and> (\<forall>m' s'. ref_zs t k r m' = Some s' \<longrightarrow> s' \<le> s)"
  using zmax_Some [OF assms] distinct_entries [of t k r]
  by (auto simp: ref_zs_def dest: map_of_SomeD)

lemma card_entries: "int (length (ref_entries t k r)) = int (card (dom (ref_zs t k r)))"
proof -
  have "length (ref_entries t k r) = card (set (map fst (ref_entries t k r)))"
    using distinct_card [OF distinct_entries [of t k r]] by simp
  then show ?thesis by (simp add: ref_zs_def dom_map_of_conv_image_fst)
qed

lemma range_entries:
  "set (map fst (filter (\<lambda>p. a \<le> snd p \<and> snd p \<le> b) (ref_entries t k r))) =
     {m. \<exists>s. ref_zs t k r m = Some s \<and> a \<le> s \<and> s \<le> b}"
  using distinct_entries [of t k r] by (force simp: ref_zs_def image_iff dest: map_of_SomeD)

lemma zs_keep:
  "ref_zs t k (ref_keep t k P r) =
     (\<lambda>m. case ref_zs t k r m of None \<Rightarrow> None | Some s \<Rightarrow> if P (m, s) then Some s else None)"
  unfolding ref_zs_def entries_keep by (rule ext) (rule map_of_filter [OF distinct_entries])

lemma zs_ZREM: "ref_zs t k (ref_keep t k (\<lambda>p. fst p \<noteq> m) r) = (ref_zs t k r)(m := None)"
  unfolding zs_keep by (auto split: option.splits)

lemma zs_ZREMRANGE:
  "ref_zs t k (ref_keep t k (\<lambda>p. \<not> (a \<le> snd p \<and> snd p \<le> b)) r) =
     (\<lambda>m. case ref_zs t k r m of None \<Rightarrow> None | Some s \<Rightarrow> if a \<le> s \<and> s \<le> b then None else Some s)"
  unfolding zs_keep by (auto split: option.splits)

lemma zs_ZADD: "ref_zs t k (ref_ZADD t k s m r) = (ref_zs t k r)(m \<mapsto> s)"
  by (simp add: ref_zs_def entries_ZADD update_conv')

lemma zs_PEXPIRE:
  assumes "0 < px"
  shows "ref_zs t k (ref_put k (ref_entries t k r) (Some (t + px)) r) = ref_zs t k r"
  using assms by (simp add: ref_zs_def entries_put distinct_entries)

lemma finite_zs: "finite (dom (ref_zs t k r))"
  by (simp add: ref_zs_def finite_dom_map_of)

lemma zs_ex_keep: "ref_zs t k (ref_keep t k P r) \<noteq> Map.empty \<Longrightarrow> ref_ex k (ref_keep t k P r) = ref_ex k r"
  unfolding zs_Nil by (rule ex_keep)

lemma refRedis_zset_law [simp]: "redis_zset_law refRedis ref_zs ref_ex"
  unfolding redis_zset_law_def refRedis_def redis.simps
  by (intro conjI allI impI refRedis_expiry_law zs_ZADD zs_ZREM zs_ZREMRANGE zs_ex_keep card_entries range_entries
        zs_PEXPIRE refl)
    (simp_all add: zs_Nil ex_ZADD ex_put zmax_None ref_zs_ZMAX finite_zs)

end
