(* ===== verification/Ratelimit.thy ===== *)
theory Ratelimit
  imports Complex_Main Redis_Ref
begin

text \<open>
  Package \<^verbatim>\<open>ratelimit\<close>: configurations and sentinels (\<^verbatim>\<open>limiter.go\<close>), the per-key token bucket
  (\<^verbatim>\<open>token_bucket.go\<close>) and the Redis sliding window with its Lua script (\<^verbatim>\<open>redis_sliding_window.go\<close>).
  The buckets themselves are \<^verbatim>\<open>golang.org/x/time/rate\<close> limiters, a package outside the repository: they
  are the parameter \<open>'l rateLib\<close>, with the documented bound of a token bucket as the law \<open>rate_law\<close>.
\<close>

section \<open>Sentinels and configurations\<close>

type_synonym 'w limiter = "ctx \<Rightarrow> time \<Rightarrow> string \<Rightarrow> 'w \<Rightarrow> (go_error + bool) \<times> 'w"

definition ratelimit_ErrKeyRequired :: go_error where
  "ratelimit_ErrKeyRequired = Sentinel ''ratelimit: key is required''"

definition ratelimit_ErrNilClient :: go_error where
  "ratelimit_ErrNilClient = Sentinel ''ratelimit: redis client is required''"

definition ratelimit_ErrInvalidConfig :: go_error where
  "ratelimit_ErrInvalidConfig = Sentinel ''ratelimit: invalid configuration''"

record TokenBucketConfig =
  tbc_Rate :: real
  tbc_Burst :: int

definition TokenBucketConfig_withDefaults :: "TokenBucketConfig \<Rightarrow> TokenBucketConfig" where
  "TokenBucketConfig_withDefaults c =
     (let c1 = (if tbc_Rate c \<le> 0 then c\<lparr>tbc_Rate := 10\<rparr> else c)
      in if tbc_Burst c1 \<le> 0 then c1\<lparr>tbc_Burst := 20\<rparr> else c1)"

record SlidingWindowConfig =
  swc_Limit :: int
  swc_Window :: duration

definition SlidingWindowConfig_validate :: "SlidingWindowConfig \<Rightarrow> go_error option" where
  "SlidingWindowConfig_validate c =
     (if swc_Limit c \<le> 0 then Some (Wrapf [] ratelimit_ErrInvalidConfig '': limit must be positive'')
      else if swc_Window c \<le> 0 then Some (Wrapf [] ratelimit_ErrInvalidConfig '': window must be positive'')
      else None)"

section \<open>The token bucket\<close>

record 'l rateLib =
  rl_NewLimiter :: "real \<Rightarrow> int \<Rightarrow> 'l"
  rl_Allow :: "time \<Rightarrow> 'l \<Rightarrow> bool \<times> 'l"

record 'l tokenBucket =
  tb_rate :: real
  tb_burst :: int
  tb_buckets :: "string \<rightharpoonup> 'l"

definition NewTokenBucket :: "TokenBucketConfig \<Rightarrow> 'l tokenBucket" where
  "NewTokenBucket cfg =
     (let c = TokenBucketConfig_withDefaults cfg
      in \<lparr>tb_rate = tbc_Rate c, tb_burst = tbc_Burst c, tb_buckets = Map.empty\<rparr>)"

text \<open>\<^verbatim>\<open>limiter(key)\<close>: the bucket of the key, made and stored at its first use.\<close>

definition tokenBucket_limiter :: "'l rateLib \<Rightarrow> string \<Rightarrow> 'l tokenBucket \<Rightarrow> 'l \<times> 'l tokenBucket" where
  "tokenBucket_limiter L key t =
     (case tb_buckets t key of
        Some lmt \<Rightarrow> (lmt, t)
      | None \<Rightarrow>
          let lmt = rl_NewLimiter L (tb_rate t) (tb_burst t)
          in (lmt, t\<lparr>tb_buckets := (tb_buckets t)(key \<mapsto> lmt)\<rparr>))"

definition tokenBucket_Allow :: "'l rateLib \<Rightarrow> 'l tokenBucket limiter" where
  "tokenBucket_Allow L c now key t =
     (if key = [] then (Inl ratelimit_ErrKeyRequired, t)
      else
        (case c of
           Some e \<Rightarrow> (Inl e, t)
         | None \<Rightarrow>
             (case tokenBucket_limiter L key t of (lmt, t1) \<Rightarrow>
                (case rl_Allow L now lmt of (ok, lmt') \<Rightarrow>
                   (Inr ok, t1\<lparr>tb_buckets := (tb_buckets t1)(key \<mapsto> lmt')\<rparr>)))))"

section \<open>The Redis sliding window\<close>

record redisSlidingWindow =
  sw_prefix :: string
  sw_cfg :: SlidingWindowConfig

text \<open>\<open>client\<close> is \<open>False\<close> for a nil client.\<close>

definition NewRedisSlidingWindow :: "bool \<Rightarrow> string \<Rightarrow> SlidingWindowConfig \<Rightarrow> go_error + redisSlidingWindow" where
  "NewRedisSlidingWindow client keyPrefix cfg =
     (if \<not> client then Inl ratelimit_ErrNilClient
      else
        (case SlidingWindowConfig_validate cfg of
           Some e \<Rightarrow> Inl e
         | None \<Rightarrow>
             Inr \<lparr>sw_prefix = (if keyPrefix = [] then ''floodguard:ratelimit'' else keyPrefix), sw_cfg = cfg\<rparr>))"

definition slidingWindowScript :: "'r redis \<Rightarrow> int \<Rightarrow> string \<Rightarrow> int \<Rightarrow> int \<Rightarrow> int \<Rightarrow> string \<Rightarrow> int \<Rightarrow> 'r rcmd" where
  "slidingWindowScript R t key now window_start limit member ttl_ms r =
     (let r1 = rd_ZREMRANGEBYSCORE R t key 0 window_start r;
          r2 = rd_ZADD R t key now member r1;
          count = rd_ZCARD R t key r2
      in if limit < count then (RInt 0, rd_ZREM R t key member r2)
         else (RInt 1, rd_PEXPIRE R t key ttl_ms r2))"

definition sw_rkey :: "redisSlidingWindow \<Rightarrow> string \<Rightarrow> string" where
  "sw_rkey s key = sw_prefix s @ '':sw:'' @ key"

definition sw_member :: "time \<Rightarrow> int \<Rightarrow> string" where
  "sw_member now n = FormatInt (time_UnixNano now) @ ''-'' @ FormatInt n"

text \<open>The state is the limiter's sequence number and the server.\<close>

definition slidingWindow_Allow :: "'r redis \<Rightarrow> redisSlidingWindow \<Rightarrow> (int \<times> 'r) limiter" where
  "slidingWindow_Allow R s c now key st =
     (if key = [] then (Inl ratelimit_ErrKeyRequired, st)
      else
        (case c of
           Some e \<Rightarrow> (Inl e, st)
         | None \<Rightarrow>
             let seq = u64 (fst st + 1);
                 ttl = i64 (swc_Window (sw_cfg s) + second)
             in (case rd_call R c (slidingWindowScript R (time_UnixMilli now) (sw_rkey s key)
                         (time_UnixMilli now) (time_UnixMilli (time_Add now (dur_neg (swc_Window (sw_cfg s)))))
                         (swc_Limit (sw_cfg s)) (sw_member now seq) (dur_Milliseconds ttl)) (snd st) of
                   (Inl e, r') \<Rightarrow> (Inl (Wrapf ''ratelimit: redis allow: '' e []), (seq, r'))
                 | (Inr rep, r') \<Rightarrow>
                     (case rd_asInt R rep of
                        Inl e \<Rightarrow> (Inl (Wrapf ''ratelimit: redis allow: '' e []), (seq, r'))
                      | Inr res \<Rightarrow> (Inr (res = 1), (seq, r'))))))"

section \<open>Runs of a limiter\<close>

text \<open>Calls are made one after the other; the result is the calls that were let through.\<close>

fun limiterRun :: "'w limiter \<Rightarrow> (string \<times> time) list \<Rightarrow> 'w \<Rightarrow> (string \<times> time) list" where
  "limiterRun lmt [] w = []"
| "limiterRun lmt ((key, now) # calls) w =
     (case lmt None now key w of (x, w') \<Rightarrow>
        (if x = Inr True then [(key, now)] else []) @ limiterRun lmt calls w')"

text \<open>The same for one bucket of the library.\<close>

fun bucketRun :: "'l rateLib \<Rightarrow> time list \<Rightarrow> 'l \<Rightarrow> time list" where
  "bucketRun L [] l = []"
| "bucketRun L (now # nows) l =
     (case rl_Allow L now l of (ok, l') \<Rightarrow> (if ok then [now] else []) @ bucketRun L nows l')"

text \<open>What the package documents of a limiter: a token bucket of size \<open>b\<close>, initially full and refilled at
  \<open>r\<close> tokens per second, lets at most \<open>b\<close> events plus \<open>r\<close> per elapsed second through.\<close>

definition rate_law :: "'l rateLib \<Rightarrow> bool" where
  "rate_law L \<longleftrightarrow> (\<forall>r b t nows. 0 < r \<longrightarrow> 0 < b \<longrightarrow> sorted (t # nows) \<longrightarrow>
     real (length (bucketRun L (t # nows) (rl_NewLimiter L r b))) \<le>
       real_of_int b + r * (real_of_int (last (t # nows) - t) / 1000000000))"

section \<open>Independence of the buckets\<close>

definition bucketOf :: "'l rateLib \<Rightarrow> 'l tokenBucket \<Rightarrow> string \<Rightarrow> 'l" where
  "bucketOf L t key =
     (case tb_buckets t key of Some l \<Rightarrow> l | None \<Rightarrow> rl_NewLimiter L (tb_rate t) (tb_burst t))"

lemma tokenBucket_Allow_bucket:
  assumes "key \<noteq> []" "tokenBucket_Allow L None now key t = (x, t')"
  shows "x = Inr (fst (rl_Allow L now (bucketOf L t key))) \<and>
     bucketOf L t' k = (if k = key then snd (rl_Allow L now (bucketOf L t key)) else bucketOf L t k) \<and>
     tb_rate t' = tb_rate t \<and> tb_burst t' = tb_burst t"
  using assms
  by (auto simp: tokenBucket_Allow_def tokenBucket_limiter_def bucketOf_def Let_def
      split: option.splits prod.splits if_splits)

lemma tokenBucket_Allow_nil: "tokenBucket_Allow L None now [] t = (Inl ratelimit_ErrKeyRequired, t)"
  by (simp add: tokenBucket_Allow_def)

text \<open>What a key is let through depends on the calls for that key alone.\<close>

lemma limiterRun_bucketRun:
  assumes "key \<noteq> []"
  shows "map snd (filter (\<lambda>c. fst c = key) (limiterRun (tokenBucket_Allow L) calls t)) =
     bucketRun L (map snd (filter (\<lambda>c. fst c = key) calls)) (bucketOf L t key)"
proof (induction calls arbitrary: t)
  case (Cons call calls)
  obtain k now where call: "call = (k, now)" by fastforce
  obtain x t' where al: "tokenBucket_Allow L None now k t = (x, t')" by fastforce
  show ?case
  proof (cases "k = []")
    case True
    then show ?thesis using Cons assms call by (simp add: tokenBucket_Allow_nil)
  next
    case False
    from tokenBucket_Allow_bucket [OF False al, of key] Cons.IH [of t'] al call show ?thesis
      by (auto split: prod.splits)
  qed
qed simp

section \<open>The window bound of the Redis limiter\<close>

text \<open>
  Accepted calls are kept as pairs of clock reading and sequence number. \<open>swKnows\<close> relates them to the
  server at clock \<open>t\<close>: every accepted call after the cutoff \<open>c\<close> is in the sorted set under its own
  member, members are told apart by their sequence numbers, and the set does not expire before its
  newest accepted entry has left the window.
\<close>

definition swTTL :: "redisSlidingWindow \<Rightarrow> int" where
  "swTTL s = dur_Milliseconds (i64 (swc_Window (sw_cfg s) + second))"

definition swKnows :: "redisSlidingWindow \<Rightarrow> (int \<Rightarrow> string \<Rightarrow> 'r \<Rightarrow> (string \<rightharpoonup> int)) \<Rightarrow>
    (string \<Rightarrow> 'r \<Rightarrow> int option) \<Rightarrow> string \<Rightarrow> (time \<times> int) list \<Rightarrow> int \<Rightarrow> int \<Rightarrow> int \<times> 'r \<Rightarrow> bool" where
  "swKnows s zs ex k acc c t st \<longleftrightarrow>
     (\<forall>(a, n) \<in> set acc. c < time_UnixMilli a \<longrightarrow> zs t k (snd st) (sw_member a n) = Some (time_UnixMilli a)) \<and>
     (\<forall>(a, n) \<in> set acc. time_UnixMilli a \<le> t \<and> 0 < n \<and> n \<le> fst st) \<and>
     distinct (map snd acc) \<and>
     (zs t k (snd st) \<noteq> Map.empty \<longrightarrow>
        (\<exists>e. ex k (snd st) = Some e \<and> (\<forall>(a, n) \<in> set acc. time_UnixMilli a + swTTL s \<le> e)))"

definition validWindow :: "redisSlidingWindow \<Rightarrow> bool" where
  "validWindow s \<longleftrightarrow> 0 < swc_Limit (sw_cfg s) \<and> 0 < swc_Window (sw_cfg s) \<and>
     swc_Window (sw_cfg s) \<le> maxInt64 - second"

lemma FormatInt_pos_digits: "0 \<le> i \<Longrightarrow> CHR ''-'' \<notin> set (FormatInt i)"
  by (simp add: FormatInt_def minus_not_digit)

lemma sw_member_inj:
  assumes "0 \<le> n" "0 \<le> n'" "sw_member a n = sw_member a' n'" shows "n = n'"
proof -
  have "FormatInt (time_UnixNano a) @ CHR ''-'' # FormatInt n = FormatInt (time_UnixNano a') @ CHR ''-'' # FormatInt n'"
    using assms(3) by (simp add: sw_member_def)
  then have "FormatInt n = FormatInt n'"
    using assms FormatInt_pos_digits by (subst (asm) sep_append_inj_right) auto
  then show ?thesis by (simp add: FormatInt_inj)
qed

text \<open>The cutoff of a call lies at or after everything a set that has expired by then can hold.\<close>

lemma cutoff_covers_expiry:
  assumes "validWindow s" "time_UnixMilli a + swTTL s \<le> time_UnixMilli now"
  shows "time_UnixMilli a \<le> time_UnixMilli (now - swc_Window (sw_cfg s))"
proof -
  have i: "in_i64 (swc_Window (sw_cfg s) + second)"
    using assms(1) by (simp add: validWindow_def in_i64_def second_def maxInt64_def)
  have "swTTL s = (swc_Window (sw_cfg s) + 1000000000) div 1000000"
    using assms(1) i unfolding swTTL_def by (simp add: dur_Milliseconds_pos second_def validWindow_def)
  with assms show ?thesis by (simp add: time_UnixMilli_def)
qed

lemma card_ge_members:
  assumes "finite (dom z)" "distinct (map snd acc)" "\<forall>(a, n) \<in> set acc. 0 < n"
    and "\<forall>(a, n) \<in> set acc. z (sw_member a n) \<noteq> None"
  shows "length acc \<le> card (dom z)"
proof -
  have inj: "inj_on (\<lambda>(a, n). sw_member a n) (set acc)"
  proof (rule inj_onI, clarify)
    fix a n a' n'
    assume in1: "(a, n) \<in> set acc" and in2: "(a', n') \<in> set acc" and eq: "sw_member a n = sw_member a' n'"
    then have "n = n'" using assms(3) by (intro sw_member_inj [OF _ _ eq]) auto
    with in1 in2 assms(2) show "a = a' \<and> n = n'"
      by (metis distinct_map inj_onD prod.inject snd_conv)
  qed
  have "length acc = card (set acc)" using assms(2) by (simp add: distinct_card distinct_map)
  also have "\<dots> = card ((\<lambda>(a, n). sw_member a n) ` set acc)" using inj by (simp add: card_image)
  also have "\<dots> \<le> card (dom z)" using assms(1,4) by (intro card_mono) auto
  finally show ?thesis .
qed

abbreviation swBody :: "'r redis \<Rightarrow> redisSlidingWindow \<Rightarrow> string \<Rightarrow> time \<Rightarrow> int \<Rightarrow> 'r rcmd" where
  "swBody R s k now n \<equiv>
     slidingWindowScript R (time_UnixMilli now) k (time_UnixMilli now)
       (time_UnixMilli (now - swc_Window (sw_cfg s))) (swc_Limit (sw_cfg s)) (sw_member now n) (swTTL s)"

text \<open>Time may have passed since the set was last touched.\<close>

lemma swKnows_later:
  assumes law: "redis_zset_law R zs ex" and v: "validWindow s" and k: "swKnows s zs ex k acc c t (q, r)"
    and t: "t \<le> time_UnixMilli now" and c: "c \<le> time_UnixMilli (now - swc_Window (sw_cfg s))"
  shows "swKnows s zs ex k acc (time_UnixMilli (now - swc_Window (sw_cfg s))) (time_UnixMilli now) (q, r)"
proof -
  note late = zset_later [OF law t, of k r]
  have "zs (time_UnixMilli now) k r (sw_member a n) = Some (time_UnixMilli a)"
    if an: "(a, n) \<in> set acc" "time_UnixMilli (now - swc_Window (sw_cfg s)) < time_UnixMilli a" for a n
  proof -
    have old: "zs t k r (sw_member a n) = Some (time_UnixMilli a)" using k an c by (fastforce simp: swKnows_def)
    then have "zs t k r \<noteq> Map.empty" by auto
    then obtain e where "ex k r = Some e" "time_UnixMilli a + swTTL s \<le> e" using k an by (fastforce simp: swKnows_def)
    moreover from this have "\<not> e \<le> time_UnixMilli now"
      using cutoff_covers_expiry [OF v, of a now] an by linarith
    ultimately show ?thesis using late old by simp
  qed
  moreover have "zs (time_UnixMilli now) k r \<noteq> Map.empty \<Longrightarrow> zs t k r \<noteq> Map.empty"
    using late by (auto split: option.splits if_splits)
  ultimately show ?thesis using k t by (fastforce simp: swKnows_def)
qed

lemma swTTL_pos: "validWindow s \<Longrightarrow> 0 < swTTL s"
proof -
  assume v: "validWindow s"
  then have "in_i64 (swc_Window (sw_cfg s) + second)"
    by (simp add: validWindow_def in_i64_def second_def maxInt64_def)
  with v show ?thesis
    unfolding swTTL_def by (auto simp: dur_Milliseconds_pos second_def validWindow_def pos_imp_zdiv_pos_iff)
qed

text \<open>One run of the script on a set that is up to date.\<close>

lemma swBody_step:
  assumes law: "redis_zset_law R zs ex" and v: "validWindow s" and q: "0 \<le> q"
    and k: "swKnows s zs ex k acc (time_UnixMilli (now - swc_Window (sw_cfg s))) (time_UnixMilli now) (q, r)"
      (is "swKnows _ _ _ _ _ ?c ?t _")
    and out: "swBody R s k now (q + 1) r = (rep, r')"
  shows "swKnows s zs ex k acc ?c ?t (q + 1, r')" (is ?keeps)
    and "rep = RInt 1 \<Longrightarrow> swKnows s zs ex k (acc @ [(now, q + 1)]) ?c ?t (q + 1, r') \<and>
      int (length (filter (\<lambda>(a, n). ?c < time_UnixMilli a) acc)) < swc_Limit (sw_cfg s)" (is "_ \<Longrightarrow> ?adds")
proof -
  let ?m = "sw_member now (q + 1)"
  define r1 where "r1 = rd_ZREMRANGEBYSCORE R ?t k 0 ?c r"
  define r2 where "r2 = rd_ZADD R ?t k ?t ?m r1"
  have z1: "zs ?t k r1 = (\<lambda>m. case zs ?t k r m of None \<Rightarrow> None | Some x \<Rightarrow> if 0 \<le> x \<and> x \<le> ?c then None else Some x)"
    unfolding r1_def by (rule zset_simps(4) [OF law])
  have z2: "zs ?t k r2 = (zs ?t k r1)(?m \<mapsto> ?t)" unfolding r2_def by (rule zset_simps(2) [OF law])
  have fresh: "?m \<noteq> sw_member a n" if "(a, n) \<in> set acc" for a n
    using k that q sw_member_inj [of n "q + 1" a now] by (fastforce simp: swKnows_def)
  have in2: "zs ?t k r2 (sw_member a n) = Some (time_UnixMilli a)" if "(a, n) \<in> set acc" "?c < time_UnixMilli a" for a n
    using k that fresh z1 z2 by (fastforce simp: swKnows_def)
  have old: "\<exists>e. ex k r1 = Some e \<and> (\<forall>(a, n) \<in> set acc. time_UnixMilli a + swTTL s \<le> e)" if ne: "zs ?t k r1 \<noteq> Map.empty"
  proof -
    have "zs ?t k r \<noteq> Map.empty" using ne z1 by auto
    moreover have "ex k r1 = ex k r" using zset_simps(13) [OF law, of ?t k 0 ?c r] ne by (simp add: r1_def)
    ultimately show ?thesis using k by (fastforce simp: swKnows_def)
  qed
  have ex2: "ex k r2 = (if zs ?t k r1 = Map.empty then None else ex k r1)"
    unfolding r2_def by (rule zset_simps(11) [OF law])
  have fin: "finite (dom (zs ?t k r1))" by (rule zset_simps(1) [OF law])
  have "zs ?t k r2 \<noteq> Map.empty" using z2 by (metis fun_upd_same option.distinct(1))
  note expires = zset_simps(9) [OF law swTTL_pos [OF v], of ?t k r2]
    zset_simps(10) [OF law swTTL_pos [OF v] this]
  show ?keeps and "rep = RInt 1 \<Longrightarrow> ?adds"
  proof -
    show ?adds if "rep = RInt 1"
    proof -
      have small: "rd_ZCARD R ?t k r2 \<le> swc_Limit (sw_cfg s)" and r': "r' = rd_PEXPIRE R ?t k (swTTL s) r2"
        using out that by (auto simp: slidingWindowScript_def Let_def r1_def r2_def split: if_splits)
      have z': "zs ?t k r' = zs ?t k r2" "ex k r' = Some (?t + swTTL s)"
        using expires r' by simp_all
      let ?live = "filter (\<lambda>(a, n). ?c < time_UnixMilli a) acc @ [(now, q + 1)]"
      have "length ?live \<le> card (dom (zs ?t k r2))"
        using in2 z2 k q fin by (intro card_ge_members) (auto simp: swKnows_def distinct_map_filter split_beta)
      then have "int (length (filter (\<lambda>(a, n). ?c < time_UnixMilli a) acc)) < swc_Limit (sw_cfg s)"
        using small zset_simps(6) [OF law, of ?t k r2] by simp
      moreover have "swKnows s zs ex k (acc @ [(now, q + 1)]) ?c ?t (q + 1, r')"
        using k in2 z2 z' q by (fastforce simp: swKnows_def)
      ultimately show ?thesis by simp
    qed
    show ?keeps
    proof (cases "swc_Limit (sw_cfg s) < rd_ZCARD R ?t k r2")
      case False
      then have "r' = rd_PEXPIRE R ?t k (swTTL s) r2"
        using out by (auto simp: slidingWindowScript_def Let_def r1_def r2_def split: if_splits)
      then have "zs ?t k r' = zs ?t k r2" "ex k r' = Some (?t + swTTL s)"
        using expires by simp_all
      with k in2 show ?thesis by (fastforce simp: swKnows_def)
    next
      case True
      then have r': "r' = rd_ZREM R ?t k ?m r2"
        using out by (auto simp: slidingWindowScript_def Let_def r1_def r2_def split: if_splits)
      have z3: "zs ?t k r' = (zs ?t k r2)(?m := None)" unfolding r' by (rule zset_simps(3) [OF law])
      have ne: "zs ?t k r1 \<noteq> Map.empty"
        using True zset_simps(6) [OF law, of ?t k r2] z2 v by (auto simp: validWindow_def)
      have "ex k r' = ex k r1" if "zs ?t k r' \<noteq> Map.empty"
        using zset_simps(12) [OF law, of ?t k ?m r2] ex2 ne that by (simp add: r')
      with old [OF ne] k in2 fresh z3 show ?thesis by (fastforce simp: swKnows_def)
    qed
  qed
qed

text \<open>Every accepted call sees fewer than the limit of earlier accepted calls inside its window.\<close>

definition withinWindow :: "redisSlidingWindow \<Rightarrow> time list \<Rightarrow> bool" where
  "withinWindow s ts \<longleftrightarrow> (\<forall>xs t ys. ts = xs @ t # ys \<longrightarrow>
     int (length (filter (\<lambda>a. time_UnixMilli (t - swc_Window (sw_cfg s)) < time_UnixMilli a) xs)) < swc_Limit (sw_cfg s))"

lemma withinWindow_snoc:
  "withinWindow s (xs @ [t]) \<longleftrightarrow> withinWindow s xs \<and>
     int (length (filter (\<lambda>a. time_UnixMilli (t - swc_Window (sw_cfg s)) < time_UnixMilli a) xs)) < swc_Limit (sw_cfg s)"
  unfolding withinWindow_def by (fastforce simp: append_eq_append_conv2 append_eq_Cons_conv Cons_eq_append_conv)

lemma slidingWindow_Allow_cases:
  assumes laws: "redis_call_law R" "redis_decode_law R" and v: "validWindow s" and "key \<noteq> []"
    and "0 \<le> q" "q + 1 < 18446744073709551616" and "slidingWindow_Allow R s None now key (q, r) = (x, st)"
  shows "fst st = q + 1 \<and>
     (snd st = r \<and> x \<noteq> Inr True \<or>
      (\<exists>rep. swBody R s (sw_rkey s key) now (q + 1) r = (rep, snd st) \<and> (x = Inr True \<longrightarrow> rep = RInt 1)))"
proof -
  have neg: "dur_neg (swc_Window (sw_cfg s)) = - swc_Window (sw_cfg s)"
    using v by (intro dur_neg_pos) (auto simp: validWindow_def in_i64_def maxInt64_def second_def)
  have u: "u64 (q + 1) = q + 1" using assms by (simp add: u64_def)
  obtain a p where call: "rd_call R None (swBody R s (sw_rkey s key) now (q + 1)) r = (a, p)" by fastforce
  have "time_Add now (dur_neg (swc_Window (sw_cfg s))) = now - swc_Window (sw_cfg s)"
    by (simp add: time_Add_def neg)
  then have st: "(x, st) = (case a of Inl e \<Rightarrow> (Inl (Wrapf ''ratelimit: redis allow: '' e []), (q + 1, p))
       | Inr rep \<Rightarrow> (case rd_asInt R rep of
            Inl e \<Rightarrow> (Inl (Wrapf ''ratelimit: redis allow: '' e []), (q + 1, p))
          | Inr res \<Rightarrow> (Inr (res = 1), (q + 1, p))))"
    using assms(4,7) call by (simp add: slidingWindow_Allow_def Let_def u swTTL_def split: sum.splits)
  show ?thesis
  proof (cases a)
    case (Inl e)
    with st call_Inl [OF laws(1) call [unfolded Inl]] show ?thesis
      by (cases "swBody R s (sw_rkey s key) now (q + 1) r") auto
  next
    case (Inr rep)
    with call have body: "swBody R s (sw_rkey s key) now (q + 1) r = (rep, p)" by (simp add: call_Inr [OF laws(1)])
    moreover from body obtain i where "rep = RInt i" by (auto simp: slidingWindowScript_def Let_def split: if_splits)
    ultimately show ?thesis using st Inr by (simp add: decode_simps [OF laws(2)])
  qed
qed

lemma slidingWindow_run:
  assumes laws: "redis_call_law R" "redis_decode_law R" "redis_zset_law R zs ex" and v: "validWindow s"
    and key: "key \<noteq> []"
  shows "swKnows s zs ex (sw_rkey s key) acc c t (q, r) \<Longrightarrow> 0 \<le> q \<Longrightarrow>
     q + int (length nows) < 18446744073709551616 \<Longrightarrow> sorted nows \<Longrightarrow>
     \<forall>now \<in> set nows. t \<le> time_UnixMilli now \<and> c \<le> time_UnixMilli (now - swc_Window (sw_cfg s)) \<Longrightarrow>
     withinWindow s (map fst acc) \<Longrightarrow>
     withinWindow s (map fst acc @ map snd (limiterRun (slidingWindow_Allow R s) (map (Pair key) nows) (q, r)))"
proof (induction nows arbitrary: acc c t q r)
  case (Cons now nows)
  let ?c = "time_UnixMilli (now - swc_Window (sw_cfg s))" and ?t = "time_UnixMilli now"
  obtain x q' r' where al: "slidingWindow_Allow R s None now key (q, r) = (x, (q', r'))"
    by (metis prod.collapse)
  have know: "swKnows s zs ex (sw_rkey s key) acc ?c ?t (q, r)"
    using swKnows_later [OF laws(3) v Cons.prems(1), of now] Cons.prems(5) by simp
  have later: "\<forall>n \<in> set nows. ?t \<le> time_UnixMilli n \<and> ?c \<le> time_UnixMilli (n - swc_Window (sw_cfg s))"
    using Cons.prems(4) by (auto intro: ms_mono)
  have q': "q' = q + 1" and cs: "r' = r \<and> x \<noteq> Inr True \<or>
      (\<exists>rep. swBody R s (sw_rkey s key) now (q + 1) r = (rep, r') \<and> (x = Inr True \<longrightarrow> rep = RInt 1))"
    using slidingWindow_Allow_cases [OF laws(1,2) v key Cons.prems(2) _ al] Cons.prems(3) by auto
  have IH: "withinWindow s (map fst acc' @ map snd (limiterRun (slidingWindow_Allow R s) (map (Pair key) nows) (q', r')))"
    if "swKnows s zs ex (sw_rkey s key) acc' ?c ?t (q', r')" "withinWindow s (map fst acc')" for acc'
    using Cons.IH [OF that(1)] that(2) Cons.prems(2,3,4) later q' by simp
  show ?case
  proof (cases "x = Inr True")
    case True
    with cs obtain rep where body: "swBody R s (sw_rkey s key) now (q + 1) r = (rep, r')" "rep = RInt 1" by auto
    note step = swBody_step(2) [OF laws(3) v Cons.prems(2) know body]
    have "withinWindow s (map fst (acc @ [(now, q + 1)]))"
      using step Cons.prems(6) by (simp add: withinWindow_snoc filter_map o_def case_prod_unfold)
    with IH [of "acc @ [(now, q + 1)]"] step q' al True show ?thesis by simp
  next
    case False
    have "swKnows s zs ex (sw_rkey s key) acc ?c ?t (q', r')"
    proof (cases "r' = r")
      case True
      with know q' show ?thesis by (fastforce simp: swKnows_def)
    next
      case False
      with cs q' show ?thesis using swBody_step(1) [OF laws(3) v Cons.prems(2) know] by auto
    qed
    with IH [of acc] Cons.prems(6) al False show ?thesis by simp
  qed
qed simp

lemma swKnows_start: "zs t k r = Map.empty \<Longrightarrow> swKnows s zs ex k [] c t (q, r)"
  by (simp add: swKnows_def)

section \<open>A reference bucket library\<close>

text \<open>A token bucket in real arithmetic. It satisfies \<open>rate_law\<close>, so that hypothesis can hold; the witnesses run on
  it.\<close>

record refBucket =
  rb_rate :: real
  rb_burst :: int
  rb_tokens :: real
  rb_last :: "time option"

definition refTokens :: "time \<Rightarrow> refBucket \<Rightarrow> real" where
  "refTokens now l =
     (case rb_last l of
        None \<Rightarrow> rb_tokens l
      | Some u \<Rightarrow> min (real_of_int (rb_burst l)) (rb_tokens l + rb_rate l * (real_of_int (now - u) / 1000000000)))"

definition refRate :: "refBucket rateLib" where
  "refRate =
     \<lparr>rl_NewLimiter = (\<lambda>r b. \<lparr>rb_rate = r, rb_burst = b, rb_tokens = real_of_int b, rb_last = None\<rparr>),
      rl_Allow = (\<lambda>now l. let tok = refTokens now l in
         if 1 \<le> tok then (True, l\<lparr>rb_tokens := tok - 1, rb_last := Some now\<rparr>)
         else (False, l\<lparr>rb_tokens := tok, rb_last := Some now\<rparr>))\<rparr>"

lemma refRate_Allow:
  "rl_Allow refRate now l =
     (1 \<le> refTokens now l,
      l\<lparr>rb_tokens := if 1 \<le> refTokens now l then refTokens now l - 1 else refTokens now l, rb_last := Some now\<rparr>)"
  by (simp add: refRate_def Let_def)

lemma refRate_run:
  "0 < rb_rate l \<Longrightarrow> 0 \<le> rb_tokens l \<Longrightarrow> 0 < rb_burst l \<Longrightarrow> rb_last l = Some u \<Longrightarrow> sorted (u # nows) \<Longrightarrow>
     real (length (bucketRun refRate nows l)) \<le>
       rb_tokens l + rb_rate l * (real_of_int (last (u # nows) - u) / 1000000000)"
proof (induction nows arbitrary: l u)
  case (Cons now nows)
  let ?tok = "refTokens now l"
  have nn: "0 \<le> rb_rate l * (real_of_int (now - u) / 1000000000)" using Cons.prems by simp
  then have tok: "0 \<le> ?tok" "?tok \<le> rb_tokens l + rb_rate l * (real_of_int (now - u) / 1000000000)"
    using Cons.prems by (simp_all add: refTokens_def)
  have split: "rb_rate l * (real_of_int (last (now # nows) - u) / 1000000000) =
      rb_rate l * (real_of_int (now - u) / 1000000000) + rb_rate l * (real_of_int (last (now # nows) - now) / 1000000000)"
    by (simp add: field_simps)
  let ?l = "snd (rl_Allow refRate now l)"
  have "real (length (bucketRun refRate nows ?l)) \<le>
      rb_tokens ?l + rb_rate l * (real_of_int (last (now # nows) - now) / 1000000000)"
    using Cons.IH [of ?l now] Cons.prems tok(1) by (simp add: refRate_Allow)
  moreover have "length (bucketRun refRate (now # nows) l) =
      (if 1 \<le> ?tok then 1 else 0) + length (bucketRun refRate nows ?l)"
    by (simp add: refRate_Allow)
  moreover have "rb_tokens ?l = ?tok - (if 1 \<le> ?tok then 1 else 0)" by (simp add: refRate_Allow)
  moreover have "last (u # now # nows) = last (now # nows)" by simp
  ultimately show ?case using tok(2) split by (simp only: of_nat_add) (simp split: if_splits)
qed simp

lemma refRate_law [simp]: "rate_law refRate"
  unfolding rate_law_def
proof (intro allI impI)
  fix r :: real and b :: int and t :: time and nows :: "time list"
  assume a: "0 < r" "0 < b" "sorted (t # nows)"
  then have "real (length (bucketRun refRate nows \<lparr>rb_rate = r, rb_burst = b, rb_tokens = real_of_int b - 1, rb_last = Some t\<rparr>))
      \<le> real_of_int b - 1 + r * (real_of_int (last (t # nows) - t) / 1000000000)"
    using refRate_run [of "\<lparr>rb_rate = r, rb_burst = b, rb_tokens = real_of_int b - 1, rb_last = Some t\<rparr>" t nows] by simp
  with a show "real (length (bucketRun refRate (t # nows) (rl_NewLimiter refRate r b)))
      \<le> real_of_int b + r * (real_of_int (last (t # nows) - t) / 1000000000)"
    by (simp add: refRate_def refTokens_def Let_def)
qed

section \<open>Guarantees\<close>



text \<open>C8: Of a key's calls to a Redis sliding window, each one let through has fewer than the limit of earlier ones
  let through inside its window, also when Redis calls fail, as long as the sequence number does not wrap.\<close>

theorem slidingWindow_bound:
  assumes "redis_call_law R" "redis_decode_law R" "redis_zset_law R zs ex"
    and "NewRedisSlidingWindow client p cfg = Inr s" "swc_Window cfg \<le> maxInt64 - second"
    and "key \<noteq> []" "zs (time_UnixMilli now) (sw_rkey s key) r = Map.empty"
    and "0 \<le> q" "q + int (length (now # nows)) < 18446744073709551616" "sorted (now # nows)"
  shows "withinWindow s (map snd (limiterRun (slidingWindow_Allow R s) (map (Pair key) (now # nows)) (q, r)))"
proof -
  have v: "validWindow s"
    using assms(4,5) by (auto simp: NewRedisSlidingWindow_def SlidingWindowConfig_validate_def validWindow_def
        split: if_splits option.splits)
  have "\<forall>n \<in> set (now # nows). time_UnixMilli now \<le> time_UnixMilli n \<and>
      time_UnixMilli (now - swc_Window (sw_cfg s)) \<le> time_UnixMilli (n - swc_Window (sw_cfg s))"
    using assms(10) by (auto intro: ms_mono)
  then show ?thesis
    using slidingWindow_run [OF assms(1,2,3) v assms(6), of "[]" "time_UnixMilli (now - swc_Window (sw_cfg s))"
        "time_UnixMilli now" q r "now # nows"] swKnows_start [of zs "time_UnixMilli now" "sw_rkey s key" r] assms(7-10)
    by (simp add: withinWindow_def)
qed

theorem slidingWindow_bound_witness:
  "withinWindow \<lparr>sw_prefix = ''p'', sw_cfg = \<lparr>swc_Limit = 1, swc_Window = second\<rparr>\<rparr>
     (map snd (limiterRun (slidingWindow_Allow refRedis \<lparr>sw_prefix = ''p'', sw_cfg = \<lparr>swc_Limit = 1, swc_Window = second\<rparr>\<rparr>)
        (map (Pair ''a'') [5, 6]) (0, refEmpty)))"
  by (rule slidingWindow_bound [OF refRedis_call_law refRedis_decode_law refRedis_zset_law, of True "''p''" "\<lparr>swc_Limit = 1, swc_Window = second\<rparr>"])
    (simp_all add: NewRedisSlidingWindow_def SlidingWindowConfig_validate_def second_def maxInt64_def ref_zs_def
      ref_entries_def refEmpty_def)

end
