(* ===== verification/Idempotency.thy ===== *)
theory Idempotency
  imports Redis_Ref
begin

text \<open>
  Package \<^verbatim>\<open>idempotency\<close>: the store interface, the in-memory store (\<^verbatim>\<open>memory.go\<close>), the Redis store with
  its two Lua scripts (\<^verbatim>\<open>redis.go\<close>) and the manager (\<^verbatim>\<open>idempotency.go\<close>). The locale
  \<open>idempotency_store\<close> is the contract a store gives the manager and the guard; the in-memory store
  is its interpretation and the Redis store satisfies it under the laws of Redis.
\<close>

section \<open>Sentinels, results and the interface\<close>

definition idempotency_ErrKeyRequired :: go_error where
  "idempotency_ErrKeyRequired = Sentinel ''idempotency: key is required''"

definition ErrInFlight :: go_error where
  "ErrInFlight = Sentinel ''idempotency: request already in flight''"

text \<open>A nil \<^verbatim>\<open>[]byte\<close> and an empty one are not distinguished by the code, which only asks for the length.\<close>

record ClaimResult =
  Process :: bool
  Cached :: bytes
  InFlight :: bool

definition zeroClaim :: ClaimResult where
  "zeroClaim = \<lparr>Process = False, Cached = [], InFlight = False\<rparr>"

record 'w idemStore =
  store_Claim :: "ctx \<Rightarrow> time \<Rightarrow> string \<Rightarrow> duration \<Rightarrow> 'w \<Rightarrow> (go_error + ClaimResult) \<times> 'w"
  store_Complete :: "ctx \<Rightarrow> time \<Rightarrow> string \<Rightarrow> bytes \<Rightarrow> duration \<Rightarrow> 'w \<Rightarrow> go_error option \<times> 'w"

section \<open>The in-memory store\<close>

record memoryEntry =
  me_inFlight :: bool
  me_value :: bytes
  me_expiresAt :: time

record idemMemory =
  entries :: "string \<rightharpoonup> memoryEntry"

definition idempotency_NewMemoryStore :: idemMemory where
  "idempotency_NewMemoryStore = \<lparr>entries = Map.empty\<rparr>"

definition idem_memory_Claim :: "ctx \<Rightarrow> time \<Rightarrow> string \<Rightarrow> duration \<Rightarrow> idemMemory \<Rightarrow>
    (go_error + ClaimResult) \<times> idemMemory" where
  "idem_memory_Claim c now key ttl s =
     (if key = [] then (Inl idempotency_ErrKeyRequired, s)
      else
        let expired = (case entries s key of Some e \<Rightarrow> time_After now (me_expiresAt e) | None \<Rightarrow> False);
            s1 = (if expired then s\<lparr>entries := (entries s)(key := None)\<rparr> else s)
        in case entries s1 key of
             Some e \<Rightarrow>
               if me_value e \<noteq> [] then (Inr (zeroClaim\<lparr>Cached := me_value e\<rparr>), s1)
               else if me_inFlight e then (Inr (zeroClaim\<lparr>InFlight := True\<rparr>), s1)
               else (Inr (zeroClaim\<lparr>Process := True\<rparr>),
                     s1\<lparr>entries := (entries s1)(key \<mapsto>
                       \<lparr>me_inFlight = True, me_value = [], me_expiresAt = time_Add now ttl\<rparr>)\<rparr>)
           | None \<Rightarrow> (Inr (zeroClaim\<lparr>Process := True\<rparr>),
                     s1\<lparr>entries := (entries s1)(key \<mapsto>
                       \<lparr>me_inFlight = True, me_value = [], me_expiresAt = time_Add now ttl\<rparr>)\<rparr>))"

definition idem_memory_Complete :: "ctx \<Rightarrow> time \<Rightarrow> string \<Rightarrow> bytes \<Rightarrow> duration \<Rightarrow> idemMemory \<Rightarrow>
    go_error option \<times> idemMemory" where
  "idem_memory_Complete c now key response ttl s =
     (None, s\<lparr>entries := (entries s)(key \<mapsto>
        \<lparr>me_inFlight = False, me_value = response, me_expiresAt = time_Add now ttl\<rparr>)\<rparr>)"

definition idem_memory_Store :: "idemMemory idemStore" where
  "idem_memory_Store = \<lparr>store_Claim = idem_memory_Claim, store_Complete = idem_memory_Complete\<rparr>"

section \<open>The Redis store\<close>

record idemRedis =
  ir_prefix :: string

definition idempotency_NewRedisStore :: "string \<Rightarrow> idemRedis" where
  "idempotency_NewRedisStore keyPrefix =
     \<lparr>ir_prefix = (if keyPrefix = [] then ''floodguard:idempotency'' else keyPrefix)\<rparr>"

definition inflightKey :: "idemRedis \<Rightarrow> string \<Rightarrow> string" where
  "inflightKey s key = ir_prefix s @ '':inflight:'' @ key"

definition resultKey :: "idemRedis \<Rightarrow> string \<Rightarrow> string" where
  "resultKey s key = ir_prefix s @ '':result:'' @ key"

text \<open>The Lua scripts, on the server whose clock reads \<open>t\<close>. In Lua an empty string is true, so a cached
  empty body is a hit.\<close>

definition claimScript :: "'r redis \<Rightarrow> int \<Rightarrow> string \<Rightarrow> string \<Rightarrow> int \<Rightarrow> 'r rcmd" where
  "claimScript R t inflight result ttl_ms r =
     (case rd_GET R t result r of
        Some cached \<Rightarrow> (RArr [RInt 1, RBulk cached], r)
      | None \<Rightarrow>
          (case rd_SETNXPX R t inflight ''1'' ttl_ms r of
             (claimed, r') \<Rightarrow> if claimed then (RArr [RInt 0, RBulk []], r') else (RArr [RInt 2, RBulk []], r')))"

definition doneScript :: "'r redis \<Rightarrow> int \<Rightarrow> string \<Rightarrow> string \<Rightarrow> int \<Rightarrow> bytes \<Rightarrow> 'r rcmd" where
  "doneScript R t inflight result ttl_ms body r =
     (RInt 1, snd (rd_DEL R t inflight (rd_SETPX R t result body ttl_ms r)))"

text \<open>\<^verbatim>\<open>redisInt\<close> and the type switch on the cached value, over the dynamic types go-redis delivers. Reading past
  the end of the reply would panic; \<open>indexOutOfRange\<close> stands for it.\<close>

definition indexOutOfRange :: go_error where
  "indexOutOfRange = Errorf ''runtime error: index out of range''"

definition redisInt :: "reply \<Rightarrow> go_error + int" where
  "redisInt v = (case v of RInt n \<Rightarrow> Inr n | _ \<Rightarrow> Inl (Errorf ''idempotency: expected integer status, got type''))"

definition idem_redis_Claim :: "'r redis \<Rightarrow> idemRedis \<Rightarrow> ctx \<Rightarrow> time \<Rightarrow> string \<Rightarrow> duration \<Rightarrow> 'r \<Rightarrow>
    (go_error + ClaimResult) \<times> 'r" where
  "idem_redis_Claim R s c now key ttl r =
     (if key = [] then (Inl idempotency_ErrKeyRequired, r)
      else
        (case rd_call R c (claimScript R (time_UnixMilli now) (inflightKey s key) (resultKey s key)
                (dur_Milliseconds ttl)) r of
           (Inl e, r') \<Rightarrow> (Inl (Wrapf ''idempotency: redis claim: '' e []), r')
         | (Inr rep, r') \<Rightarrow>
             (case rd_asSlice R rep of
                Inl e \<Rightarrow> (Inl (Wrapf ''idempotency: redis claim: '' e []), r')
              | Inr [] \<Rightarrow> (Inl indexOutOfRange, r')
              | Inr (status # rest) \<Rightarrow>
                  (case redisInt status of
                     Inl e \<Rightarrow> (Inl e, r')
                   | Inr n \<Rightarrow>
                       (if n = 0 then (Inr (zeroClaim\<lparr>Process := True\<rparr>), r')
                        else if n = 1 then
                          (case rest of
                             RBulk v # _ \<Rightarrow> (Inr (zeroClaim\<lparr>Cached := v\<rparr>), r')
                           | [] \<Rightarrow> (Inl indexOutOfRange, r')
                           | _ \<Rightarrow> (Inl (Errorf ''idempotency: unexpected cached type''), r'))
                        else if n = 2 then (Inr (zeroClaim\<lparr>InFlight := True\<rparr>), r')
                        else (Inl (Errorf (''idempotency: unexpected claim status '' @ FormatInt n)), r'))))))"

definition idem_redis_Complete :: "'r redis \<Rightarrow> idemRedis \<Rightarrow> ctx \<Rightarrow> time \<Rightarrow> string \<Rightarrow> bytes \<Rightarrow> duration \<Rightarrow> 'r \<Rightarrow>
    go_error option \<times> 'r" where
  "idem_redis_Complete R s c now key response ttl r =
     (case rd_call R c (doneScript R (time_UnixMilli now) (inflightKey s key) (resultKey s key)
             (dur_Milliseconds ttl) response) r of
        (Inl e, r') \<Rightarrow> (Some (Wrapf ''idempotency: redis complete: '' e []), r')
      | (Inr _, r') \<Rightarrow> (None, r'))"

definition idem_redis_Store :: "'r redis \<Rightarrow> idemRedis \<Rightarrow> 'r idemStore" where
  "idem_redis_Store R s = \<lparr>store_Claim = idem_redis_Claim R s, store_Complete = idem_redis_Complete R s\<rparr>"

section \<open>The manager\<close>

record 'w idemManager =
  im_store :: "'w idemStore"
  im_ttl :: duration

text \<open>\<^verbatim>\<open>New(cfg)\<close>: \<open>None\<close> is the nil store, for which the caller's fresh in-memory store \<open>dflt\<close> is used.\<close>

definition idempotency_New :: "'w idemStore \<Rightarrow> 'w idemStore option \<Rightarrow> duration \<Rightarrow> 'w idemManager" where
  "idempotency_New dflt cfgStore cfgTTL =
     \<lparr>im_store = (case cfgStore of None \<Rightarrow> dflt | Some s \<Rightarrow> s),
      im_ttl = (if cfgTTL \<le> 0 then 24 * hour else cfgTTL)\<rparr>"

definition Begin :: "'w idemManager \<Rightarrow> ctx \<Rightarrow> time \<Rightarrow> string \<Rightarrow> 'w \<Rightarrow> (go_error + bool \<times> bytes) \<times> 'w" where
  "Begin m c now key w =
     (if key = [] then (Inl idempotency_ErrKeyRequired, w)
      else
        (case store_Claim (im_store m) c now key (im_ttl m) w of
           (Inl e, w') \<Rightarrow> (Inl (Wrapf ''idempotency: claim: '' e []), w')
         | (Inr result, w') \<Rightarrow>
             (if Cached result \<noteq> [] then (Inr (False, Cached result), w')
              else if InFlight result then (Inl ErrInFlight, w')
              else (Inr (Process result, []), w'))))"

definition idempotency_Complete :: "'w idemManager \<Rightarrow> ctx \<Rightarrow> time \<Rightarrow> string \<Rightarrow> bytes \<Rightarrow> 'w \<Rightarrow> go_error option \<times> 'w" where
  "idempotency_Complete m c now key response w =
     (if key = [] then (Some idempotency_ErrKeyRequired, w)
      else
        (case store_Complete (im_store m) c now key response (im_ttl m) w of
           (Some e, w') \<Rightarrow> (Some (Wrapf ''idempotency: complete: '' e []), w')
         | (None, w') \<Rightarrow> (None, w')))"

section \<open>The contract of a store\<close>

text \<open>What a key stands for at a clock reading: free, claimed by a request still running, or done.\<close>

datatype slot = Vacant | Claimed | Done bytes

fun claimReply :: "slot \<Rightarrow> ClaimResult" where
  "claimReply Vacant = zeroClaim\<lparr>Process := True\<rparr>"
| "claimReply Claimed = zeroClaim\<lparr>InFlight := True\<rparr>"
| "claimReply (Done b) = zeroClaim\<lparr>Cached := b\<rparr>"

text \<open>
  \<open>slot t k w\<close> is the state of key \<open>k\<close> that a claim at clock \<open>t\<close> would find. \<open>slack\<close> bounds how much
  earlier than its TTL a key may lapse (Redis keeps milliseconds), and the laws ask for a TTL of at
  least \<open>minTTL\<close>. A call that fails may still have happened, but it never frees a key.
\<close>

locale idempotency_store =
  fixes S :: "'w idemStore"
    and slot :: "time \<Rightarrow> string \<Rightarrow> 'w \<Rightarrow> slot"
    and slack :: duration
    and minTTL :: duration
  assumes claim_reply:
      "store_Claim S c now key d w = (Inr res, w') \<Longrightarrow> key \<noteq> [] \<Longrightarrow> res = claimReply (slot now key w)"
    and claim_granted:
      "store_Claim S c now key d w = (Inr res, w') \<Longrightarrow> key \<noteq> [] \<Longrightarrow> slot now key w = Vacant \<Longrightarrow>
       minTTL \<le> d \<Longrightarrow> now \<le> t \<Longrightarrow> t + slack < now + d \<Longrightarrow> slot t key w' = Claimed"
    and claim_held:
      "store_Claim S c now key d w = (x, w') \<Longrightarrow> minTTL \<le> d \<Longrightarrow> now \<le> t \<Longrightarrow>
       slot t k w \<noteq> Vacant \<Longrightarrow> slot t k w' = slot t k w"
    and claim_frame:
      "store_Claim S c now key d w = (x, w') \<Longrightarrow> minTTL \<le> d \<Longrightarrow> now \<le> t \<Longrightarrow> k \<noteq> key \<Longrightarrow>
       slot t k w' = slot t k w"
    and complete_stored:
      "store_Complete S c now key b d w = (None, w') \<Longrightarrow> b \<noteq> [] \<Longrightarrow> minTTL \<le> d \<Longrightarrow>
       now \<le> t \<Longrightarrow> t + slack < now + d \<Longrightarrow> slot t key w' = Done b"
    and complete_failed:
      "store_Complete S c now key b d w = (Some e, w') \<Longrightarrow> b \<noteq> [] \<Longrightarrow> minTTL \<le> d \<Longrightarrow>
       now \<le> t \<Longrightarrow> t + slack < now + d \<Longrightarrow> slot t key w \<noteq> Vacant \<Longrightarrow> slot t key w' \<noteq> Vacant"
    and complete_frame:
      "store_Complete S c now key b d w = (y, w') \<Longrightarrow> minTTL \<le> d \<Longrightarrow> now \<le> t \<Longrightarrow> k \<noteq> key \<Longrightarrow>
       slot t k w' = slot t k w"

section \<open>Both stores keep the contract\<close>

definition memorySlot :: "time \<Rightarrow> string \<Rightarrow> idemMemory \<Rightarrow> slot" where
  "memorySlot t k s =
     (case entries s k of
        None \<Rightarrow> Vacant
      | Some e \<Rightarrow>
          if me_expiresAt e < t then Vacant
          else if me_value e \<noteq> [] then Done (me_value e)
          else if me_inFlight e then Claimed else Vacant)"

lemmas idem_memory_simps [store_simps] =
  idem_memory_Store_def idem_memory_Claim_def idem_memory_Complete_def memorySlot_def Let_def
  time_Add_def time_After_def

interpretation mem_idem: idempotency_store idem_memory_Store memorySlot 0 minTTL for minTTL
  by unfold_locales (auto simp: idem_memory_simps zeroClaim_def split: if_splits option.splits)

definition redisSlot :: "'r redis \<Rightarrow> idemRedis \<Rightarrow> time \<Rightarrow> string \<Rightarrow> 'r \<Rightarrow> slot" where
  "redisSlot R s t k r =
     (case rd_GET R (time_UnixMilli t) (resultKey s k) r of
        Some b \<Rightarrow> Done b
      | None \<Rightarrow> if rd_GET R (time_UnixMilli t) (inflightKey s k) r = None then Vacant else Claimed)"

lemma idem_keys [simp]:
  "inflightKey s k \<noteq> resultKey s k'" "resultKey s k' \<noteq> inflightKey s k"
  "inflightKey s k = inflightKey s k' \<longleftrightarrow> k = k'" "resultKey s k = resultKey s k' \<longleftrightarrow> k = k'"
  by (simp_all add: inflightKey_def resultKey_def)

abbreviation claimBody :: "'r redis \<Rightarrow> idemRedis \<Rightarrow> time \<Rightarrow> string \<Rightarrow> duration \<Rightarrow> 'r rcmd" where
  "claimBody R s now key d \<equiv>
     claimScript R (time_UnixMilli now) (inflightKey s key) (resultKey s key) (dur_Milliseconds d)"

abbreviation doneBody :: "'r redis \<Rightarrow> idemRedis \<Rightarrow> time \<Rightarrow> string \<Rightarrow> bytes \<Rightarrow> duration \<Rightarrow> 'r rcmd" where
  "doneBody R s now key b d \<equiv>
     doneScript R (time_UnixMilli now) (inflightKey s key) (resultKey s key) (dur_Milliseconds d) b"

lemma redis_Claim_state:
  assumes "redis_call_law R" and "idem_redis_Claim R s c now key d r = (x, r')"
  shows "r' = r \<or> r' = snd (claimBody R s now key d r)"
proof (cases "key = []")
  case True
  with assms(2) show ?thesis by (simp add: idem_redis_Claim_def)
next
  case False
  obtain v q where call: "rd_call R c (claimBody R s now key d) r = (v, q)" by fastforce
  with assms(2) False have "r' = q"
    by (auto simp: idem_redis_Claim_def split: sum.splits list.splits reply.splits if_splits)
  moreover from call have "q = r \<or> q = snd (claimBody R s now key d r)"
    using call_Inl [OF assms(1)] call_Inr [OF assms(1)] by (cases v) (auto, fastforce)
  ultimately show ?thesis by simp
qed

lemma redis_Claim_reply:
  assumes laws: "redis_call_law R" "redis_decode_law R" "redis_string_law R"
    and claim: "idem_redis_Claim R s c now key d r = (Inr res, r')" and "key \<noteq> []"
  shows "res = claimReply (redisSlot R s now key r) \<and> r' = snd (claimBody R s now key d r)"
proof -
  obtain v q where call: "rd_call R c (claimBody R s now key d) r = (v, q)" by fastforce
  with claim \<open>key \<noteq> []\<close> obtain rep where v: "v = Inr rep"
    by (cases v) (auto simp: idem_redis_Claim_def)
  with call have "claimBody R s now key d r = (rep, q)"
    using call_Inr [OF laws(1)] by simp
  with claim call v \<open>key \<noteq> []\<close> show ?thesis
    by (auto simp: idem_redis_Claim_def claimScript_def redisSlot_def redisInt_def zeroClaim_def
        string_simps(3) [OF laws(3)] decode_simps [OF laws(2)] split: option.splits if_splits)
qed

lemma redis_Complete_state:
  assumes "redis_call_law R" and "idem_redis_Complete R s c now key b d r = (y, r')"
  shows "y = None \<and> r' = snd (doneBody R s now key b d r) \<or>
         y \<noteq> None \<and> (r' = r \<or> r' = snd (doneBody R s now key b d r))"
proof -
  obtain v q where "rd_call R c (doneBody R s now key b d) r = (v, q)" by fastforce
  then show ?thesis
    using assms(2) call_Inl [OF assms(1)] call_Inr [OF assms(1)]
    by (cases v) (auto simp: idem_redis_Complete_def, fastforce+)
qed

lemma claimBody_slot:
  assumes law: "redis_string_law R" and "1000000 \<le> d" and "now \<le> t"
  shows "redisSlot R s t k (snd (claimBody R s now key d r)) =
     (if k = key \<and> redisSlot R s now key r = Vacant
      then if time_UnixMilli t < time_UnixMilli now + dur_Milliseconds d then Claimed else Vacant
      else redisSlot R s t k r)"
proof -
  have px: "0 < dur_Milliseconds d" using assms(2) by (simp add: dur_Milliseconds_pos)
  have none: "rd_GET R (time_UnixMilli now) j r = None \<Longrightarrow> rd_GET R (time_UnixMilli t) j r = None" for j
    using law ms_mono [OF assms(3)] unfolding redis_string_law_def by blast
  show ?thesis
    using none [of "resultKey s key"] none [of "inflightKey s key"]
    by (auto simp: redisSlot_def claimScript_def string_simps(3) [OF law]
        string_simps(1) [OF law px ms_mono [OF assms(3)]] split: option.splits)
qed

lemma doneBody_slot:
  assumes law: "redis_string_law R" and "1000000 \<le> d" and "now \<le> t"
  shows "redisSlot R s t k (snd (doneBody R s now key b d r)) =
     (if k = key then if time_UnixMilli t < time_UnixMilli now + dur_Milliseconds d then Done b else Vacant
      else redisSlot R s t k r)"
proof -
  have px: "0 < dur_Milliseconds d" using assms(2) by (simp add: dur_Milliseconds_pos)
  show ?thesis
    by (auto simp: redisSlot_def doneScript_def string_simps(4) [OF law ms_mono [OF assms(3)]]
        string_simps(1) [OF law px ms_mono [OF assms(3)]] split: option.splits)
qed

lemma redis_Complete_slot:
  assumes laws: "redis_call_law R" "redis_decode_law R" "redis_string_law R"
    and call: "idem_redis_Complete R s c now key b d w = (y, w')"
    and d: "millisecond \<le> d" and le: "now \<le> t"
  shows "k \<noteq> key \<Longrightarrow> redisSlot R s t k w' = redisSlot R s t k w"
    and "t + 2 * millisecond < now + d \<Longrightarrow>
      redisSlot R s t key w' = Done b \<or> y \<noteq> None \<and> redisSlot R s t key w' = redisSlot R s t key w"
proof -
  note st = redis_Complete_state [OF laws(1) call]
  note body = doneBody_slot [OF laws(3) d [unfolded millisecond_def] le, of s _ key b w]
  show "redisSlot R s t k w' = redisSlot R s t k w" if "k \<noteq> key"
    using st body [of k] that by auto
  assume "t + 2 * millisecond < now + d"
  then have live: "redisSlot R s t key (snd (doneBody R s now key b d w)) = Done b"
    using body [of key] ms_live [of d t now] d by (simp add: millisecond_def)
  then show "redisSlot R s t key w' = Done b \<or> y \<noteq> None \<and> redisSlot R s t key w' = redisSlot R s t key w"
    using st by auto
qed

theorem redis_idempotency_store:
  assumes laws: "redis_call_law R" "redis_decode_law R" "redis_string_law R"
  shows "idempotency_store (idem_redis_Store R s) (redisSlot R s) (2 * millisecond) millisecond"
proof
  fix c now key d w x w' t k
  assume call: "store_Claim (idem_redis_Store R s) c now key d w = (x, w')"
    and d: "millisecond \<le> d" and le: "now \<le> t"
  note st = redis_Claim_state [OF laws(1) call [unfolded idem_redis_Store_def, simplified]]
  have body: "redisSlot R s t j (snd (claimBody R s now key d w)) =
     (if j = key \<and> redisSlot R s now key w = Vacant
      then if time_UnixMilli t < time_UnixMilli now + dur_Milliseconds d then Claimed else Vacant
      else redisSlot R s t j w)" for j
    using claimBody_slot [OF laws(3) _ le] d by (simp add: millisecond_def)
  show "redisSlot R s t k w' = redisSlot R s t k w" if "k \<noteq> key"
    using st body [of k] that by auto
  show "redisSlot R s t k w' = redisSlot R s t k w" if held: "redisSlot R s t k w \<noteq> Vacant"
  proof -
    have none: "rd_GET R (time_UnixMilli now) j w = None \<Longrightarrow> rd_GET R (time_UnixMilli t) j w = None" for j
      using laws(3) ms_mono [OF le] unfolding redis_string_law_def by blast
    have "redisSlot R s now k w \<noteq> Vacant"
      using held none [of "resultKey s k"] none [of "inflightKey s k"]
      by (cases "rd_GET R (time_UnixMilli now) (inflightKey s k) w")
        (auto simp: redisSlot_def split: option.splits if_splits)
    then show ?thesis using st body [of k] by auto
  qed
next
  fix c now key d w res w'
  assume call: "store_Claim (idem_redis_Store R s) c now key d w = (Inr res, w')" and "key \<noteq> []"
  note re = redis_Claim_reply [OF laws call [unfolded idem_redis_Store_def, simplified] \<open>key \<noteq> []\<close>]
  show "res = claimReply (redisSlot R s now key w)" using re by simp
  fix t
  assume "redisSlot R s now key w = Vacant" and "millisecond \<le> d" and "now \<le> t"
    and "t + 2 * millisecond < now + d"
  then show "redisSlot R s t key w' = Claimed"
    using re claimBody_slot [OF laws(3), of d now t s key key w] ms_live [of d t now]
    by (simp add: millisecond_def)
next
  fix c now key b d w y w' t k
  assume "store_Complete (idem_redis_Store R s) c now key b d w = (y, w')"
    and "millisecond \<le> d" "now \<le> t" "k \<noteq> key"
  with redis_Complete_slot(1) [OF laws, of s c now key b d w y w' t k]
  show "redisSlot R s t k w' = redisSlot R s t k w" by (auto simp: idem_redis_Store_def)
next
  fix c now key b d w w' t
  assume "store_Complete (idem_redis_Store R s) c now key b d w = (None, w')" "millisecond \<le> d" "now \<le> t"
    and "t + 2 * millisecond < now + d"
  with redis_Complete_slot(2) [OF laws, of s c now key b d w None w' t]
  show "redisSlot R s t key w' = Done b" by (auto simp: idem_redis_Store_def)
next
  fix c now key b d w e w' t
  assume "store_Complete (idem_redis_Store R s) c now key b d w = (Some e, w')" "millisecond \<le> d"
    and "now \<le> t" "t + 2 * millisecond < now + d" "redisSlot R s t key w \<noteq> Vacant"
  with redis_Complete_slot(2) [OF laws, of s c now key b d w "Some e" w' t]
  show "redisSlot R s t key w' \<noteq> Vacant" by (auto simp: idem_redis_Store_def)
qed

section \<open>What the manager makes of the contract\<close>

text \<open>A run of the manager: requests begin and complete keys at given clock readings.\<close>

datatype idemEvent = EvBegin time string | EvComplete time string bytes

fun eventTime :: "idemEvent \<Rightarrow> time" where
  "eventTime (EvBegin t k) = t"
| "eventTime (EvComplete t k b) = t"

text \<open>The state after an event, and whether the event was a \<^verbatim>\<open>Begin\<close> that told its caller to process the
  request.\<close>

fun idemStep :: "'w idemManager \<Rightarrow> idemEvent \<Rightarrow> 'w \<Rightarrow> bool \<times> 'w" where
  "idemStep m (EvBegin t k) w = (case Begin m None t k w of (x, w') \<Rightarrow> (x = Inr (True, []), w'))"
| "idemStep m (EvComplete t k b) w = (case idempotency_Complete m None t k b w of (y, w') \<Rightarrow> (False, w'))"

fun grants :: "'w idemManager \<Rightarrow> string \<Rightarrow> idemEvent list \<Rightarrow> 'w \<Rightarrow> nat" where
  "grants m key [] w = 0"
| "grants m key (e # es) w =
     (case idemStep m e w of (g, w') \<Rightarrow>
        (if g \<and> (\<exists>t. e = EvBegin t key) then 1 else 0) + grants m key es w')"

fun idemRun :: "'w idemManager \<Rightarrow> idemEvent list \<Rightarrow> 'w \<Rightarrow> 'w" where
  "idemRun m [] w = w"
| "idemRun m (e # es) w = idemRun m es (snd (idemStep m e w))"

fun overwrites :: "string \<Rightarrow> idemEvent \<Rightarrow> bool" where
  "overwrites key (EvBegin t k) = False"
| "overwrites key (EvComplete t k b) = (k = key)"

text \<open>Completions carry a body, as the middleware sees to.\<close>

fun hasBody :: "idemEvent \<Rightarrow> bool" where
  "hasBody (EvComplete t k b) = (b \<noteq> [])"
| "hasBody (EvBegin t k) = True"

context idempotency_store
begin

text \<open>The key is taken at every reading from \<open>now\<close> up to \<open>h\<close>.\<close>

definition heldUntil :: "time \<Rightarrow> time \<Rightarrow> string \<Rightarrow> 'w \<Rightarrow> bool" where
  "heldUntil now h key w \<longleftrightarrow> (\<forall>t. now \<le> t \<longrightarrow> t < h \<longrightarrow> slot t key w \<noteq> Vacant)"

lemma Begin_claimed:
  assumes "im_store m = S" "minTTL \<le> im_ttl m" "Begin m c now key w = (Inr (True, []), w')"
  shows "slot now key w = Vacant \<and> (\<forall>t. now \<le> t \<longrightarrow> t + slack < now + im_ttl m \<longrightarrow> slot t key w' = Claimed)"
proof -
  from assms obtain res where res: "store_Claim S c now key (im_ttl m) w = (Inr res, w')"
      "key \<noteq> []" "Cached res = []" "\<not> InFlight res" "Process res"
    by (auto simp: Begin_def split: if_splits sum.splits prod.splits)
  with claim_reply [OF res(1,2)] have vac: "slot now key w = Vacant"
    by (cases "slot now key w") (auto simp: zeroClaim_def)
  with claim_granted [OF res(1,2) vac assms(2)] show ?thesis by blast
qed

lemma Begin_Claimed:
  assumes "im_store m = S" "slot now key w = Claimed"
  shows "\<exists>e. fst (Begin m c now key w) = Inl e"
  using assms claim_reply [of c now key "im_ttl m" w]
  by (cases "key = []") (auto simp: Begin_def zeroClaim_def split: sum.splits prod.splits)

lemma Begin_granted:
  assumes "im_store m = S" "minTTL \<le> im_ttl m" "Begin m c now key w = (Inr (True, []), w')"
  shows "slot now key w = Vacant \<and> heldUntil now (now + im_ttl m - slack) key w'"
  using Begin_claimed [OF assms] by (simp add: heldUntil_def)

lemma Begin_not_granted:
  assumes "im_store m = S" "slot now key w \<noteq> Vacant"
  shows "fst (Begin m c now key w) \<noteq> Inr (True, [])"
  using assms claim_reply [of c now key "im_ttl m" w]
  by (cases "slot now key w") (auto simp: Begin_def zeroClaim_def split: sum.splits prod.splits)

lemma Begin_held:
  assumes "im_store m = S" "minTTL \<le> im_ttl m" "Begin m c now key w = (x, w')"
    and "slot t k w \<noteq> Vacant" "now \<le> t"
  shows "slot t k w' = slot t k w"
proof (cases "key = []")
  case True
  with assms(3) show ?thesis by (simp add: Begin_def)
next
  case False
  with assms obtain y where "store_Claim S c now key (im_ttl m) w = (y, w')"
    by (auto simp: Begin_def split: sum.splits prod.splits if_splits)
  with assms claim_held show ?thesis by blast
qed

lemma Complete_held:
  assumes "im_store m = S" "minTTL \<le> im_ttl m" "idempotency_Complete m c now key b w = (y, w')"
    and "slot t k w \<noteq> Vacant" "now \<le> t" "t + slack < now + im_ttl m" "b \<noteq> []"
  shows "slot t k w' \<noteq> Vacant"
proof (cases "key = []")
  case True
  with assms show ?thesis by (simp add: idempotency_Complete_def)
next
  case False
  with assms obtain z where z: "store_Complete S c now key b (im_ttl m) w = (z, w')"
    by (auto simp: idempotency_Complete_def split: option.splits prod.splits)
  show ?thesis
  proof (cases "k = key")
    case True
    with z assms complete_stored [of c now key b "im_ttl m" w w' t]
      complete_failed [of c now key b "im_ttl m" w _ w' t] show ?thesis
      by (cases z) auto
  next
    case False
    with complete_frame [OF z] assms show ?thesis by simp
  qed
qed

lemma idemStep_held:
  assumes m: "im_store m = S" "minTTL \<le> im_ttl m" and "heldUntil now h key w" "now \<le> eventTime e"
    and h: "h + slack \<le> eventTime e + im_ttl m" and "hasBody e" and "idemStep m e w = (g, w')"
  shows "heldUntil (eventTime e) h key w'"
  unfolding heldUntil_def
proof (intro allI impI)
  fix t assume t: "eventTime e \<le> t" "t < h"
  with assms have "slot t key w \<noteq> Vacant" by (auto simp: heldUntil_def)
  then show "slot t key w' \<noteq> Vacant"
    using assms t Begin_held [OF m] Complete_held [OF m] by (cases e) (fastforce split: prod.splits)+
qed

text \<open>While the key is held no \<^verbatim>\<open>Begin\<close> on it is granted, whatever else happens.\<close>

lemma grants_held:
  assumes m: "im_store m = S" "minTTL \<le> im_ttl m"
  shows "heldUntil now h key w \<Longrightarrow> sorted (now # map eventTime es) \<Longrightarrow>
     (\<forall>e \<in> set es. eventTime e < h \<and> hasBody e) \<Longrightarrow> h + slack \<le> now + im_ttl m \<Longrightarrow> grants m key es w = 0"
proof (induction es arbitrary: now w)
  case Nil
  then show ?case by simp
next
  case (Cons e es)
  obtain g w' where step: "idemStep m e w = (g, w')" by fastforce
  have "heldUntil (eventTime e) h key w'"
    using idemStep_held [OF m Cons.prems(1) _ _ _ step] Cons.prems by auto
  then have rest: "grants m key es w' = 0"
    using Cons.prems by (intro Cons.IH [of "eventTime e"]) auto
  have "\<not> (g \<and> e = EvBegin t key)" for t
    using Begin_not_granted [OF m(1), of t key w None] step Cons.prems
    by (auto simp: heldUntil_def split: prod.splits)
  with rest step show ?case by auto
qed

text \<open>Exactly one of the requests that share a key within one TTL is processed.\<close>

lemma one_grant:
  assumes m: "im_store m = S" "minTTL \<le> im_ttl m"
    and g: "Begin m None t0 key w = (Inr (True, []), w')"
    and "sorted (t0 # map eventTime es)"
    and es: "\<forall>e \<in> set es. eventTime e + slack < t0 + im_ttl m \<and> hasBody e"
  shows "grants m key (EvBegin t0 key # es) w = 1"
proof -
  have "heldUntil t0 (t0 + im_ttl m - slack) key w'" using Begin_granted [OF m g] by simp
  then have "grants m key es w' = 0"
    using assms by (intro grants_held [OF m, of t0 "t0 + im_ttl m - slack"]) auto
  with g show ?thesis by simp
qed

text \<open>A completed key answers with its body.\<close>

lemma Begin_replays:
  assumes m: "im_store m = S" "minTTL \<le> im_ttl m"
    and "idempotency_Complete m c now key b w = (None, w')" "b \<noteq> []"
    and "now \<le> t" "t + slack < now + im_ttl m" "Begin m c' t key w' = (x, w'')"
  shows "x = Inr (False, b) \<or> (\<exists>e. x = Inl (Wrapf ''idempotency: claim: '' e []))"
proof -
  from assms have "key \<noteq> []" and "store_Complete S c now key b (im_ttl m) w = (None, w')"
    by (auto simp: idempotency_Complete_def split: if_splits option.splits prod.splits)
  with assms have "slot t key w' = Done b" by (intro complete_stored)
  with assms \<open>key \<noteq> []\<close> claim_reply [of c' t key "im_ttl m" w'] show ?thesis
    by (auto simp: Begin_def zeroClaim_def split: sum.splits prod.splits)
qed

text \<open>However the requests of one TTL are interleaved, at most one of them is told to process the key.\<close>

lemma at_most_one:
  assumes m: "im_store m = S" "minTTL \<le> im_ttl m"
  shows "sorted (map eventTime es) \<Longrightarrow>
     \<forall>e \<in> set es. t0 \<le> eventTime e \<and> eventTime e + slack < t0 + im_ttl m \<and> hasBody e \<Longrightarrow> grants m key es w \<le> 1"
proof (induction es arbitrary: w)
  case (Cons e es)
  obtain g w' where step: "idemStep m e w = (g, w')" by fastforce
  have IH: "grants m key es w' \<le> 1" using Cons by simp
  show ?case
  proof (cases "\<exists>t. g \<and> e = EvBegin t key")
    case True
    with step obtain t where t: "e = EvBegin t key" "Begin m None t key w = (Inr (True, []), w')"
      by (auto split: prod.splits)
    have "heldUntil t (t0 + im_ttl m - slack) key w'"
      using Begin_granted [OF m t(2)] Cons.prems(2) t(1) by (auto simp: heldUntil_def)
    then have "grants m key es w' = 0"
      using Cons.prems t(1) by (intro grants_held [OF m, of t "t0 + im_ttl m - slack"]) auto
    with step show ?thesis by simp
  next
    case False
    with step IH show ?thesis by auto
  qed
qed simp

lemma idemStep_done:
  assumes m: "im_store m = S" "minTTL \<le> im_ttl m" and "slot t key w = Done b" "eventTime e \<le> t"
    and "\<not> overwrites key e"
  shows "slot t key (snd (idemStep m e w)) = Done b"
proof (cases e)
  case (EvBegin t' k)
  obtain x w' where "Begin m None t' k w = (x, w')" by fastforce
  with EvBegin assms Begin_held [OF m, of None t' k w x w' t key] show ?thesis by simp
next
  case (EvComplete t' k b')
  then show ?thesis
    using assms complete_frame [of None t' k b' "im_ttl m" w _ _ t key]
    by (auto simp: idempotency_Complete_def split: prod.splits option.splits)
qed

text \<open>A stored response survives every later request and every completion of another key.\<close>

lemma idemRun_done:
  assumes m: "im_store m = S" "minTTL \<le> im_ttl m"
  shows "slot t key w = Done b \<Longrightarrow> \<forall>e \<in> set es. eventTime e \<le> t \<and> \<not> overwrites key e \<Longrightarrow>
     slot t key (idemRun m es w) = Done b"
  by (induction es arbitrary: w) (auto simp: idemStep_done [OF m])

lemma replay_stable:
  assumes m: "im_store m = S" "minTTL \<le> im_ttl m"
    and "idempotency_Complete m c now key b w = (None, w')" "b \<noteq> []"
    and "now \<le> t" "t + slack < now + im_ttl m" "\<forall>e \<in> set es. eventTime e \<le> t \<and> \<not> overwrites key e"
    and "Begin m c' t key (idemRun m es w') = (x, w'')"
  shows "x = Inr (False, b) \<or> (\<exists>e. x = Inl (Wrapf ''idempotency: claim: '' e []))"
proof -
  from assms have "key \<noteq> []" and "store_Complete S c now key b (im_ttl m) w = (None, w')"
    by (auto simp: idempotency_Complete_def split: if_splits option.splits prod.splits)
  with assms have "slot t key w' = Done b" by (intro complete_stored)
  then have "slot t key (idemRun m es w') = Done b" using assms by (intro idemRun_done [OF m]) auto
  with assms \<open>key \<noteq> []\<close> claim_reply [of c' t key "im_ttl m" "idemRun m es w'"] show ?thesis
    by (auto simp: Begin_def zeroClaim_def split: sum.splits prod.splits)
qed

end

section \<open>Guarantees\<close>



text \<open>C11: The same for the Redis store and every TTL of at least a millisecond, also when calls to Redis fail,
  whether before or after the script ran: two milliseconds short of the TTL at most one request is told to
  process.\<close>

theorem idem_redis_at_most_once:
  assumes "redis_call_law R" "redis_decode_law R" "redis_string_law R"
    and "m = idempotency_New dflt (Some (idem_redis_Store R s)) ttl" "millisecond \<le> im_ttl m"
    and "sorted (map eventTime es)"
    and "\<forall>e \<in> set es. t0 \<le> eventTime e \<and> eventTime e + 2 * millisecond < t0 + im_ttl m \<and> hasBody e"
  shows "grants m key es r \<le> 1"
  using idempotency_store.at_most_one [OF redis_idempotency_store [OF assms(1,2,3), of s],
      where m = m and es = es and ?t0.0 = t0 and key = key and w = r] assms(4-7)
  by (simp add: idempotency_New_def)

theorem idem_redis_at_most_once_witness:
  "grants (idempotency_New (idem_redis_Store refRedis (idempotency_NewRedisStore []))
        (Some (idem_redis_Store refRedis (idempotency_NewRedisStore []))) (3 * second)) ''k''
     [EvBegin 5 ''k'', EvBegin 6 ''k'', EvComplete 8 ''k'' ''ok'', EvBegin 9 ''k''] refEmpty \<le> 1"
  by (rule idem_redis_at_most_once [OF refRedis_call_law refRedis_decode_law refRedis_string_law refl, where ?t0.0 = 0])
    (simp_all add: idempotency_New_def second_def millisecond_def)



text \<open>What \<^verbatim>\<open>Begin\<close> answers over the in-memory store is decided by the state of the key alone: a free or
  expired key is granted, a running one is refused with \<^verbatim>\<open>ErrInFlight\<close>, a finished one is replayed.\<close>

theorem idem_memory_Begin_spec:
  "fst (Begin (idempotency_New idem_memory_Store None ttl) c now key s) =
     (if key = [] then Inl idempotency_ErrKeyRequired
      else case memorySlot now key s of
             Vacant \<Rightarrow> Inr (True, []) | Claimed \<Rightarrow> Inl ErrInFlight | Done b \<Rightarrow> Inr (False, b))"
  by (auto simp: Begin_def idempotency_New_def idem_memory_Store_def idem_memory_Claim_def memorySlot_def
      time_After_def zeroClaim_def Let_def split: option.splits)

text \<open>The two stores part ways on an empty response. After \<^verbatim>\<open>Complete\<close> with no body the in-memory store lets
  the next request process the key again, while the Redis store has it rejected without a response to replay.\<close>

theorem idem_empty_response_diverges:
  assumes "redis_up R" "redis_decode_law R" "redis_string_law R" "key \<noteq> []" "millisecond \<le> ttl"
    and "now \<le> t" "t + 2 * millisecond < now + ttl"
  shows "fst (Begin (idempotency_New idem_memory_Store None ttl) None t key
       (snd (idempotency_Complete (idempotency_New idem_memory_Store None ttl) None now key [] s))) = Inr (True, []) \<and>
     fst (Begin (idempotency_New dflt (Some (idem_redis_Store R p)) ttl) None t key
       (snd (idempotency_Complete (idempotency_New dflt (Some (idem_redis_Store R p)) ttl) None now key [] r)))
     = Inr (False, [])"
proof
  have ttl: "0 < ttl" using assms(5) by (simp add: millisecond_def)
  show "fst (Begin (idempotency_New idem_memory_Store None ttl) None t key
       (snd (idempotency_Complete (idempotency_New idem_memory_Store None ttl) None now key [] s))) = Inr (True, [])"
    using assms(4,6,7) ttl
    by (auto simp: Begin_def idempotency_Complete_def idempotency_New_def idem_memory_Store_def idem_memory_Claim_def
        idem_memory_Complete_def zeroClaim_def Let_def)
  have up: "rd_call R None body q = (Inr (fst (body q)), snd (body q))" for body q
    using assms(1) by (simp add: redis_up_def)
  have px: "0 < dur_Milliseconds ttl" using assms(5) by (simp add: dur_Milliseconds_pos millisecond_def)
  have live: "time_UnixMilli t < time_UnixMilli now + dur_Milliseconds ttl"
    using ms_live assms(5,7) by (simp add: millisecond_def)
  have "rd_GET R (time_UnixMilli t) (resultKey p key)
      (snd (doneBody R p now key [] ttl r)) = Some []"
    using live ms_mono [OF assms(6)] px
    by (simp add: doneScript_def string_simps(1,4) [OF assms(3)])
  then show "fst (Begin (idempotency_New dflt (Some (idem_redis_Store R p)) ttl) None t key
       (snd (idempotency_Complete (idempotency_New dflt (Some (idem_redis_Store R p)) ttl) None now key [] r)))
     = Inr (False, [])"
    using assms(4) ttl
    by (simp add: Begin_def idempotency_Complete_def idempotency_New_def idem_redis_Store_def idem_redis_Claim_def
        idem_redis_Complete_def up claimScript_def decode_simps [OF assms(2)] redisInt_def zeroClaim_def)
qed

theorem idem_empty_response_diverges_witness:
  "fst (Begin (idempotency_New idem_memory_Store None second) None 7 ''k''
       (snd (idempotency_Complete (idempotency_New idem_memory_Store None second) None 5 ''k'' []
          idempotency_NewMemoryStore))) = Inr (True, []) \<and>
   fst (Begin (idempotency_New (idem_redis_Store refRedis (idempotency_NewRedisStore []))
          (Some (idem_redis_Store refRedis (idempotency_NewRedisStore []))) second) None 7 ''k''
       (snd (idempotency_Complete (idempotency_New (idem_redis_Store refRedis (idempotency_NewRedisStore []))
          (Some (idem_redis_Store refRedis (idempotency_NewRedisStore []))) second) None 5 ''k'' [] refEmpty)))
     = Inr (False, [])"
  using idem_empty_response_diverges [OF refRedis_up refRedis_decode_law refRedis_string_law, of "''k''" second 5 7]
  by (simp add: second_def millisecond_def)

end
