(* ===== verification/Lock.thy ===== *)
theory Lock
  imports Redis_Ref
begin

text \<open>
  Package \<^verbatim>\<open>lock\<close>: random tokens (\<^verbatim>\<open>token.go\<close>), the in-memory client (\<^verbatim>\<open>memory.go\<close>), the Redis client
  (\<^verbatim>\<open>redis.go\<close>) and the manager (\<^verbatim>\<open>lock.go\<close>). The locale \<open>lock_provider\<close> is the contract of a client;
  mutual exclusion between the callers of one lock client is proved from it, over every interleaving
  of acquisitions, releases and passing time.
\<close>

section \<open>Sentinels, tokens and the interface\<close>

definition lock_ErrNotAcquired :: go_error where
  "lock_ErrNotAcquired = Sentinel ''lock: not acquired''"

definition lock_ErrKeyRequired :: go_error where
  "lock_ErrKeyRequired = Sentinel ''lock: key is required''"

definition lock_ErrInvalidTTL :: go_error where
  "lock_ErrInvalidTTL = Sentinel ''lock: ttl must be positive''"

definition lock_ErrNilCallback :: go_error where
  "lock_ErrNilCallback = Sentinel ''lock: fn is required''"

text \<open>\<open>rnd\<close> is what \<^verbatim>\<open>rand.Read\<close> gives: an error or the sixteen bytes it fills in.\<close>

definition lock_randomToken :: "go_error + bytes \<Rightarrow> go_error + string" where
  "lock_randomToken rnd = (case rnd of Inl e \<Rightarrow> Inl e | Inr b \<Rightarrow> Inr (EncodeToString b))"

text \<open>A held lock: \<^verbatim>\<open>memoryLock\<close> or \<^verbatim>\<open>redisLock\<close> without the pointer to its store.\<close>

record heldLock =
  hl_key :: string
  hl_token :: string

record 'w lockClient =
  client_Acquire :: "ctx \<Rightarrow> time \<Rightarrow> go_error + bytes \<Rightarrow> string \<Rightarrow> duration \<Rightarrow> 'w \<Rightarrow> (go_error + heldLock) \<times> 'w"
  client_Release :: "heldLock \<Rightarrow> ctx \<Rightarrow> time \<Rightarrow> 'w \<Rightarrow> go_error option \<times> 'w"

section \<open>The in-memory client\<close>

record lockEntry =
  le_token :: string
  le_expiresAt :: time

record lockMemory =
  locks :: "string \<rightharpoonup> lockEntry"

definition lock_NewMemory :: lockMemory where
  "lock_NewMemory = \<lparr>locks = Map.empty\<rparr>"

definition lock_memory_Acquire :: "ctx \<Rightarrow> time \<Rightarrow> go_error + bytes \<Rightarrow> string \<Rightarrow> duration \<Rightarrow> lockMemory \<Rightarrow>
    (go_error + heldLock) \<times> lockMemory" where
  "lock_memory_Acquire c now rnd resourceKey ttl m =
     (if resourceKey = [] then (Inl lock_ErrKeyRequired, m)
      else
        (case lock_randomToken rnd of
           Inl e \<Rightarrow> (Inl e, m)
         | Inr token \<Rightarrow>
             (case locks m resourceKey of
                Some entry \<Rightarrow>
                  if time_Before now (le_expiresAt entry) then (Inl lock_ErrNotAcquired, m)
                  else
                    let m1 = m\<lparr>locks := (locks m)(resourceKey := None)\<rparr> in
                    (Inr \<lparr>hl_key = resourceKey, hl_token = token\<rparr>,
                     m1\<lparr>locks := (locks m1)(resourceKey \<mapsto>
                       \<lparr>le_token = token, le_expiresAt = time_Add now ttl\<rparr>)\<rparr>)
              | None \<Rightarrow>
                  (Inr \<lparr>hl_key = resourceKey, hl_token = token\<rparr>,
                   m\<lparr>locks := (locks m)(resourceKey \<mapsto>
                     \<lparr>le_token = token, le_expiresAt = time_Add now ttl\<rparr>)\<rparr>))))"

definition lock_memory_Release :: "heldLock \<Rightarrow> ctx \<Rightarrow> time \<Rightarrow> lockMemory \<Rightarrow> go_error option \<times> lockMemory" where
  "lock_memory_Release l c now m =
     (case locks m (hl_key l) of
        None \<Rightarrow> (None, m)
      | Some entry \<Rightarrow>
          if le_token entry \<noteq> hl_token l then (None, m)
          else (None, m\<lparr>locks := (locks m)(hl_key l := None)\<rparr>))"

definition lock_memory_Client :: "lockMemory lockClient" where
  "lock_memory_Client = \<lparr>client_Acquire = lock_memory_Acquire, client_Release = lock_memory_Release\<rparr>"

section \<open>The Redis client\<close>

record lockRedis =
  lr_prefix :: string

definition lock_NewRedis :: "string \<Rightarrow> lockRedis" where
  "lock_NewRedis keyPrefix = \<lparr>lr_prefix = (if keyPrefix = [] then ''floodguard:lock'' else keyPrefix)\<rparr>"

definition lock_rkey :: "lockRedis \<Rightarrow> string \<Rightarrow> string" where
  "lock_rkey l key = lr_prefix l @ '':'' @ key"

definition releaseScript :: "'r redis \<Rightarrow> int \<Rightarrow> string \<Rightarrow> string \<Rightarrow> 'r rcmd" where
  "releaseScript R t key token r =
     (if rd_GET R t key r = Some token
      then (case rd_DEL R t key r of (n, r') \<Rightarrow> (RInt n, r'))
      else (RInt 0, r))"

text \<open>The command \<^verbatim>\<open>client.SetNX\<close> sends.\<close>

definition setNXCommand :: "'r redis \<Rightarrow> int \<Rightarrow> string \<Rightarrow> string \<Rightarrow> duration \<Rightarrow> 'r rcmd" where
  "setNXCommand R t key v ttl r =
     (case rd_SETNXPX R t key v (rd_px R ttl) r of (ok, r') \<Rightarrow> (RInt (if ok then 1 else 0), r'))"

definition lock_redis_Acquire :: "'r redis \<Rightarrow> lockRedis \<Rightarrow> ctx \<Rightarrow> time \<Rightarrow> go_error + bytes \<Rightarrow> string \<Rightarrow> duration \<Rightarrow> 'r \<Rightarrow>
    (go_error + heldLock) \<times> 'r" where
  "lock_redis_Acquire R l c now rnd resourceKey ttl r =
     (if resourceKey = [] then (Inl lock_ErrKeyRequired, r)
      else if ttl \<le> 0 then (Inl lock_ErrInvalidTTL, r)
      else
        (case lock_randomToken rnd of
           Inl e \<Rightarrow> (Inl e, r)
         | Inr token \<Rightarrow>
             (case rd_call R c (setNXCommand R (time_UnixMilli now) (lock_rkey l resourceKey) token ttl) r of
                (Inl e, r') \<Rightarrow> (Inl (Wrapf ''lock: redis setnx: '' e []), r')
              | (Inr rep, r') \<Rightarrow>
                  (case rd_asBool R rep of
                     Inl e \<Rightarrow> (Inl (Wrapf ''lock: redis setnx: '' e []), r')
                   | Inr ok \<Rightarrow>
                       if ok then (Inr \<lparr>hl_key = lock_rkey l resourceKey, hl_token = token\<rparr>, r')
                       else (Inl lock_ErrNotAcquired, r')))))"

definition lock_redis_Release :: "'r redis \<Rightarrow> heldLock \<Rightarrow> ctx \<Rightarrow> time \<Rightarrow> 'r \<Rightarrow> go_error option \<times> 'r" where
  "lock_redis_Release R l c now r =
     (case rd_call R c (releaseScript R (time_UnixMilli now) (hl_key l) (hl_token l)) r of
        (Inl e, r') \<Rightarrow> (Some (Wrapf ''lock: redis release: '' e []), r')
      | (Inr _, r') \<Rightarrow> (None, r'))"

definition lock_redis_Client :: "'r redis \<Rightarrow> lockRedis \<Rightarrow> 'r lockClient" where
  "lock_redis_Client R l = \<lparr>client_Acquire = lock_redis_Acquire R l, client_Release = lock_redis_Release R\<rparr>"

section \<open>The manager\<close>

record 'w lockManager =
  lm_client :: "'w lockClient"
  lm_ttl :: duration

definition lock_New :: "'w lockClient \<Rightarrow> 'w lockClient option \<Rightarrow> duration \<Rightarrow> 'w lockManager" where
  "lock_New dflt cfgClient cfgTTL =
     \<lparr>lm_client = (case cfgClient of None \<Rightarrow> dflt | Some c \<Rightarrow> c),
      lm_ttl = (if cfgTTL \<le> 0 then 30 * second else cfgTTL)\<rparr>"

definition lock_Acquire :: "'w lockManager \<Rightarrow> ctx \<Rightarrow> time \<Rightarrow> go_error + bytes \<Rightarrow> string \<Rightarrow> 'w \<Rightarrow>
    (go_error + heldLock) \<times> 'w" where
  "lock_Acquire m c now rnd resourceKey w =
     (case client_Acquire (lm_client m) c now rnd resourceKey (lm_ttl m) w of
        (Inl e, w') \<Rightarrow> (Inl (Wrapf ''lock: acquire: '' e []), w')
      | (Inr l, w') \<Rightarrow> (Inr l, w'))"

text \<open>\<^verbatim>\<open>With\<close>: \<open>fn\<close> is the callback (\<open>None\<close> for nil); the deferred release runs whether it returns or
  panics. \<open>now\<close> and \<open>now'\<close> are the clock readings of the acquisition and of the release.\<close>

definition lock_With :: "'w lockManager \<Rightarrow> ctx \<Rightarrow> time \<Rightarrow> time \<Rightarrow> go_error + bytes \<Rightarrow> string \<Rightarrow>
    (ctx \<Rightarrow> 'w \<Rightarrow> go_error option outcome \<times> 'w) option \<Rightarrow> 'w \<Rightarrow> go_error option outcome \<times> 'w" where
  "lock_With m c now now' rnd key fn w =
     (if key = [] then (Returned (Some lock_ErrKeyRequired), w)
      else
        (case fn of
           None \<Rightarrow> (Returned (Some lock_ErrNilCallback), w)
         | Some f \<Rightarrow>
             (case client_Acquire (lm_client m) c now rnd key (lm_ttl m) w of
                (Inl e, w1) \<Rightarrow> (Returned (Some (Wrapf ''lock: acquire: '' e [])), w1)
              | (Inr l, w1) \<Rightarrow>
                  (case f c w1 of (res, w2) \<Rightarrow>
                     (res, snd (client_Release (lm_client m) l background now' w2))))))"

text \<open>\<^verbatim>\<open>TryAcquire\<close> returns the lock whose \<^verbatim>\<open>Release(context.Background())\<close> is the release function.\<close>

definition lock_TryAcquire :: "'w lockManager \<Rightarrow> ctx \<Rightarrow> time \<Rightarrow> go_error + bytes \<Rightarrow> string \<Rightarrow> 'w \<Rightarrow>
    (go_error + heldLock) \<times> 'w" where
  "lock_TryAcquire m c now rnd key w =
     (if key = [] then (Inl lock_ErrKeyRequired, w)
      else
        (case client_Acquire (lm_client m) c now rnd key (lm_ttl m) w of
           (Inl e, w') \<Rightarrow> (Inl (Wrapf ''lock: acquire: '' e []), w')
         | (Inr l, w') \<Rightarrow> (Inr l, w')))"

definition lock_releaseFn :: "'w lockManager \<Rightarrow> heldLock \<Rightarrow> time \<Rightarrow> 'w \<Rightarrow> go_error option \<times> 'w" where
  "lock_releaseFn m l now w = client_Release (lm_client m) l background now w"

section \<open>The contract of a client\<close>

text \<open>
  \<open>holder t k w\<close> is the token that owns key \<open>k\<close> at clock \<open>t\<close>, if any; \<open>lockName\<close> is the name under which
  the client files a key. A failed acquisition never takes a lock away from its holder, and a release
  takes away only the lock of its own token.
\<close>

locale lock_provider =
  fixes C :: "'w lockClient"
    and holder :: "time \<Rightarrow> string \<Rightarrow> 'w \<Rightarrow> string option"
    and lockName :: "string \<Rightarrow> string"
    and slack :: duration
    and minTTL :: duration
  assumes lockName_inj: "lockName k = lockName k' \<longleftrightarrow> k = k'"
    and acquired:
      "client_Acquire C c now rnd key d w = (Inr h, w') \<Longrightarrow>
       key \<noteq> [] \<and> holder now key w = None \<and> hl_key h = lockName key \<and> lock_randomToken rnd = Inr (hl_token h)"
    and acquired_holds:
      "client_Acquire C c now rnd key d w = (Inr h, w') \<Longrightarrow> minTTL \<le> d \<Longrightarrow> now \<le> t \<Longrightarrow>
       t + slack < now + d \<Longrightarrow> holder t key w' = Some (hl_token h)"
    and acquired_lapses:
      "client_Acquire C c now rnd key d w = (Inr h, w') \<Longrightarrow> minTTL \<le> d \<Longrightarrow> now \<le> t \<Longrightarrow>
       now + d \<le> t \<Longrightarrow> holder t key w' = None"
    and acquired_own:
      "client_Acquire C c now rnd key d w = (Inr h, w') \<Longrightarrow> minTTL \<le> d \<Longrightarrow> now \<le> t \<Longrightarrow>
       holder t key w' = None \<or> holder t key w' = Some (hl_token h)"
    and acquire_keeps:
      "client_Acquire C c now rnd key d w = (x, w') \<Longrightarrow> minTTL \<le> d \<Longrightarrow> now \<le> t \<Longrightarrow>
       holder t k w = Some tok \<Longrightarrow> holder t k w' = Some tok"
    and release_keeps:
      "client_Release C h c now w = (y, w') \<Longrightarrow> now \<le> t \<Longrightarrow> holder t k w = Some tok \<Longrightarrow>
       lockName k \<noteq> hl_key h \<or> tok \<noteq> hl_token h \<Longrightarrow> holder t k w' = Some tok"
    and release_frees:
      "client_Release C h c now w = (None, w') \<Longrightarrow> now \<le> t \<Longrightarrow> lockName k = hl_key h \<Longrightarrow>
       holder t k w = None \<or> holder t k w = Some (hl_token h) \<Longrightarrow> holder t k w' = None"

section \<open>Both clients keep the contract\<close>

definition memoryHolder :: "time \<Rightarrow> string \<Rightarrow> lockMemory \<Rightarrow> string option" where
  "memoryHolder t k m =
     (case locks m k of None \<Rightarrow> None | Some e \<Rightarrow> if t < le_expiresAt e then Some (le_token e) else None)"

lemmas lock_memory_simps [store_simps] =
  lock_memory_Client_def lock_memory_Acquire_def lock_memory_Release_def memoryHolder_def Let_def
  time_Add_def time_Before_def

interpretation mem_lock: lock_provider lock_memory_Client memoryHolder "\<lambda>k. k" 0 minTTL for minTTL
  by unfold_locales (auto simp: lock_memory_simps split: if_splits option.splits sum.splits)

definition redisHolder :: "'r redis \<Rightarrow> lockRedis \<Rightarrow> time \<Rightarrow> string \<Rightarrow> 'r \<Rightarrow> string option" where
  "redisHolder R l t k r = rd_GET R (time_UnixMilli t) (lock_rkey l k) r"

lemma lock_rkey_inj [simp]: "lock_rkey l k = lock_rkey l k' \<longleftrightarrow> k = k'"
  by (simp add: lock_rkey_def)

abbreviation acquireBody :: "'r redis \<Rightarrow> lockRedis \<Rightarrow> time \<Rightarrow> string \<Rightarrow> string \<Rightarrow> duration \<Rightarrow> 'r rcmd" where
  "acquireBody R l now tok key d \<equiv> setNXCommand R (time_UnixMilli now) (lock_rkey l key) tok d"

abbreviation releaseBody :: "'r redis \<Rightarrow> heldLock \<Rightarrow> time \<Rightarrow> 'r rcmd" where
  "releaseBody R h now \<equiv> releaseScript R (time_UnixMilli now) (hl_key h) (hl_token h)"

text \<open>An acquisition leaves the server as it was or ran \<^verbatim>\<open>SET NX\<close> on it, and it returns a lock only when
  the command set the key.\<close>

lemma redis_Acquire_state:
  assumes laws: "redis_call_law R" "redis_decode_law R" "redis_string_law R"
    and acq: "lock_redis_Acquire R l c now rnd key d r = (x, r')"
  shows "r' = r \<and> (\<forall>h. x \<noteq> Inr h) \<or>
     (\<exists>tok. r' = snd (acquireBody R l now tok key d r) \<and>
        (\<forall>h. x = Inr h \<longrightarrow> key \<noteq> [] \<and> redisHolder R l now key r = None \<and>
           h = \<lparr>hl_key = lock_rkey l key, hl_token = tok\<rparr> \<and> lock_randomToken rnd = Inr tok))"
proof -
  consider "r' = r \<and> (\<forall>h. x \<noteq> Inr h)" | tok v where "lock_randomToken rnd = Inr tok" "key \<noteq> []" "0 < d"
      "rd_call R c (acquireBody R l now tok key d) r = (v, r')"
    using acq by (auto simp: lock_redis_Acquire_def split: if_splits sum.splits prod.splits)
  then show ?thesis
  proof cases
    case 1
    then show ?thesis by simp
  next
    case (2 tok v)
    show ?thesis
    proof (cases v)
      case (Inl e)
      with 2 acq have "\<forall>h. x \<noteq> Inr h" by (auto simp: lock_redis_Acquire_def)
      moreover from 2(4) Inl have "r' = r \<or> r' = snd (acquireBody R l now tok key d r)"
        by (simp add: call_Inl [OF laws(1)])
      ultimately show ?thesis by blast
    next
      case (Inr rep)
      with 2 have "acquireBody R l now tok key d r = (rep, r')" by (simp add: call_Inr [OF laws(1)])
      with 2 acq Inr show ?thesis
        by (intro disjI2 exI [of _ tok])
          (auto simp: lock_redis_Acquire_def setNXCommand_def string_simps(3) [OF laws(3)]
            decode_simps [OF laws(2)] redisHolder_def split: if_splits)
    qed
  qed
qed

lemma acquireBody_holder:
  assumes laws: "redis_decode_law R" "redis_string_law R" and "millisecond \<le> d" and "now \<le> t"
  shows "redisHolder R l t k (snd (acquireBody R l now tok key d r)) =
     (if k = key \<and> redisHolder R l now key r = None
      then if time_UnixMilli t < time_UnixMilli now + dur_Milliseconds d then Some tok else None
      else redisHolder R l t k r)"
proof -
  have d: "rd_px R d = dur_Milliseconds d" "0 < rd_px R d"
    using assms(3) decode_simps(4) [OF laws(1)] by (auto simp: dur_Milliseconds_pos millisecond_def)
  show ?thesis
    using d string_simps(1) [OF laws(2) d(2) ms_mono [OF assms(4)]]
    by (auto simp: redisHolder_def setNXCommand_def string_simps(3) [OF laws(2)])
qed

lemma releaseBody_holder:
  assumes law: "redis_string_law R" and le: "now \<le> t"
  shows "redisHolder R l t k (snd (releaseBody R h now r)) =
     (if lock_rkey l k = hl_key h \<and> redisHolder R l now k r = Some (hl_token h) then None
      else redisHolder R l t k r)"
  using string_simps(4) [OF law ms_mono [OF le]]
  by (auto simp: redisHolder_def releaseScript_def split: prod.splits) (metis snd_conv)+

lemma redis_Release_state:
  assumes "redis_call_law R" and "lock_redis_Release R h c now r = (y, r')"
  shows "r' = snd (releaseBody R h now r) \<or> y \<noteq> None \<and> r' = r"
proof -
  obtain v q where "rd_call R c (releaseBody R h now) r = (v, q)" by fastforce
  then show ?thesis
    using assms(2) call_Inl [OF assms(1)] call_Inr [OF assms(1)]
    by (cases v) (auto simp: lock_redis_Release_def, fastforce+)
qed

theorem redis_lock_provider:
  assumes laws: "redis_call_law R" "redis_decode_law R" "redis_string_law R"
  shows "lock_provider (lock_redis_Client R l) (redisHolder R l) (lock_rkey l) (2 * millisecond) millisecond"
proof
  show "lock_rkey l k = lock_rkey l k' \<longleftrightarrow> k = k'" for k k' by simp
next
  fix c now rnd key d w h w'
  assume "client_Acquire (lock_redis_Client R l) c now rnd key d w = (Inr h, w')"
  then have acq: "lock_redis_Acquire R l c now rnd key d w = (Inr h, w')" by (simp add: lock_redis_Client_def)
  from redis_Acquire_state [OF laws acq] obtain tok where h:
      "w' = snd (acquireBody R l now tok key d w)" "key \<noteq> []" "redisHolder R l now key w = None"
      "h = \<lparr>hl_key = lock_rkey l key, hl_token = tok\<rparr>" "lock_randomToken rnd = Inr tok"
    by auto
  then show "key \<noteq> [] \<and> redisHolder R l now key w = None \<and> hl_key h = lock_rkey l key \<and>
      lock_randomToken rnd = Inr (hl_token h)"
    by simp
  fix t assume d: "millisecond \<le> d" "now \<le> t"
  note body = acquireBody_holder [OF laws(2,3) d, of l key key tok w]
  show "redisHolder R l t key w' = Some (hl_token h)" if "t + 2 * millisecond < now + d"
    using h body ms_live [OF _ that] d by (simp add: millisecond_def)
  show "redisHolder R l t key w' = None \<or> redisHolder R l t key w' = Some (hl_token h)"
    using h body by simp
  show "redisHolder R l t key w' = None" if "now + d \<le> t"
    using h body ms_lapsed [OF _ that] d by (simp add: millisecond_def)
next
  fix c now rnd key d w x w' t k tok
  assume "client_Acquire (lock_redis_Client R l) c now rnd key d w = (x, w')" and d: "millisecond \<le> d" "now \<le> t"
    and held: "redisHolder R l t k w = Some tok"
  then have "w' = w \<or> (\<exists>tok'. w' = snd (acquireBody R l now tok' key d w))"
    using redis_Acquire_state [OF laws] by (fastforce simp: lock_redis_Client_def)
  moreover have "redisHolder R l now k w = Some tok"
    using string_GET_antimono [OF laws(3) ms_mono [OF d(2)]] held by (simp add: redisHolder_def)
  ultimately show "redisHolder R l t k w' = Some tok"
    using acquireBody_holder [OF laws(2,3) d] held by auto
next
  fix h c now w y w' t k tok
  assume rel: "client_Release (lock_redis_Client R l) h c now w = (y, w')" and t: "now \<le> t"
    and held: "redisHolder R l t k w = Some tok" and "lock_rkey l k \<noteq> hl_key h \<or> tok \<noteq> hl_token h"
  moreover have "redisHolder R l now k w = Some tok"
    using string_GET_antimono [OF laws(3) ms_mono [OF t]] held by (simp add: redisHolder_def)
  ultimately show "redisHolder R l t k w' = Some tok"
    using redis_Release_state [OF laws(1), of h c now w y w'] releaseBody_holder [OF laws(3) t, of l k h w]
    by (auto simp: lock_redis_Client_def)
next
  fix h c now w w' t k
  assume "client_Release (lock_redis_Client R l) h c now w = (None, w')" and t: "now \<le> t"
    and "lock_rkey l k = hl_key h"
    and held: "redisHolder R l t k w = None \<or> redisHolder R l t k w = Some (hl_token h)"
  moreover have "redisHolder R l t k w = Some (hl_token h) \<Longrightarrow> redisHolder R l now k w = Some (hl_token h)"
    using string_GET_antimono [OF laws(3) ms_mono [OF t]] by (simp add: redisHolder_def)
  ultimately show "redisHolder R l t k w' = None"
    using redis_Release_state [OF laws(1), of h c now w None w'] releaseBody_holder [OF laws(3) t, of l k h w]
    by (auto simp: lock_redis_Client_def)
qed

section \<open>Mutual exclusion\<close>

text \<open>
  Any number of callers share one client. A caller's lease records the key it locked, the lock it got
  and when the lease ends; \<open>ls_used\<close> are the random bytes drawn so far. A step is the clock moving on,
  an acquisition with fresh bytes, or a release.
\<close>

record lease =
  ls_key :: string
  ls_lock :: heldLock
  ls_until :: time

record 'w lockSys =
  ls_now :: time
  ls_world :: 'w
  ls_held :: "nat \<rightharpoonup> lease"
  ls_used :: "bytes set"

inductive lockStep :: "'w lockClient \<Rightarrow> duration \<Rightarrow> 'w lockSys \<Rightarrow> 'w lockSys \<Rightarrow> bool"
  for C :: "'w lockClient" and d :: duration where
  tick: "ls_now s \<le> t \<Longrightarrow> lockStep C d s (s\<lparr>ls_now := t\<rparr>)"
| acquire: "ls_held s i = None \<Longrightarrow> b \<notin> ls_used s \<Longrightarrow>
     client_Acquire C c (ls_now s) (Inr b) key d (ls_world s) = (x, w') \<Longrightarrow>
     lockStep C d s (s\<lparr>ls_world := w', ls_used := insert b (ls_used s),
       ls_held := (case x of
           Inl e \<Rightarrow> ls_held s
         | Inr h \<Rightarrow> (ls_held s)(i \<mapsto> \<lparr>ls_key = key, ls_lock = h, ls_until = ls_now s + d\<rparr>))\<rparr>)"
| release: "ls_held s i = Some l \<Longrightarrow> client_Release C (ls_lock l) c (ls_now s) (ls_world s) = (y, w') \<Longrightarrow>
     lockStep C d s (s\<lparr>ls_world := w', ls_held := (ls_held s)(i := None)\<rparr>)"

inductive lockReachable :: "'w lockClient \<Rightarrow> duration \<Rightarrow> time \<Rightarrow> 'w \<Rightarrow> 'w lockSys \<Rightarrow> bool"
  for C :: "'w lockClient" and d :: duration and t0 :: time and w0 :: 'w where
  start: "lockReachable C d t0 w0 \<lparr>ls_now = t0, ls_world = w0, ls_held = Map.empty, ls_used = {}\<rparr>"
| step: "lockReachable C d t0 w0 s \<Longrightarrow> lockStep C d s s' \<Longrightarrow> lockReachable C d t0 w0 s'"

inductive_cases lockStepE: "lockStep C d s s'"

context lock_provider
begin

text \<open>Every lease was cut from bytes drawn before, no two from the same, and while it lasts the store
  knows its token as the holder.\<close>

definition leaseOk :: "'w lockSys \<Rightarrow> nat \<Rightarrow> lease \<Rightarrow> bool" where
  "leaseOk s i l \<longleftrightarrow> ls_key l \<noteq> [] \<and>
     (\<exists>b \<in> ls_used s. ls_lock l = \<lparr>hl_key = lockName (ls_key l), hl_token = EncodeToString b\<rparr>) \<and>
     (\<forall>t. ls_now s \<le> t \<longrightarrow> t + slack < ls_until l \<longrightarrow> holder t (ls_key l) (ls_world s) = Some (hl_token (ls_lock l)))"

definition lockInv :: "'w lockSys \<Rightarrow> bool" where
  "lockInv s \<longleftrightarrow> (\<forall>i l. ls_held s i = Some l \<longrightarrow> leaseOk s i l) \<and>
     (\<forall>i j l l'. ls_held s i = Some l \<longrightarrow> ls_held s j = Some l' \<longrightarrow>
        hl_token (ls_lock l) = hl_token (ls_lock l') \<longrightarrow> i = j)"

lemma lockInv_tick: "lockInv s \<Longrightarrow> ls_now s \<le> t \<Longrightarrow> lockInv (s\<lparr>ls_now := t\<rparr>)"
  by (auto simp: lockInv_def leaseOk_def)

lemma lockInv_acquire:
  assumes inv: "lockInv s" and d: "minTTL \<le> d" and free: "ls_held s i = None" and fresh: "b \<notin> ls_used s"
    and acq: "client_Acquire C c (ls_now s) (Inr b) key d (ls_world s) = (x, w')"
  shows "lockInv (s\<lparr>ls_world := w', ls_used := insert b (ls_used s),
     ls_held := (case x of Inl e \<Rightarrow> ls_held s
       | Inr h \<Rightarrow> (ls_held s)(i \<mapsto> \<lparr>ls_key = key, ls_lock = h, ls_until = ls_now s + d\<rparr>))\<rparr>)"
    (is "lockInv ?s'")
proof -
  have old: "leaseOk ?s' j l" if "ls_held s j = Some l" for j l
    using inv that acquire_keeps [OF acq d] by (fastforce simp: lockInv_def leaseOk_def)
  show ?thesis
  proof (cases x)
    case (Inl e)
    with inv old show ?thesis by (simp add: lockInv_def)
  next
    case (Inr h)
    note a = acquired [OF acq [unfolded Inr]]
    have tok: "hl_token h = EncodeToString b" using a by (simp add: lock_randomToken_def)
    have new: "leaseOk ?s' i \<lparr>ls_key = key, ls_lock = h, ls_until = ls_now s + d\<rparr>"
      using a tok acquired_holds [OF acq [unfolded Inr] d] by (auto simp: leaseOk_def)
    have "hl_token (ls_lock l) \<noteq> EncodeToString b" if "ls_held s j = Some l" for j l
      using inv that fresh by (fastforce simp: lockInv_def leaseOk_def EncodeToString_inj)
    with inv old new tok Inr show ?thesis by (fastforce simp: lockInv_def)
  qed
qed

lemma lockInv_release:
  assumes inv: "lockInv s" and i: "ls_held s i = Some l"
    and rel: "client_Release C (ls_lock l) c (ls_now s) (ls_world s) = (y, w')"
  shows "lockInv (s\<lparr>ls_world := w', ls_held := (ls_held s)(i := None)\<rparr>)" (is "lockInv ?s'")
proof -
  have "leaseOk ?s' j l'" if "ls_held s j = Some l'" "j \<noteq> i" for j l'
  proof -
    have "hl_token (ls_lock l') \<noteq> hl_token (ls_lock l)" and ok: "leaseOk s j l'"
      using inv i that by (auto simp: lockInv_def)
    then show ?thesis using release_keeps [OF rel] by (auto simp: leaseOk_def)
  qed
  with inv show ?thesis by (auto simp: lockInv_def)
qed

lemma lockInv_reachable: "lockReachable C d t0 w0 s \<Longrightarrow> minTTL \<le> d \<Longrightarrow> lockInv s"
proof (induction rule: lockReachable.induct)
  case start
  show ?case by (simp add: lockInv_def)
next
  case (step s s')
  from step.hyps(2) step.IH [OF step.prems] step.prems show ?case
    by (cases rule: lockStep.cases) (auto intro: lockInv_tick lockInv_acquire lockInv_release)
qed

lemma exclusive:
  assumes "lockReachable C d t0 w0 s" "minTTL \<le> d"
    and "ls_held s i = Some l" "ls_held s j = Some l'" "ls_key l = ls_key l'"
    and "ls_now s + slack < ls_until l" "ls_now s + slack < ls_until l'"
  shows "i = j"
proof -
  have inv: "lockInv s" using assms by (intro lockInv_reachable)
  then have "leaseOk s i l" and "leaseOk s j l'" using assms by (auto simp: lockInv_def)
  then have "hl_token (ls_lock l) = hl_token (ls_lock l')" using assms by (auto simp: leaseOk_def)
  with inv assms show ?thesis by (auto simp: lockInv_def)
qed

lemma live_lease_holds:
  assumes "lockReachable C d t0 w0 s" "minTTL \<le> d" "ls_held s i = Some l" "ls_now s + slack < ls_until l"
  shows "holder (ls_now s) (ls_key l) (ls_world s) = Some (hl_token (ls_lock l)) \<and> ls_key l \<noteq> []"
  using lockInv_reachable [OF assms(1,2)] assms(3,4) by (simp add: lockInv_def leaseOk_def)

text \<open>A live lease also keeps every further acquisition of the key out.\<close>

lemma live_lease_excludes:
  assumes "lockReachable C d t0 w0 s" "minTTL \<le> d" "ls_held s i = Some l" "ls_now s + slack < ls_until l"
  shows "fst (client_Acquire C c (ls_now s) rnd (ls_key l) d (ls_world s)) \<noteq> Inr h"
proof
  have "holder (ls_now s) (ls_key l) (ls_world s) \<noteq> None" using live_lease_holds [OF assms] by simp
  moreover assume "fst (client_Acquire C c (ls_now s) rnd (ls_key l) d (ls_world s)) = Inr h"
  ultimately show False by (metis acquired prod.collapse)
qed

text \<open>While the callback of \<^verbatim>\<open>With\<close> runs the store knows its token as the holder; afterwards the key is free,
  unless the release itself failed.\<close>

lemma With_protects:
  assumes "lm_client m = C" "minTTL \<le> lm_ttl m"
    and acq: "client_Acquire C c now rnd key (lm_ttl m) w = (Inr h, w1)" and f: "f c w1 = (res, w2)"
    and rel: "client_Release C h background now' w2 = (None, w3)" and "now \<le> now'" "now' \<le> t"
    and keep: "holder t key w2 = holder t key w1"
  shows "lock_With m c now now' rnd key (Some f) w = (res, w3) \<and> holder t key w3 = None"
proof -
  note a = acquired [OF acq]
  have "holder t key w1 = None \<or> holder t key w1 = Some (hl_token h)"
    using acquired_own [OF acq assms(2)] assms(6,7) by simp
  then show ?thesis using assms a release_frees [OF rel \<open>now' \<le> t\<close>, of key]
    by (auto simp: lock_With_def)
qed

end

section \<open>Guarantees\<close>

text \<open>C13: With the in-memory client, in every state any interleaving of acquisitions, releases and passing time can
  reach, of two callers that hold a lock on the same key at most one has a lease that has not run out.\<close>

theorem lock_memory_exclusive:
  assumes "lockReachable lock_memory_Client d t0 w0 s" "i \<noteq> j"
    and "ls_held s i = Some l" "ls_held s j = Some l'" "ls_key l = ls_key l'"
  shows "ls_until l \<le> ls_now s \<or> ls_until l' \<le> ls_now s"
  using mem_lock.exclusive [OF assms(1) order_refl assms(3,4,5)] assms(2) by force

lemma lockReachable_acquire:
  assumes "lockReachable C d t0 w0 s" "ls_held s i = None" "b \<notin> ls_used s"
    and "client_Acquire C c (ls_now s) (Inr b) key d (ls_world s) = (Inr h, w')"
    and "s' = s\<lparr>ls_world := w', ls_used := insert b (ls_used s),
       ls_held := (ls_held s)(i \<mapsto> \<lparr>ls_key = key, ls_lock = h, ls_until = ls_now s + d\<rparr>)\<rparr>"
  shows "lockReachable C d t0 w0 s'"
  using lockReachable.step [OF assms(1) lockStep.acquire [OF assms(2,3,4)]] assms(5) by simp

text \<open>Caller 0 takes a lock and lets it run out, caller 1 then gets it.\<close>

lemma two_leases:
  assumes "client_Acquire C None 0 (Inr ''a'') ''k'' d w0 = (Inr h, w1)"
    and "client_Acquire C None t (Inr ''b'') ''k'' d w1 = (Inr h', w2)" "0 \<le> t"
  shows "lockReachable C d 0 w0
     \<lparr>ls_now = t, ls_world = w2,
      ls_held = [0 \<mapsto> \<lparr>ls_key = ''k'', ls_lock = h, ls_until = d\<rparr>, 1 \<mapsto> \<lparr>ls_key = ''k'', ls_lock = h', ls_until = t + d\<rparr>],
      ls_used = {''b'', ''a''}\<rparr>"
proof -
  let ?s1 = "\<lparr>ls_now = 0, ls_world = w1, ls_held = [0 \<mapsto> \<lparr>ls_key = ''k'', ls_lock = h, ls_until = d\<rparr>], ls_used = {''a''}\<rparr>"
  have "lockReachable C d 0 w0 ?s1"
    by (rule lockReachable_acquire [OF lockReachable.start, where i = 0 and b = "''a''" and key = "''k''" and c = None])
      (use assms in simp_all)
  then have "lockReachable C d 0 w0 (?s1\<lparr>ls_now := t\<rparr>)"
    by (rule lockReachable.step) (rule lockStep.tick, use assms in simp)
  then show ?thesis
    by (rule lockReachable_acquire [where i = 1 and b = "''b''" and key = "''k''" and c = None]) (use assms in simp_all)
qed

theorem lock_memory_exclusive_witness:
  "\<exists>s l l'. lockReachable lock_memory_Client 10 0 lock_NewMemory s \<and> ls_held s 0 = Some l \<and> ls_held s 1 = Some l' \<and>
     ls_key l = ls_key l' \<and> (ls_until l \<le> ls_now s \<or> ls_until l' \<le> ls_now s)"
proof -
  obtain w1 w2 where w: "lock_memory_Acquire None 0 (Inr ''a'') ''k'' 10 lock_NewMemory =
        (Inr \<lparr>hl_key = ''k'', hl_token = EncodeToString ''a''\<rparr>, w1)"
      "lock_memory_Acquire None 20 (Inr ''b'') ''k'' 10 w1 = (Inr \<lparr>hl_key = ''k'', hl_token = EncodeToString ''b''\<rparr>, w2)"
    by (simp add: lock_memory_simps lock_NewMemory_def lock_randomToken_def)
  note r = two_leases [of lock_memory_Client 10 lock_NewMemory _ w1 20 _ w2, unfolded lock_memory_Client_def lockClient.simps,
      OF w, folded lock_memory_Client_def [simplified]]
  show ?thesis
    using lock_memory_exclusive [OF r, of 0 1] r by fastforce
qed

text \<open>C3: The same for the Redis client and a TTL of at least a millisecond, with calls to Redis that fail
  arbitrarily: up to two milliseconds before the end of its lease a holder is alone.\<close>

theorem lock_redis_exclusive:
  assumes "redis_call_law R" "redis_decode_law R" "redis_string_law R" "millisecond \<le> d"
    and "lockReachable (lock_redis_Client R p) d t0 w0 s" "i \<noteq> j"
    and "ls_held s i = Some l" "ls_held s j = Some l'" "ls_key l = ls_key l'"
  shows "ls_until l \<le> ls_now s + 2 * millisecond \<or> ls_until l' \<le> ls_now s + 2 * millisecond"
  using lock_provider.exclusive [OF redis_lock_provider [OF assms(1,2,3)] assms(5,4,7,8,9)] assms(6) by force

theorem lock_redis_exclusive_witness:
  "\<exists>s l l'. lockReachable (lock_redis_Client refRedis (lock_NewRedis [])) second 0 refEmpty s \<and> ls_held s 0 = Some l \<and>
     ls_held s 1 = Some l' \<and> ls_key l = ls_key l' \<and>
     (ls_until l \<le> ls_now s + 2 * millisecond \<or> ls_until l' \<le> ls_now s + 2 * millisecond)"
proof -
  let ?C = "lock_redis_Client refRedis (lock_NewRedis [])"
  let ?h = "\<lambda>b. \<lparr>hl_key = ''floodguard:lock:k'', hl_token = EncodeToString b\<rparr>"
  obtain w1 w2 where "client_Acquire ?C None 0 (Inr ''a'') ''k'' second refEmpty = (Inr (?h ''a''), w1)"
      "client_Acquire ?C None (2 * second) (Inr ''b'') ''k'' second w1 = (Inr (?h ''b''), w2)"
    by (simp add: lock_redis_Client_def lock_redis_Acquire_def lock_NewRedis_def lock_rkey_def lock_randomToken_def
        setNXCommand_def refRedis_def refEmpty_def ref_SETNXPX_def ref_GET_def ref_set_def second_def time_UnixMilli_def quot_def)
  note r = two_leases [OF this, unfolded second_def]
  show ?thesis
    using lock_redis_exclusive [OF refRedis_call_law refRedis_decode_law refRedis_string_law _ r, of 0 1] r
    by (fastforce simp: second_def millisecond_def)
qed

text \<open>A caller whose lease has not run out keeps every other acquisition of the key out: the manager's
  \<^verbatim>\<open>TryAcquire\<close> fails with an error that is \<^verbatim>\<open>ErrNotAcquired\<close> and changes nothing.\<close>

theorem lock_memory_TryAcquire_held:
  assumes "lockReachable lock_memory_Client (lm_ttl m) t0 w0 s" "m = lock_New lock_memory_Client None ttl"
    and "ls_held s i = Some l" "ls_now s < ls_until l"
  shows "\<exists>e. lock_TryAcquire m c (ls_now s) (Inr b) (ls_key l) (ls_world s) = (Inl e, ls_world s) \<and>
     errors_Is e lock_ErrNotAcquired"
proof -
  have "memoryHolder (ls_now s) (ls_key l) (ls_world s) \<noteq> None" "ls_key l \<noteq> []"
    using mem_lock.live_lease_holds [OF assms(1) order_refl assms(3)] assms(4) by auto
  then show ?thesis using assms(2)
    by (auto simp: lock_TryAcquire_def lock_New_def lock_memory_simps lock_randomToken_def lock_ErrNotAcquired_def split: option.splits if_splits)
qed

lemma one_lease:
  assumes "client_Acquire C None 0 (Inr ''a'') ''k'' d w0 = (Inr h, w1)"
  shows "lockReachable C d 0 w0
     \<lparr>ls_now = 0, ls_world = w1, ls_held = [0 \<mapsto> \<lparr>ls_key = ''k'', ls_lock = h, ls_until = d\<rparr>], ls_used = {''a''}\<rparr>"
  by (rule lockReachable_acquire [OF lockReachable.start, where i = 0 and b = "''a''" and key = "''k''" and c = None])
    (use assms in simp_all)

theorem lock_memory_TryAcquire_held_witness:
  "\<exists>w e. lock_memory_Acquire None 0 (Inr ''a'') ''k'' (30 * second) lock_NewMemory =
        (Inr \<lparr>hl_key = ''k'', hl_token = EncodeToString ''a''\<rparr>, w) \<and>
     lock_TryAcquire (lock_New lock_memory_Client None 0) None 0 (Inr ''b'') ''k'' w = (Inl e, w) \<and>
     errors_Is e lock_ErrNotAcquired"
proof -
  obtain w where w: "lock_memory_Acquire None 0 (Inr ''a'') ''k'' (30 * second) lock_NewMemory =
        (Inr \<lparr>hl_key = ''k'', hl_token = EncodeToString ''a''\<rparr>, w)"
    by (simp add: lock_memory_simps lock_NewMemory_def lock_randomToken_def)
  then have "client_Acquire lock_memory_Client None 0 (Inr ''a'') ''k'' (30 * second) lock_NewMemory =
        (Inr \<lparr>hl_key = ''k'', hl_token = EncodeToString ''a''\<rparr>, w)"
    by (simp add: lock_memory_Client_def)
  note r = one_lease [OF this]
  show ?thesis
    using lock_memory_TryAcquire_held [where m = "lock_New lock_memory_Client None 0" and i = 0 and c = None and b = "''b''",
        OF _ refl] r w
    by (fastforce simp: lock_New_def second_def)
qed

text \<open>C35: \<^verbatim>\<open>With\<close> over the in-memory client runs the callback exactly when the key is free, while its token holds the key,
  and hands back what the callback does, a panic included; when the callback leaves the lock of the key alone,
  the key is free afterwards.\<close>

theorem lock_memory_With:
  assumes "m = lock_New lock_memory_Client None ttl" "key \<noteq> []" "memoryHolder now key w = None"
    and "\<forall>v. locks (snd (f c v)) key = locks v key"
  shows "\<exists>v. memoryHolder now key v = Some (EncodeToString b) \<and>
     fst (lock_With m c now now' (Inr b) key (Some f) w) = fst (f c v) \<and>
     locks (snd (lock_With m c now now' (Inr b) key (Some f) w)) key = None"
proof -
  define v where "v = w\<lparr>locks := (locks w)(key \<mapsto> \<lparr>le_token = EncodeToString b, le_expiresAt = now + lm_ttl m\<rparr>)\<rparr>"
  have "0 < lm_ttl m" using assms(1) by (simp add: lock_New_def second_def)
  then have holds: "memoryHolder now key v = Some (EncodeToString b)" by (simp add: v_def memoryHolder_def)
  have acq: "lock_memory_Acquire c now (Inr b) key (lm_ttl m) w = (Inr \<lparr>hl_key = key, hl_token = EncodeToString b\<rparr>, v)"
    using assms(2,3) by (auto simp: lock_memory_simps lock_randomToken_def v_def split: option.splits if_splits)
  obtain res v' where f: "f c v = (res, v')" by fastforce
  then have "locks v' key = Some \<lparr>le_token = EncodeToString b, le_expiresAt = now + lm_ttl m\<rparr>"
    using assms(4) [rule_format, of v] by (simp add: v_def)
  then have "lock_With m c now now' (Inr b) key (Some f) w = (res, v'\<lparr>locks := (locks v')(key := None)\<rparr>)"
    using assms(1,2) acq f by (simp add: lock_With_def lock_New_def lock_memory_Client_def lock_memory_Release_def)
  with holds f show ?thesis by (intro exI [of _ v]) simp
qed

theorem lock_memory_With_witness:
  "\<exists>v. memoryHolder 5 ''k'' v = Some (EncodeToString ''a'') \<and>
     fst (lock_With (lock_New lock_memory_Client None 0) None 5 6 (Inr ''a'') ''k''
       (Some (\<lambda>c v. (Panicked ''boom'', v))) lock_NewMemory) = Panicked ''boom'' \<and>
     locks (snd (lock_With (lock_New lock_memory_Client None 0) None 5 6 (Inr ''a'') ''k''
       (Some (\<lambda>c v. (Panicked ''boom'', v))) lock_NewMemory)) ''k'' = None"
  using lock_memory_With [OF refl, of "''k''" 5 lock_NewMemory "\<lambda>c v. (Panicked ''boom'', v)" None "''a''" 0 6]
  by (simp add: memoryHolder_def lock_NewMemory_def)

end
