(* ===== verification/Velocity.thy ===== *)
theory Velocity
  imports Redis_Ref
begin

text \<open>
  Package \<^verbatim>\<open>velocity\<close>: the in-memory and Redis action logs (\<^verbatim>\<open>memory.go\<close>, \<^verbatim>\<open>redis.go\<close>), the two built-in
  rules (\<^verbatim>\<open>rules.go\<close>) and the engine that runs rules in order and records allowed actions
  (\<^verbatim>\<open>velocity.go\<close>). The locale \<open>velocity_log\<close> is what the rules rely on a store for.
\<close>

section \<open>Sentinels and interfaces\<close>

definition velocity_ErrKeyRequired :: go_error where
  "velocity_ErrKeyRequired = Sentinel ''velocity: key is required''"

definition velocity_ErrInvalidRule :: go_error where
  "velocity_ErrInvalidRule = Sentinel ''velocity: invalid rule configuration''"

text \<open>\<^verbatim>\<open>Last\<close> returns a time and whether one was found, here an option.\<close>

record 'w velStore =
  vs_Record :: "ctx \<Rightarrow> time \<Rightarrow> string \<Rightarrow> time \<Rightarrow> 'w \<Rightarrow> go_error option \<times> 'w"
  vs_Count :: "ctx \<Rightarrow> time \<Rightarrow> string \<Rightarrow> duration \<Rightarrow> 'w \<Rightarrow> (go_error + int) \<times> 'w"
  vs_Last :: "ctx \<Rightarrow> time \<Rightarrow> string \<Rightarrow> 'w \<Rightarrow> (go_error + time option) \<times> 'w"

text \<open>A rule's \<^verbatim>\<open>Check\<close> gives whether it flags the key, and why; \<open>now\<close> is the clock it reads.\<close>

type_synonym 'w velRule = "ctx \<Rightarrow> time \<Rightarrow> string \<Rightarrow> 'w velStore \<Rightarrow> 'w \<Rightarrow> (go_error + bool \<times> string) \<times> 'w"

section \<open>The in-memory store\<close>

record velMemory =
  actions :: "string \<rightharpoonup> time list"

definition velocity_NewMemoryStore :: velMemory where
  "velocity_NewMemoryStore = \<lparr>actions = Map.empty\<rparr>"

text \<open>\<^verbatim>\<open>s.actions[key]\<close>, which is nil for a key never written.\<close>

definition actionsOf :: "velMemory \<Rightarrow> string \<Rightarrow> time list" where
  "actionsOf s key = (case actions s key of None \<Rightarrow> [] | Some ts \<Rightarrow> ts)"

definition vel_memory_Record :: "ctx \<Rightarrow> time \<Rightarrow> string \<Rightarrow> time \<Rightarrow> velMemory \<Rightarrow> go_error option \<times> velMemory" where
  "vel_memory_Record c now key at s =
     (None, s\<lparr>actions := (actions s)(key \<mapsto> actionsOf s key @ [at])\<rparr>)"

definition vel_trim :: "time \<Rightarrow> string \<Rightarrow> duration \<Rightarrow> velMemory \<Rightarrow> time list \<times> velMemory" where
  "vel_trim now key window s =
     (let cutoff = time_Add now (dur_neg window);
          kept = filter (\<lambda>ts. time_After ts cutoff) (actionsOf s key)
      in (kept, s\<lparr>actions := (actions s)(key \<mapsto> kept)\<rparr>))"

definition vel_memory_Count :: "ctx \<Rightarrow> time \<Rightarrow> string \<Rightarrow> duration \<Rightarrow> velMemory \<Rightarrow> (go_error + int) \<times> velMemory" where
  "vel_memory_Count c now key window s =
     (case vel_trim now key window s of (kept, s') \<Rightarrow> (Inr (int (length kept)), s'))"

definition vel_memory_Last :: "ctx \<Rightarrow> time \<Rightarrow> string \<Rightarrow> velMemory \<Rightarrow> (go_error + time option) \<times> velMemory" where
  "vel_memory_Last c now key s =
     (let times = actionsOf s key in
      if times = [] then (Inr None, s) else (Inr (Some (last times)), s))"

definition vel_memory_Store :: "velMemory velStore" where
  "vel_memory_Store =
     \<lparr>vs_Record = vel_memory_Record, vs_Count = vel_memory_Count, vs_Last = vel_memory_Last\<rparr>"

section \<open>The Redis store\<close>

record velRedis =
  vr_prefix :: string

definition velocity_NewRedisStore :: "string \<Rightarrow> velRedis" where
  "velocity_NewRedisStore keyPrefix =
     \<lparr>vr_prefix = (if keyPrefix = [] then ''floodguard:velocity'' else keyPrefix)\<rparr>"

definition velocity_rkey :: "velRedis \<Rightarrow> string \<Rightarrow> string" where
  "velocity_rkey s key = vr_prefix s @ '':'' @ key"

text \<open>The transactions of \<^verbatim>\<open>Record\<close> and \<^verbatim>\<open>Count\<close>, and the range query of \<^verbatim>\<open>Last\<close>; a score is a whole number
  of milliseconds, which a float64 holds exactly.\<close>

definition vel_redis_Record :: "'r redis \<Rightarrow> velRedis \<Rightarrow> ctx \<Rightarrow> time \<Rightarrow> string \<Rightarrow> time \<Rightarrow> 'r \<Rightarrow> go_error option \<times> 'r" where
  "vel_redis_Record R s c now key at r =
     (let rkey = velocity_rkey s key; member = FormatInt (time_UnixNano at); t = time_UnixMilli now in
      (case rd_call R c (\<lambda>q. (RNil, rd_PEXPIRE R t rkey (rd_px R (24 * hour))
                                (rd_ZADD R t rkey (time_UnixMilli at) member q))) r of
         (Inl e, r') \<Rightarrow> (Some e, r')
       | (Inr _, r') \<Rightarrow> (None, r')))"

definition vel_redis_Count :: "'r redis \<Rightarrow> velRedis \<Rightarrow> ctx \<Rightarrow> time \<Rightarrow> string \<Rightarrow> duration \<Rightarrow> 'r \<Rightarrow> (go_error + int) \<times> 'r" where
  "vel_redis_Count R s c now key window r =
     (let rkey = velocity_rkey s key; t = time_UnixMilli now;
          cutoff = time_UnixMilli (time_Add now (dur_neg window)) in
      (case rd_call R c (\<lambda>q. let q' = rd_ZREMRANGEBYSCORE R t rkey 0 cutoff q in (RInt (rd_ZCARD R t rkey q'), q')) r of
         (Inl e, r') \<Rightarrow> (Inl e, r')
       | (Inr rep, r') \<Rightarrow> (case rd_asInt R rep of Inl e \<Rightarrow> (Inl e, r') | Inr n \<Rightarrow> (Inr n, r'))))"

definition vel_redis_Last :: "'r redis \<Rightarrow> velRedis \<Rightarrow> ctx \<Rightarrow> time \<Rightarrow> string \<Rightarrow> 'r \<Rightarrow> (go_error + time option) \<times> 'r" where
  "vel_redis_Last R s c now key r =
     (let rkey = velocity_rkey s key; t = time_UnixMilli now in
      (case rd_call R c (\<lambda>q. (case rd_ZMAX R t rkey q of
                               None \<Rightarrow> RArr [] | Some (m, sc) \<Rightarrow> RArr [RBulk m, RInt sc], q)) r of
         (Inl e, r') \<Rightarrow> (Inl e, r')
       | (Inr rep, r') \<Rightarrow>
           (case rd_asSlice R rep of
              Inl e \<Rightarrow> (Inl e, r')
            | Inr (m # RInt sc # _) \<Rightarrow> (Inr (Some (sc * 1000000)), r')
            | Inr _ \<Rightarrow> (Inr None, r'))))"

definition vel_redis_Store :: "'r redis \<Rightarrow> velRedis \<Rightarrow> 'r velStore" where
  "vel_redis_Store R s =
     \<lparr>vs_Record = vel_redis_Record R s, vs_Count = vel_redis_Count R s, vs_Last = vel_redis_Last R s\<rparr>"

section \<open>Rules\<close>

record RateOverWindow =
  row_N :: int
  row_Window :: duration
  row_Label :: string

definition RateOverWindow_Check :: "RateOverWindow \<Rightarrow> 'w velRule" where
  "RateOverWindow_Check r c now key st w =
     (if row_N r \<le> 0 then
        (Inl (Wrapf [] velocity_ErrInvalidRule '': RateOverWindow.N must be positive''), w)
      else if row_Window r \<le> 0 then
        (Inl (Wrapf [] velocity_ErrInvalidRule '': RateOverWindow.Window must be positive''), w)
      else
        (case vs_Count st c now key (row_Window r) w of
           (Inl e, w') \<Rightarrow> (Inl e, w')
         | (Inr count, w') \<Rightarrow>
             if row_N r \<le> count then
               let label = (if row_Label r = [] then ''actions'' else row_Label r) in
               (Inr (True, ''more than '' @ FormatInt (row_N r) @ '' '' @ label @ '' within '' @
                  dur_String (row_Window r)), w')
             else (Inr (False, []), w')))"

record MinInterval =
  mi_Min :: duration
  mi_Label :: string

definition MinInterval_Check :: "MinInterval \<Rightarrow> 'w velRule" where
  "MinInterval_Check m c now key st w =
     (if mi_Min m \<le> 0 then
        (Inl (Wrapf [] velocity_ErrInvalidRule '': MinInterval.Min must be positive''), w)
      else
        (case vs_Last st c now key w of
           (Inl e, w') \<Rightarrow> (Inl e, w')
         | (Inr None, w') \<Rightarrow> (Inr (False, []), w')
         | (Inr (Some lst), w') \<Rightarrow>
             let elapsed = time_Sub now lst in
             if elapsed < mi_Min m then
               let label = (if mi_Label m = [] then ''action'' else mi_Label m) in
               (Inr (True, label @ '' placed faster than minimum human interval '' @ dur_String (mi_Min m) @
                  '' (elapsed '' @ dur_String (dur_Truncate elapsed millisecond) @ '')''), w')
             else (Inr (False, []), w')))"

section \<open>The engine\<close>

record 'w velEngine =
  ve_store :: "'w velStore"
  ve_rules :: "'w velRule list"

definition velocity_New :: "'w velStore \<Rightarrow> 'w velStore option \<Rightarrow> 'w velRule list \<Rightarrow> 'w velEngine" where
  "velocity_New dflt cfgStore cfgRules =
     \<lparr>ve_store = (case cfgStore of None \<Rightarrow> dflt | Some s \<Rightarrow> s),
      ve_rules = (if cfgRules = []
        then [RateOverWindow_Check \<lparr>row_N = 20, row_Window = minute, row_Label = []\<rparr>] else cfgRules)\<rparr>"

definition velocity_AddRule :: "'w velRule \<Rightarrow> 'w velEngine \<Rightarrow> 'w velEngine" where
  "velocity_AddRule rule e = e\<lparr>ve_rules := ve_rules e @ [rule]\<rparr>"

text \<open>The loop of \<^verbatim>\<open>Check\<close>: \<open>Some why\<close> when a rule flags. Rule \<open>i\<close> reads the clock at \<open>nows i\<close>, and the action
  is recorded at \<open>nows\<close> of the number of rules.\<close>

fun runRules :: "'w velRule list \<Rightarrow> ctx \<Rightarrow> (nat \<Rightarrow> time) \<Rightarrow> string \<Rightarrow> 'w velStore \<Rightarrow> 'w \<Rightarrow>
    (go_error + string option) \<times> 'w" where
  "runRules [] c nows key st w = (Inr None, w)"
| "runRules (rule # rules) c nows key st w =
     (case rule c (nows 0) key st w of
        (Inl e, w') \<Rightarrow> (Inl (Wrapf ''velocity: rule check: '' e []), w')
      | (Inr (flagged, why), w') \<Rightarrow>
          if flagged then (Inr (Some why), w')
          else runRules rules c (\<lambda>i. nows (Suc i)) key st w')"

definition velocity_Check :: "'w velEngine \<Rightarrow> ctx \<Rightarrow> (nat \<Rightarrow> time) \<Rightarrow> string \<Rightarrow> 'w \<Rightarrow> (go_error + bool \<times> string) \<times> 'w" where
  "velocity_Check e c nows key w =
     (if key = [] then (Inl velocity_ErrKeyRequired, w)
      else
        (case runRules (ve_rules e) c nows key (ve_store e) w of
           (Inl err, w') \<Rightarrow> (Inl err, w')
         | (Inr (Some why), w') \<Rightarrow> (Inr (False, why), w')
         | (Inr None, w') \<Rightarrow>
             let now = nows (length (ve_rules e)) in
             (case vs_Record (ve_store e) c now key now w' of
                (Some err, w'') \<Rightarrow> (Inl (Wrapf ''velocity: record: '' err []), w'')
              | (None, w'') \<Rightarrow> (Inr (True, []), w''))))"

definition velocity_StoreFor :: "'w velEngine \<Rightarrow> 'w velStore" where
  "velocity_StoreFor e = ve_store e"

text \<open>\<^verbatim>\<open>Rules\<close> copies the slice, so what the caller does to the result does not reach the engine.\<close>

definition velocity_Rules :: "'w velEngine \<Rightarrow> 'w velRule list" where
  "velocity_Rules e = map (\<lambda>i. ve_rules e ! i) [0..<length (ve_rules e)]"

lemma velocity_Rules_eq [simp]: "velocity_Rules e = ve_rules e"
  by (simp add: velocity_Rules_def map_nth)

section \<open>What rules rely on a store for\<close>

text \<open>\<open>log key w\<close> are the recorded actions of a key still in the store, oldest first. Counting a window
  drops every action outside it.\<close>

locale velocity_log =
  fixes V :: "'w velStore"
    and log :: "string \<Rightarrow> 'w \<Rightarrow> time list"
  assumes record_appends:
      "\<exists>w'. vs_Record V c now key at w = (None, w') \<and> log key w' = log key w @ [at] \<and>
         (\<forall>k. k \<noteq> key \<longrightarrow> log k w' = log k w)"
    and count_trims:
      "0 < window \<Longrightarrow> in_i64 window \<Longrightarrow>
       \<exists>w'. vs_Count V c now key window w = (Inr (int (length (filter (\<lambda>x. now - window < x) (log key w)))), w') \<and>
         log key w' = filter (\<lambda>x. now - window < x) (log key w) \<and> (\<forall>k. k \<noteq> key \<longrightarrow> log k w' = log k w)"
    and last_reads:
      "vs_Last V c now key w = (Inr (if log key w = [] then None else Some (last (log key w))), w)"

lemmas vel_memory_simps [store_simps] =
  vel_memory_Store_def vel_memory_Record_def vel_memory_Count_def vel_memory_Last_def vel_trim_def
  actionsOf_def Let_def time_Add_def time_After_def

interpretation mem_vel: velocity_log vel_memory_Store "\<lambda>k s. actionsOf s k"
  by unfold_locales (auto simp: vel_memory_simps dur_neg_pos)

section \<open>Runs of the engine\<close>

text \<open>A call is a key and the clock readings of its rules and of its record. \<open>velRun\<close> performs the calls
  one after the other and returns those that were allowed.\<close>

type_synonym velCall = "string \<times> (nat \<Rightarrow> time)"

fun velRun :: "'w velEngine \<Rightarrow> velCall list \<Rightarrow> 'w \<Rightarrow> velCall list" where
  "velRun e [] w = []"
| "velRun e ((key, nows) # calls) w =
     (case velocity_Check e None nows key w of (x, w') \<Rightarrow>
        (if \<exists>why. x = Inr (True, why) then [(key, nows)] else []) @ velRun e calls w')"

text \<open>The clock never goes back, within a call of \<open>n\<close> rules or from one call to the next.\<close>

fun clockOk :: "nat \<Rightarrow> time \<Rightarrow> velCall list \<Rightarrow> bool" where
  "clockOk n t [] = True"
| "clockOk n t ((key, nows) # calls) =
     (t \<le> nows 0 \<and> (\<forall>i<n. nows i \<le> nows (Suc i)) \<and> clockOk n (nows n) calls)"

text \<open>The rule pair the example application installs: at most \<open>N\<close> actions in a window, and a minimum
  interval between two.\<close>

definition pairEngine :: "'w velStore \<Rightarrow> RateOverWindow \<Rightarrow> MinInterval \<Rightarrow> 'w velEngine" where
  "pairEngine st r m = \<lparr>ve_store = st, ve_rules = [RateOverWindow_Check r, MinInterval_Check m]\<rparr>"

definition validPair :: "RateOverWindow \<Rightarrow> MinInterval \<Rightarrow> bool" where
  "validPair r m \<longleftrightarrow> 0 < row_N r \<and> 0 < row_Window r \<and> in_i64 (row_Window r) \<and>
     0 < mi_Min m \<and> mi_Min m \<le> row_Window r"

text \<open>Each allowed call of a list comes at least the minimum interval after the one before it and sees
  fewer than \<open>N\<close> earlier ones inside its window.\<close>

definition spaced :: "RateOverWindow \<Rightarrow> MinInterval \<Rightarrow> (nat \<Rightarrow> time) list \<Rightarrow> bool" where
  "spaced r m ns \<longleftrightarrow> (\<forall>xs n ys. ns = xs @ n # ys \<longrightarrow>
     int (length (filter (\<lambda>p. n 0 - row_Window r < p 2) xs)) < row_N r \<and>
     (xs \<noteq> [] \<longrightarrow> mi_Min m \<le> n 1 - last xs 2))"

definition allowedFor :: "string \<Rightarrow> velCall list \<Rightarrow> (nat \<Rightarrow> time) list" where
  "allowedFor key calls = map snd (filter (\<lambda>c. fst c = key) calls)"

lemma spaced_snoc:
  "spaced r m (xs @ [n]) \<longleftrightarrow> spaced r m xs \<and>
     int (length (filter (\<lambda>p. n 0 - row_Window r < p 2) xs)) < row_N r \<and>
     (xs \<noteq> [] \<longrightarrow> mi_Min m \<le> n 1 - last xs 2)"
  unfolding spaced_def by (fastforce simp: append_eq_append_conv2 append_eq_Cons_conv Cons_eq_append_conv)

lemma spaced_Nil [simp]: "spaced r m []"
  by (simp add: spaced_def)

text \<open>Whether a call with readings \<open>n\<close> is allowed after actions recorded at the times \<open>hist\<close>.\<close>

definition admits :: "RateOverWindow \<Rightarrow> MinInterval \<Rightarrow> time list \<Rightarrow> (nat \<Rightarrow> time) \<Rightarrow> bool" where
  "admits r m hist n \<longleftrightarrow>
     int (length (filter (\<lambda>x. n 0 - row_Window r < x) hist)) < row_N r \<and>
     (hist \<noteq> [] \<longrightarrow> mi_Min m \<le> n 1 - last hist)"

context velocity_log
begin

text \<open>
  \<open>hist\<close> are the record times of a key so far, \<open>c\<close> the last cutoff: the store still knows every action
  after \<open>c\<close>.
\<close>

definition knows :: "string \<Rightarrow> time list \<Rightarrow> time \<Rightarrow> 'w \<Rightarrow> bool" where
  "knows key hist c w \<longleftrightarrow> (\<forall>c'. c \<le> c' \<longrightarrow> filter (\<lambda>x. c' < x) (log key w) = filter (\<lambda>x. c' < x) hist)"

lemma knows_trim:
  "knows key hist c w \<Longrightarrow> c \<le> c1 \<Longrightarrow> log key w' = filter (\<lambda>x. c1 < x) (log key w) \<Longrightarrow>
     log key w' = filter (\<lambda>x. c1 < x) hist \<and> knows key hist c1 w'"
proof -
  assume k: "knows key hist c w" "c \<le> c1" "log key w' = filter (\<lambda>x. c1 < x) (log key w)"
  then have eq: "log key w' = filter (\<lambda>x. c1 < x) hist" by (simp add: knows_def)
  have "c1 \<le> c' \<Longrightarrow> filter (\<lambda>x. c1 < x \<and> c' < x) hist = filter (\<lambda>x. c' < x) hist" for c'
    by (rule filter_cong) auto
  with eq show ?thesis by (simp add: knows_def)
qed

lemma knows_append: "knows key hist c w \<Longrightarrow> log key w' = log key w @ [x] \<Longrightarrow> knows key (hist @ [x]) c w'"
  by (simp add: knows_def)

lemma knows_frame: "knows key hist c w \<Longrightarrow> log key w' = log key w \<Longrightarrow> knows key hist c w'"
  by (simp add: knows_def)

lemma last_filter_or_old:
  fixes hist :: "time list"
  assumes "sorted hist" "hist \<noteq> []"
  shows "filter (\<lambda>x. c < x) hist \<noteq> [] \<and> last (filter (\<lambda>x. c < x) hist) = last hist \<or>
     filter (\<lambda>x. c < x) hist = [] \<and> last hist \<le> c"
proof (cases "c < last hist")
  case True
  then have "filter (\<lambda>x. c < x) hist = filter (\<lambda>x. c < x) (butlast hist) @ [last hist]"
    using assms(2) by (metis append_butlast_last_id filter.simps(1,2) filter_append)
  then show ?thesis by simp
next
  case False
  have "x \<le> last hist" if "x \<in> set hist" for x
    using assms that by (simp add: sorted_le_last)
  with False show ?thesis by (force simp: filter_empty_conv)
qed

text \<open>One call on the key, from a state that knows the history: what it decides and what it leaves.\<close>

lemma pair_Check_step:
  assumes v: "validPair r m" and "knows key hist c w" "c \<le> n 0 - row_Window r" "key \<noteq> []"
    and "n 0 \<le> n 1" "sorted hist"
  shows "\<exists>w' x. velocity_Check (pairEngine V r m) None n key w = (x, w') \<and>
     ((\<exists>why. x = Inr (True, why)) \<longleftrightarrow> admits r m hist n) \<and>
     knows key (if admits r m hist n then hist @ [n 2] else hist) (n 0 - row_Window r) w' \<and>
     (\<forall>k. k \<noteq> key \<longrightarrow> log k w' = log k w)"
proof -
  let ?c = "n 0 - row_Window r"
  obtain w1 where w1: "vs_Count V None (n 0) key (row_Window r) w =
        (Inr (int (length (filter (\<lambda>x. ?c < x) (log key w)))), w1)"
      "log key w1 = filter (\<lambda>x. ?c < x) (log key w)" "\<forall>k. k \<noteq> key \<longrightarrow> log k w1 = log k w"
    using count_trims [of "row_Window r" None "n 0" key w] v by (auto simp: validPair_def)
  have lg: "log key w1 = filter (\<lambda>x. ?c < x) hist" "knows key hist ?c w1"
    using knows_trim [OF assms(2,3) w1(2)] by simp_all
  obtain w2 where w2: "vs_Record V None (n 2) key (n 2) w1 = (None, w2)" "log key w2 = log key w1 @ [n 2]"
      "\<forall>k. k \<noteq> key \<longrightarrow> log k w2 = log k w1"
    using record_appends [of None "n 2" key "n 2" w1] by auto
  have min: "in_i64 (mi_Min m)" "0 < mi_Min m" "mi_Min m \<le> row_Window r"
    using v in_i64_between [of "mi_Min m" "row_Window r"] by (auto simp: validPair_def)
  have flag: "log key w1 = [] \<or> \<not> time_Sub (n 1) (last (log key w1)) < mi_Min m \<longleftrightarrow>
      (hist \<noteq> [] \<longrightarrow> mi_Min m \<le> n 1 - last hist)"
    using last_filter_or_old [OF assms(6), of ?c] time_Sub_less [OF min(2,1)] min(3) assms(5) lg(1)
    by (cases "hist = []") auto
  have eq: "length (filter (\<lambda>x. ?c < x) (log key w)) = length (filter (\<lambda>x. ?c < x) hist)"
    using lg(1) w1(2) by simp
  note defs = velocity_Check_def pairEngine_def RateOverWindow_Check_def MinInterval_Check_def
    validPair_def Let_def eq numeral_2_eq_2 admits_def
  show ?thesis
  proof (cases "admits r m hist n")
    case True
    then have "velocity_Check (pairEngine V r m) None n key w = (Inr (True, []), w2)"
      using flag v \<open>key \<noteq> []\<close> w1(1) w2(1) last_reads [of None "n 1" key w1] min
      by (auto simp: defs)
    then show ?thesis using True knows_append [OF lg(2) w2(2)] w1(3) w2(3) by auto
  next
    case False
    then have "\<exists>why. velocity_Check (pairEngine V r m) None n key w = (Inr (False, why), w1)"
      using flag v \<open>key \<noteq> []\<close> w1(1) last_reads [of None "n 1" key w1] min
      by (auto simp: defs)
    then show ?thesis using False lg(2) w1(3) by auto
  qed
qed

lemma pair_Check_frame:
  assumes v: "validPair r m" and "k \<noteq> key"
  shows "log k (snd (velocity_Check (pairEngine V r m) None n key w)) = log k w"
proof (cases "key = []")
  case False
  obtain w1 a where w1: "vs_Count V None (n 0) key (row_Window r) w = (a, w1)" "log k w1 = log k w"
    using count_trims [of "row_Window r" None "n 0" key w] v assms(2) by (auto simp: validPair_def)
  obtain w2 where w2: "vs_Record V None (n 2) key (n 2) w1 = (None, w2)" "log k w2 = log k w1"
    using record_appends [of None "n 2" key "n 2" w1] assms(2) by auto
  from w1 w2 False last_reads [of None "n 1" key w1] show ?thesis
    by (auto simp: velocity_Check_def pairEngine_def RateOverWindow_Check_def MinInterval_Check_def
        Let_def numeral_2_eq_2 split: sum.splits option.splits)
qed (simp add: velocity_Check_def)

lemma pair_run:
  assumes v: "validPair r m" and key: "key \<noteq> []"
  shows "knows key (map (\<lambda>p. p 2) acc) c w \<Longrightarrow> c \<le> t - row_Window r \<Longrightarrow> clockOk 2 t calls \<Longrightarrow>
     spaced r m acc \<Longrightarrow> sorted (map (\<lambda>p. p 2) acc) \<Longrightarrow> \<forall>p \<in> set acc. p 2 \<le> t \<Longrightarrow>
     spaced r m (acc @ allowedFor key (velRun (pairEngine V r m) calls w))"
proof (induction calls arbitrary: acc c w t)
  case Nil
  then show ?case by (simp add: allowedFor_def)
next
  case (Cons call calls)
  obtain k n where call: "call = (k, n)" by fastforce
  obtain x w' where chk: "velocity_Check (pairEngine V r m) None n k w = (x, w')" by fastforce
  have clk: "t \<le> n 0" "n 0 \<le> n 1" "n 1 \<le> n 2" "clockOk 2 (n 2) calls"
    using Cons.prems(3) call by (auto simp: numeral_2_eq_2 less_Suc_eq)
  have le: "\<forall>p \<in> set acc. p 2 \<le> n 2" using Cons.prems(6) clk by auto
  show ?case
  proof (cases "k = key")
    case True
    let ?hist = "map (\<lambda>p. p 2) acc"
    have step: "((\<exists>why. x = Inr (True, why)) \<longleftrightarrow> admits r m ?hist n)"
        "knows key (if admits r m ?hist n then ?hist @ [n 2] else ?hist) (n 0 - row_Window r) w'"
      using pair_Check_step [OF v Cons.prems(1) _ key clk(2) Cons.prems(5)] Cons.prems(2) clk(1) chk True by auto
    show ?thesis
    proof (cases "admits r m ?hist n")
      case adm: True
      have "spaced r m (acc @ [n])"
        using adm Cons.prems(4) unfolding spaced_snoc
        by (cases "acc = []") (auto simp: admits_def filter_map o_def last_map)
      then have "spaced r m ((acc @ [n]) @ allowedFor key (velRun (pairEngine V r m) calls w'))"
        using step adm clk Cons.prems(5) le
        by (intro Cons.IH [of "acc @ [n]" "n 0 - row_Window r" w' "n 2"]) (auto simp: sorted_append)
      then show ?thesis using step(1) adm chk call True by (auto simp: allowedFor_def)
    next
      case False
      then have "spaced r m (acc @ allowedFor key (velRun (pairEngine V r m) calls w'))"
        using step clk Cons.prems(4,5) le by (intro Cons.IH [of acc "n 0 - row_Window r" w' "n 2"]) auto
      then show ?thesis using step(1) False chk call by (auto simp: allowedFor_def)
    qed
  next
    case False
    then have "log key w' = log key w" using pair_Check_frame [OF v, of key k n w] chk by simp
    then have "spaced r m (acc @ allowedFor key (velRun (pairEngine V r m) calls w'))"
      using knows_frame [OF Cons.prems(1)] clk Cons.prems(2,4,5) le by (intro Cons.IH [of acc c w' "n 2"]) auto
    then show ?thesis using False chk call by (auto simp: allowedFor_def)
  qed
qed

lemma pair_guarantee:
  assumes "validPair r m" "key \<noteq> []" "log key w = []" "clockOk 2 t calls"
  shows "spaced r m (allowedFor key (velRun (pairEngine V r m) calls w))"
  using pair_run [OF assms(1,2), of "[]" "t - row_Window r" w t calls] assms(3,4)
  by (simp add: knows_def)

end

section \<open>A narrow window before a wide one\<close>

text \<open>Counting a window forgets what lies outside it, so a later rule with a wider window sees no more
  than the first one left.\<close>

context velocity_log
begin

lemma second_window_blind:
  assumes r1: "0 < row_N r1" "0 < row_Window r1" "in_i64 (row_Window r1)"
    and r2: "row_N r1 \<le> row_N r2" "0 < row_Window r2" "in_i64 (row_Window r2)"
    and pass: "RateOverWindow_Check r1 c now key V w = (Inr (False, why), w')"
  shows "\<exists>w''. RateOverWindow_Check r2 c' now' key V w' = (Inr (False, []), w'')"
proof -
  obtain w1 where w1: "vs_Count V c now key (row_Window r1) w =
        (Inr (int (length (filter (\<lambda>x. now - row_Window r1 < x) (log key w)))), w1)"
      "log key w1 = filter (\<lambda>x. now - row_Window r1 < x) (log key w)"
    using count_trims [OF r1(2,3), of c now key w] by auto
  with pass r1 have few: "int (length (log key w')) < row_N r1"
    by (auto simp: RateOverWindow_Check_def Let_def split: if_splits)
  obtain w2 where w2: "vs_Count V c' now' key (row_Window r2) w' =
        (Inr (int (length (filter (\<lambda>x. now' - row_Window r2 < x) (log key w')))), w2)"
    using count_trims [OF r2(2,3), of c' now' key w'] by auto
  have "length (filter (\<lambda>x. now' - row_Window r2 < x) (log key w')) \<le> length (log key w')"
    by simp
  then have "int (length (filter (\<lambda>x. now' - row_Window r2 < x) (log key w'))) < row_N r2"
    using few r2(1) by linarith
  with w2 r1 r2 show ?thesis by (auto simp: RateOverWindow_Check_def)
qed

end

section \<open>The built-in rules\<close>

datatype builtinRule = Rate RateOverWindow | Interval MinInterval

fun ruleOf :: "builtinRule \<Rightarrow> 'w velRule" where
  "ruleOf (Rate r) = RateOverWindow_Check r"
| "ruleOf (Interval m) = MinInterval_Check m"

text \<open>A rule never adds to a log; it may drop some of the actions of the key it is asked about.\<close>

lemma ruleOf_memory:
  assumes "ruleOf b c now key vel_memory_Store s = (x, s')"
  shows "(\<exists>P. actionsOf s' key = filter P (actionsOf s key)) \<and> (\<forall>k. k \<noteq> key \<longrightarrow> actionsOf s' k = actionsOf s k)"
proof -
  have "\<exists>P. actionsOf s key = filter P (actionsOf s key)" by (rule exI [of _ "\<lambda>_. True"]) simp
  with assms show ?thesis
    by (cases b) (auto simp: RateOverWindow_Check_def MinInterval_Check_def vel_memory_simps
        split: if_splits sum.splits option.splits)
qed

lemma runRules_memory:
  "runRules (map ruleOf bs) c nows key vel_memory_Store s = (x, s') \<Longrightarrow>
     (\<exists>P. actionsOf s' key = filter P (actionsOf s key)) \<and> (\<forall>k. k \<noteq> key \<longrightarrow> actionsOf s' k = actionsOf s k)"
proof (induction bs arbitrary: nows s)
  case Nil
  then show ?case by (auto intro: exI [of _ "\<lambda>_. True"])
next
  case (Cons b bs)
  obtain y s1 where b: "ruleOf b c (nows 0) key vel_memory_Store s = (y, s1)" by fastforce
  note one = ruleOf_memory [OF b]
  consider "s' = s1" | "runRules (map ruleOf bs) c (\<lambda>i. nows (Suc i)) key vel_memory_Store s1 = (x, s')"
    using Cons.prems b by (auto split: sum.splits prod.splits if_splits)
  then show ?case
  proof cases
    case 1
    with one show ?thesis by simp
  next
    case 2
    from Cons.IH [OF 2] one obtain P Q where "actionsOf s' key = filter P (filter Q (actionsOf s key))" by auto
    then have "actionsOf s' key = filter (\<lambda>x. Q x \<and> P x) (actionsOf s key)" by simp
    with Cons.IH [OF 2] one show ?thesis by auto
  qed
qed

section \<open>Guarantees\<close>



text \<open>A call records its action exactly when it is allowed: whatever list of built-in rules is installed, an
  allowed call appends its own time to the key's log, a refused or failed one appends nothing, and the logs of
  other keys are not touched.\<close>

theorem velocity_memory_records_allowed:
  assumes "velocity_Check (velocity_New vel_memory_Store None (map ruleOf bs)) c nows key s = (x, s')" "bs \<noteq> []"
  shows "(\<exists>P. actionsOf s' key = filter P (actionsOf s key) @
       (if \<exists>why. x = Inr (True, why) then [nows (length bs)] else [])) \<and>
     (\<forall>k. k \<noteq> key \<longrightarrow> actionsOf s' k = actionsOf s k)"
proof (cases "key = []")
  case True
  with assms(1) show ?thesis by (auto simp: velocity_Check_def intro: exI [of _ "\<lambda>_. True"])
next
  case False
  obtain y s1 where r: "runRules (map ruleOf bs) c nows key vel_memory_Store s = (y, s1)" by fastforce
  note log = runRules_memory [OF r]
  show ?thesis
  proof (cases "y = Inr None")
    case True
    then have "x = Inr (True, [])" and "s' = s1\<lparr>actions := (actions s1)(key \<mapsto> actionsOf s1 key @ [nows (length bs)])\<rparr>"
      using assms r False by (auto simp: velocity_Check_def velocity_New_def vel_memory_Store_def vel_memory_Record_def)
    with log show ?thesis by (auto simp: actionsOf_def)
  next
    case no: False
    then have "s' = s1" and "\<forall>why. x \<noteq> Inr (True, why)"
      using assms r False by (auto simp: velocity_Check_def velocity_New_def split: sum.splits option.splits)
    with log show ?thesis by auto
  qed
qed

theorem velocity_memory_records_allowed_witness:
  "\<exists>x s' P. velocity_Check (velocity_New vel_memory_Store None (map ruleOf [Interval \<lparr>mi_Min = 10, mi_Label = []\<rparr>]))
       None (\<lambda>i. 5) ''k'' velocity_NewMemoryStore = (x, s') \<and>
     actionsOf s' ''k'' = filter P (actionsOf velocity_NewMemoryStore ''k'') @ [5]"
proof -
  obtain x s' where x: "velocity_Check (velocity_New vel_memory_Store None (map ruleOf [Interval \<lparr>mi_Min = 10, mi_Label = []\<rparr>]))
       None (\<lambda>i. 5) ''k'' velocity_NewMemoryStore = (x, s')" by fastforce
  then have "x = Inr (True, [])"
    by (simp add: velocity_Check_def velocity_New_def MinInterval_Check_def vel_memory_simps velocity_NewMemoryStore_def)
  with velocity_memory_records_allowed [OF x] x show ?thesis by auto
qed

text \<open>Counting a window throws away the older actions of the key, so once a rule with a narrow window has passed,
  a later rule with a wider window and at least the same bound can never fire, whatever the history of the key.\<close>

theorem velocity_wide_window_blind:
  assumes "0 < row_N r1" "0 < row_Window r1" "in_i64 (row_Window r1)"
    and "row_N r1 \<le> row_N r2" "0 < row_Window r2" "in_i64 (row_Window r2)"
    and "RateOverWindow_Check r1 c now key vel_memory_Store s = (Inr (False, why), s')"
  shows "\<exists>s''. RateOverWindow_Check r2 c' now' key vel_memory_Store s' = (Inr (False, []), s'')"
  by (rule mem_vel.second_window_blind [OF assms])

theorem velocity_wide_window_blind_witness:
  "\<exists>s' s''. RateOverWindow_Check \<lparr>row_N = 2, row_Window = 10, row_Label = []\<rparr> None 200 ''k'' vel_memory_Store
        \<lparr>actions = [''k'' \<mapsto> [100, 120, 140]]\<rparr> = (Inr (False, []), s') \<and>
     RateOverWindow_Check \<lparr>row_N = 2, row_Window = 1000, row_Label = []\<rparr> None 200 ''k'' vel_memory_Store s' =
       (Inr (False, []), s'')"
proof -
  obtain s' where s: "RateOverWindow_Check \<lparr>row_N = 2, row_Window = 10, row_Label = []\<rparr> None 200 ''k'' vel_memory_Store
        \<lparr>actions = [''k'' \<mapsto> [100, 120, 140]]\<rparr> = (Inr (False, []), s')"
    by (simp add: RateOverWindow_Check_def vel_memory_simps dur_neg_def in_i64_def)
  show ?thesis
    using velocity_wide_window_blind [OF _ _ _ _ _ _ s, of "\<lparr>row_N = 2, row_Window = 1000, row_Label = []\<rparr>"] s
    by (simp add: in_i64_def)
qed

end
