(* ===== verification/Guard.thy ===== *)
theory Guard
  imports Ratelimit Idempotency Lock Velocity
begin

text \<open>
  The root package \<^verbatim>\<open>floodguard\<close>: error helpers (\<^verbatim>\<open>errors.go\<close>), velocity keys (\<^verbatim>\<open>velocity_key.go\<close>) and the
  guard that chains the four protections (\<^verbatim>\<open>floodguard.go\<close>). A guard is built over a state \<open>'w\<close> its
  backends act on; \<open>memWorld\<close> is the state of the in-memory backends \<^verbatim>\<open>New\<close> falls back to. The locale
  \<open>guarded\<close> says when an idempotency store stays intact under the other layers.
\<close>

section \<open>Rejections and errors\<close>

definition RejectIPRateLimit :: string where "RejectIPRateLimit = ''ip_rate_limit''"
definition RejectRateLimit :: string where "RejectRateLimit = ''rate_limit''"
definition RejectVelocity :: string where "RejectVelocity = ''velocity''"
definition RejectLocked :: string where "RejectLocked = ''locked''"
definition RejectCached :: string where "RejectCached = ''cached''"

lemmas reject_defs [go_simps] =
  RejectIPRateLimit_def RejectRateLimit_def RejectVelocity_def RejectLocked_def RejectCached_def

definition floodguard_ErrKeyRequired :: go_error where
  "floodguard_ErrKeyRequired = Sentinel ''floodguard: key is required''"

definition ErrDuplicateInFlight :: go_error where
  "ErrDuplicateInFlight = Sentinel ''floodguard: duplicate request in flight''"

definition duplicateInFlightError :: "go_error option \<Rightarrow> go_error" where
  "duplicateInFlightError cause =
     (case cause of None \<Rightarrow> ErrDuplicateInFlight | Some e \<Rightarrow> Wrap2 ErrDuplicateInFlight e)"

definition IsDuplicateInFlight :: "go_error \<Rightarrow> bool" where
  "IsDuplicateInFlight err \<longleftrightarrow> errors_Is err ErrDuplicateInFlight \<or> errors_Is err ErrInFlight"

text \<open>\<^verbatim>\<open>errors.As(err, &rejected)\<close>: the first \<^verbatim>\<open>RejectedError\<close> of the chain.\<close>

fun asRejected :: "go_error \<Rightarrow> (string \<times> bytes) option" where
  "asRejected (RejectedError r c) = Some (r, c)"
| "asRejected (Wrapf p e s) = asRejected e"
| "asRejected (Wrap2 e f) = (case asRejected e of Some x \<Rightarrow> Some x | None \<Rightarrow> asRejected f)"
| "asRejected e = None"

definition IsRejected :: "go_error \<Rightarrow> string \<Rightarrow> bool" where
  "IsRejected err reason =
     (case asRejected err of
        None \<Rightarrow> False
      | Some (r, c) \<Rightarrow> if reason = [] then True else r = reason)"

text \<open>The method \<^verbatim>\<open>Is\<close>, and \<^verbatim>\<open>errors.Is(err, target)\<close> for a target that is a \<^verbatim>\<open>RejectedError\<close>: its type is not comparable, so
  only the methods of the errors in the chain decide.\<close>

definition RejectedError_Is :: "go_error \<Rightarrow> bool" where
  "RejectedError_Is target = (case target of RejectedError _ _ \<Rightarrow> True | _ \<Rightarrow> False)"

fun errors_IsRejected :: "go_error \<Rightarrow> go_error \<Rightarrow> bool" where
  "errors_IsRejected (RejectedError r c) t = RejectedError_Is t"
| "errors_IsRejected (Wrapf p e s) t = errors_IsRejected e t"
| "errors_IsRejected (Wrap2 e f) t = (errors_IsRejected e t \<or> errors_IsRejected f t)"
| "errors_IsRejected e t = False"

definition VelocityKey :: "string \<Rightarrow> string \<Rightarrow> string" where
  "VelocityKey key action = (if action \<noteq> [] then key @ '':'' @ action else key)"

section \<open>Requests, results and the guard\<close>

record Request =
  req_Key :: string
  req_IPKey :: string
  req_IdempotencyKey :: string
  req_Action :: string

record Result =
  res_Allowed :: bool
  res_Reason :: string
  res_CachedResponse :: bytes

definition velocityKey :: "Request \<Rightarrow> string" where
  "velocityKey req = VelocityKey (req_Key req) (req_Action req)"

record 'w guard =
  g_ipRate :: "'w limiter option"
  g_rate :: "'w limiter"
  g_idempotency :: "'w idemManager"
  g_lock :: "'w lockManager"
  g_velocity :: "'w velEngine"

record 'w guardConfig =
  cfg_IPRateLimiter :: "'w limiter option"
  cfg_RateLimiter :: "'w limiter option"
  cfg_IdemStore :: "'w idemStore option"
  cfg_IdemTTL :: duration
  cfg_LockClient :: "'w lockClient option"
  cfg_LockTTL :: duration
  cfg_VelStore :: "'w velStore option"
  cfg_VelRules :: "'w velRule list"

text \<open>The in-memory objects of a process: the default account limiter and the three default stores.\<close>

record 'l memWorld =
  mw_rate :: "'l tokenBucket"
  mw_idem :: idemMemory
  mw_lock :: lockMemory
  mw_vel :: velMemory

definition mw_limiter :: "'l rateLib \<Rightarrow> ('l, 'x) memWorld_scheme limiter" where
  "mw_limiter L c now key = onPart mw_rate (\<lambda>s w. w\<lparr>mw_rate := s\<rparr>) (tokenBucket_Allow L c now key)"

definition mw_idemStore :: "('l, 'x) memWorld_scheme idemStore" where
  "mw_idemStore =
     \<lparr>store_Claim = (\<lambda>c now key d. onPart mw_idem (\<lambda>s w. w\<lparr>mw_idem := s\<rparr>) (idem_memory_Claim c now key d)),
      store_Complete = (\<lambda>c now key b d. onPart mw_idem (\<lambda>s w. w\<lparr>mw_idem := s\<rparr>) (idem_memory_Complete c now key b d))\<rparr>"

definition mw_lockClient :: "('l, 'x) memWorld_scheme lockClient" where
  "mw_lockClient =
     \<lparr>client_Acquire = (\<lambda>c now rnd key d. onPart mw_lock (\<lambda>s w. w\<lparr>mw_lock := s\<rparr>) (lock_memory_Acquire c now rnd key d)),
      client_Release = (\<lambda>h c now. onPart mw_lock (\<lambda>s w. w\<lparr>mw_lock := s\<rparr>) (lock_memory_Release h c now))\<rparr>"

definition mw_velStore :: "('l, 'x) memWorld_scheme velStore" where
  "mw_velStore =
     \<lparr>vs_Record = (\<lambda>c now key ts. onPart mw_vel (\<lambda>s w. w\<lparr>mw_vel := s\<rparr>) (vel_memory_Record c now key ts)),
      vs_Count = (\<lambda>c now key d. onPart mw_vel (\<lambda>s w. w\<lparr>mw_vel := s\<rparr>) (vel_memory_Count c now key d)),
      vs_Last = (\<lambda>c now key. onPart mw_vel (\<lambda>s w. w\<lparr>mw_vel := s\<rparr>) (vel_memory_Last c now key))\<rparr>"

text \<open>\<^verbatim>\<open>New(cfg)\<close> allocates the in-memory object of every backend the configuration leaves nil.\<close>

definition floodguard_New :: "'l rateLib \<Rightarrow> ('l, 'x) memWorld_scheme guardConfig \<Rightarrow> ('l, 'x) memWorld_scheme \<Rightarrow>
    ('l, 'x) memWorld_scheme guard \<times> ('l, 'x) memWorld_scheme" where
  "floodguard_New L cfg w =
     (let w1 = (if cfg_RateLimiter cfg = None then w\<lparr>mw_rate := NewTokenBucket \<lparr>tbc_Rate = 0, tbc_Burst = 0\<rparr>\<rparr> else w);
          w2 = (if cfg_IdemStore cfg = None then w1\<lparr>mw_idem := idempotency_NewMemoryStore\<rparr> else w1);
          w3 = (if cfg_LockClient cfg = None then w2\<lparr>mw_lock := lock_NewMemory\<rparr> else w2);
          w4 = (if cfg_VelStore cfg = None then w3\<lparr>mw_vel := velocity_NewMemoryStore\<rparr> else w3)
      in (\<lparr>g_ipRate = cfg_IPRateLimiter cfg,
           g_rate = (case cfg_RateLimiter cfg of None \<Rightarrow> mw_limiter L | Some r \<Rightarrow> r),
           g_idempotency = idempotency_New mw_idemStore (cfg_IdemStore cfg) (cfg_IdemTTL cfg),
           g_lock = lock_New mw_lockClient (cfg_LockClient cfg) (cfg_LockTTL cfg),
           g_velocity = velocity_New mw_velStore (cfg_VelStore cfg) (cfg_VelRules cfg)\<rparr>, w4))"

definition Guard_IPRateLimiter :: "'w guard \<Rightarrow> 'w limiter option" where
  "Guard_IPRateLimiter g = g_ipRate g"

definition Guard_RateLimiter :: "'w guard \<Rightarrow> 'w limiter" where
  "Guard_RateLimiter g = g_rate g"

definition Guard_Idempotency :: "'w guard \<Rightarrow> 'w idemManager" where
  "Guard_Idempotency g = g_idempotency g"

definition Guard_LockManager :: "'w guard \<Rightarrow> 'w lockManager" where
  "Guard_LockManager g = g_lock g"

definition Guard_Velocity :: "'w guard \<Rightarrow> 'w velEngine" where
  "Guard_Velocity g = g_velocity g"

section \<open>Operations\<close>

definition zeroResult :: Result where
  "zeroResult = \<lparr>res_Allowed = False, res_Reason = [], res_CachedResponse = []\<rparr>"

text \<open>The layers of \<^verbatim>\<open>Protect\<close>; \<open>nows\<close> gives the clock readings of the IP limiter, the account limiter, the
  idempotency store and, from 3 on, the velocity engine.\<close>

definition Protect_velocity :: "'w guard \<Rightarrow> ctx \<Rightarrow> (nat \<Rightarrow> time) \<Rightarrow> Request \<Rightarrow> 'w \<Rightarrow> (go_error + Result) \<times> 'w" where
  "Protect_velocity g c nows req w =
     (case velocity_Check (g_velocity g) c nows (velocityKey req) w of
        (Inl e, w') \<Rightarrow> (Inl (Wrapf ''floodguard: velocity: '' e []), w')
      | (Inr (velOK, why), w') \<Rightarrow>
          if \<not> velOK then (Inr (zeroResult\<lparr>res_Reason := RejectVelocity\<rparr>), w')
          else (Inr (zeroResult\<lparr>res_Allowed := True\<rparr>), w'))"

definition Protect_idempotency :: "'w guard \<Rightarrow> ctx \<Rightarrow> (nat \<Rightarrow> time) \<Rightarrow> Request \<Rightarrow> 'w \<Rightarrow> (go_error + Result) \<times> 'w" where
  "Protect_idempotency g c nows req w =
     (if req_IdempotencyKey req \<noteq> [] then
        (case Begin (g_idempotency g) c (nows 2) (req_IdempotencyKey req) w of
           (Inl e, w') \<Rightarrow>
             if errors_Is e ErrInFlight then (Inl (duplicateInFlightError (Some e)), w')
             else (Inl (Wrapf ''floodguard: idempotency: '' e []), w')
         | (Inr (process, cached), w') \<Rightarrow>
             if cached \<noteq> [] then
               (Inr (zeroResult\<lparr>res_Reason := RejectCached, res_CachedResponse := cached\<rparr>), w')
             else if \<not> process then (Inl (duplicateInFlightError (Some ErrInFlight)), w')
             else Protect_velocity g c (\<lambda>i. nows (3 + i)) req w')
      else Protect_velocity g c (\<lambda>i. nows (3 + i)) req w)"

definition Protect_account :: "'w guard \<Rightarrow> ctx \<Rightarrow> (nat \<Rightarrow> time) \<Rightarrow> Request \<Rightarrow> 'w \<Rightarrow> (go_error + Result) \<times> 'w" where
  "Protect_account g c nows req w =
     (case g_rate g c (nows 1) (req_Key req) w of
        (Inl e, w') \<Rightarrow> (Inl (Wrapf ''floodguard: rate limit: '' e []), w')
      | (Inr allowed, w') \<Rightarrow>
          if \<not> allowed then (Inr (zeroResult\<lparr>res_Reason := RejectRateLimit\<rparr>), w')
          else Protect_idempotency g c nows req w')"

definition Protect :: "'w guard \<Rightarrow> ctx \<Rightarrow> (nat \<Rightarrow> time) \<Rightarrow> Request \<Rightarrow> 'w \<Rightarrow> (go_error + Result) \<times> 'w" where
  "Protect g c nows req w =
     (if req_Key req = [] then (Inl floodguard_ErrKeyRequired, w)
      else
        (case g_ipRate g of
           Some ip \<Rightarrow>
             if req_IPKey req \<noteq> [] then
               (case ip c (nows 0) (req_IPKey req) w of
                  (Inl e, w') \<Rightarrow> (Inl (Wrapf ''floodguard: ip rate limit: '' e []), w')
                | (Inr allowed, w') \<Rightarrow>
                    if \<not> allowed then (Inr (zeroResult\<lparr>res_Reason := RejectIPRateLimit\<rparr>), w')
                    else Protect_account g c nows req w')
             else Protect_account g c nows req w
         | None \<Rightarrow> Protect_account g c nows req w))"

definition CompleteIdempotency :: "'w guard \<Rightarrow> ctx \<Rightarrow> time \<Rightarrow> string \<Rightarrow> bytes \<Rightarrow> 'w \<Rightarrow> go_error option \<times> 'w" where
  "CompleteIdempotency g c now idempotencyKey response w =
     (case idempotency_Complete (g_idempotency g) c now idempotencyKey response w of
        (Some e, w') \<Rightarrow> (Some (Wrapf ''floodguard: complete idempotency: '' e []), w')
      | (None, w') \<Rightarrow> (None, w'))"

definition WithLock :: "'w guard \<Rightarrow> ctx \<Rightarrow> time \<Rightarrow> time \<Rightarrow> go_error + bytes \<Rightarrow> string \<Rightarrow>
    (ctx \<Rightarrow> 'w \<Rightarrow> go_error option outcome \<times> 'w) option \<Rightarrow> 'w \<Rightarrow> go_error option outcome \<times> 'w" where
  "WithLock g c now now' rnd key fn w =
     (case lock_With (g_lock g) c now now' rnd key fn w of
        (Returned (Some e), w') \<Rightarrow> (Returned (Some (Wrapf ''floodguard: with lock: '' e [])), w')
      | (Returned None, w') \<Rightarrow> (Returned None, w')
      | (Panicked p, w') \<Rightarrow> (Panicked p, w'))"

definition TryLock :: "'w guard \<Rightarrow> ctx \<Rightarrow> time \<Rightarrow> go_error + bytes \<Rightarrow> string \<Rightarrow> 'w \<Rightarrow> (go_error + heldLock) \<times> 'w" where
  "TryLock g c now rnd key w =
     (case lock_TryAcquire (g_lock g) c now rnd key w of
        (Inl e, w') \<Rightarrow> (Inl (Wrapf ''floodguard: try lock: '' e []), w')
      | (Inr l, w') \<Rightarrow> (Inr l, w'))"

section \<open>Errors and settings\<close>

text \<open>The two ways to ask for a rejection agree: \<^verbatim>\<open>errors.Is(err, RejectedError{})\<close> and \<^verbatim>\<open>IsRejected(err, "")\<close>.\<close>

lemma IsRejected_agrees: "errors_IsRejected err (RejectedError r c) \<longleftrightarrow> IsRejected err []"
proof -
  have "errors_IsRejected err (RejectedError r c) \<longleftrightarrow> asRejected err \<noteq> None"
    by (induction err) (auto simp: RejectedError_Is_def split: option.splits)
  then show ?thesis by (auto simp: IsRejected_def split: option.splits)
qed

text \<open>What the accessors of a new guard return: the parts of the configuration, and for a zero setting the default.\<close>

lemma New_components:
  assumes "floodguard_New L cfg w = (g, w')"
  shows "Guard_IPRateLimiter g = cfg_IPRateLimiter cfg"
    and "Guard_RateLimiter g = (case cfg_RateLimiter cfg of None \<Rightarrow> mw_limiter L | Some r \<Rightarrow> r)"
    and "im_ttl (Guard_Idempotency g) = (if cfg_IdemTTL cfg \<le> 0 then 24 * hour else cfg_IdemTTL cfg)"
    and "lm_ttl (Guard_LockManager g) = (if cfg_LockTTL cfg \<le> 0 then 30 * second else cfg_LockTTL cfg)"
    and "cfg_VelRules cfg \<noteq> [] \<Longrightarrow> velocity_Rules (Guard_Velocity g) = cfg_VelRules cfg"
    and "cfg_VelStore cfg = Some V \<Longrightarrow> velocity_StoreFor (Guard_Velocity g) = V"
  using assms
  by (auto simp: floodguard_New_def Let_def Guard_IPRateLimiter_def Guard_RateLimiter_def Guard_Idempotency_def Guard_LockManager_def
      Guard_Velocity_def velocity_Rules_def velocity_StoreFor_def idempotency_New_def lock_New_def velocity_New_def)

section \<open>What the guard makes of an idempotency store\<close>

definition allowed :: "go_error + Result \<Rightarrow> bool" where
  "allowed x \<longleftrightarrow> (case x of Inl e \<Rightarrow> False | Inr r \<Rightarrow> res_Allowed r)"

text \<open>The request got past the idempotency layer.\<close>

definition passed :: "go_error + Result \<Rightarrow> bool" where
  "passed x \<longleftrightarrow> (case x of Inl e \<Rightarrow> False | Inr r \<Rightarrow> res_Allowed r \<or> res_Reason r = RejectVelocity)"

text \<open>Requests pass the guard and finished ones are completed, in any order.\<close>

datatype guardEvent =
    EvProtect ctx "nat \<Rightarrow> time" Request
  | EvFinish ctx time string bytes

fun guardTime :: "guardEvent \<Rightarrow> time" where
  "guardTime (EvProtect c nows req) = nows 2"
| "guardTime (EvFinish c now key b) = now"

fun guardStep :: "'w guard \<Rightarrow> guardEvent \<Rightarrow> 'w \<Rightarrow> bool \<times> 'w" where
  "guardStep g (EvProtect c nows req) w = (case Protect g c nows req w of (x, w') \<Rightarrow> (allowed x, w'))"
| "guardStep g (EvFinish c now key b) w = (case CompleteIdempotency g c now key b w of (y, w') \<Rightarrow> (False, w'))"

fun asksFor :: "string \<Rightarrow> guardEvent \<Rightarrow> bool" where
  "asksFor key (EvProtect c nows req) = (req_IdempotencyKey req = key)"
| "asksFor key (EvFinish c now k b) = False"

fun finishes :: "guardEvent \<Rightarrow> bool" where
  "finishes (EvFinish c now k b) = (b \<noteq> [])"
| "finishes (EvProtect c nows req) = True"

fun admissions :: "'w guard \<Rightarrow> string \<Rightarrow> guardEvent list \<Rightarrow> 'w \<Rightarrow> nat" where
  "admissions g key [] w = 0"
| "admissions g key (e # es) w =
     (case guardStep g e w of (ok, w') \<Rightarrow> (if ok \<and> asksFor key e then 1 else 0) + admissions g key es w')"

text \<open>An error of \<^verbatim>\<open>Protect\<close> is never itself a \<^verbatim>\<open>RejectedError\<close>, and an admitted request has no cached response.\<close>

definition plainResult :: "go_error + Result \<Rightarrow> bool" where
  "plainResult x \<longleftrightarrow> (case x of Inl e \<Rightarrow> (\<forall>r c. e \<noteq> RejectedError r c) | Inr r \<Rightarrow> res_Allowed r \<longrightarrow> res_CachedResponse r = [])"

lemma Protect_velocity_result: "plainResult (fst (Protect_velocity g c nows req w))"
  by (auto simp: plainResult_def Protect_velocity_def zeroResult_def split: sum.splits prod.splits)

lemma Protect_idempotency_result: "plainResult (fst (Protect_idempotency g c nows req w))"
proof -
  obtain y v where "Begin (g_idempotency g) c (nows 2) (req_IdempotencyKey req) w = (y, v)" by fastforce
  then show ?thesis
    using Protect_velocity_result [of g c "\<lambda>i. nows (3 + i)" req v] Protect_velocity_result [of g c "\<lambda>i. nows (3 + i)" req w]
    by (cases y) (auto simp: Protect_idempotency_def plainResult_def duplicateInFlightError_def zeroResult_def)
qed

lemma Protect_account_result: "plainResult (fst (Protect_account g c nows req w))"
  using Protect_idempotency_result [of g c nows req "snd (g_rate g c (nows 1) (req_Key req) w)"]
  by (cases "g_rate g c (nows 1) (req_Key req) w")
    (auto simp: Protect_account_def plainResult_def zeroResult_def split: sum.splits)

lemma Protect_result:
  assumes "Protect g c nows req w = (x, w')" shows "plainResult x"
proof -
  have "plainResult (fst (Protect g c nows req w))"
  proof (cases "g_ipRate g")
    case None
    then show ?thesis using Protect_account_result [of g c nows req w]
      by (auto simp: Protect_def plainResult_def floodguard_ErrKeyRequired_def)
  next
    case (Some ip)
    obtain a v where "ip c (nows 0) (req_IPKey req) w = (a, v)" by fastforce
    then show ?thesis
      using Some Protect_account_result [of g c nows req w] Protect_account_result [of g c nows req v]
      by (cases a) (auto simp: Protect_def plainResult_def floodguard_ErrKeyRequired_def zeroResult_def)
  qed
  with assms show ?thesis by simp
qed

text \<open>The contract between the guard and its backends: the store of its idempotency manager keeps
  \<open>idempotency_store\<close>, and no other layer writes to that store.\<close>

locale guarded = idempotency_store S slot slack minTTL
  for S :: "'w idemStore" and slot and slack and minTTL +
  fixes g :: "'w guard"
  assumes guard_store: "im_store (g_idempotency g) = S" "minTTL \<le> im_ttl (g_idempotency g)"
    and rate_keeps: "slot t k (snd (g_rate g c now key w)) = slot t k w"
    and ip_keeps: "g_ipRate g = Some ip \<Longrightarrow> slot t k (snd (ip c now key w)) = slot t k w"
    and vel_keeps: "slot t k (snd (velocity_Check (g_velocity g) c nows key w)) = slot t k w"
    and acquire_keeps: "slot t k (snd (client_Acquire (lm_client (g_lock g)) c now rnd key d w)) = slot t k w"
    and release_keeps: "slot t k (snd (client_Release (lm_client (g_lock g)) h c now w)) = slot t k w"
begin

lemma Protect_velocity_slot: "slot t k (snd (Protect_velocity g c nows req w)) = slot t k w"
  using vel_keeps [of t k c nows "velocityKey req" w]
  by (auto simp: Protect_velocity_def split: sum.splits prod.splits)

text \<open>The idempotency layer of \<^verbatim>\<open>Protect\<close> touches the store with one \<^verbatim>\<open>Begin\<close> and admits only what that
  grants.\<close>

lemma Protect_idempotency_Begin:
  assumes "Protect_idempotency g c nows req w = (x, w')" "req_IdempotencyKey req \<noteq> []"
  shows "\<exists>y v. Begin (g_idempotency g) c (nows 2) (req_IdempotencyKey req) w = (y, v) \<and>
     (\<forall>t k. slot t k w' = slot t k v) \<and> (passed x \<longrightarrow> y = Inr (True, []))"
proof -
  obtain y v where beg: "Begin (g_idempotency g) c (nows 2) (req_IdempotencyKey req) w = (y, v)" by fastforce
  have "slot t k (snd (Protect_velocity g c (\<lambda>i. nows (3 + i)) req v)) = slot t k v" for t k
    by (rule Protect_velocity_slot)
  with assms beg have "(\<forall>t k. slot t k w' = slot t k v) \<and> (passed x \<longrightarrow> y = Inr (True, []))"
    by (auto simp: Protect_idempotency_def passed_def zeroResult_def reject_defs split: sum.splits prod.splits if_splits)
  with beg show ?thesis by blast
qed

text \<open>So does \<^verbatim>\<open>Protect\<close> as a whole: it leaves every key as it was, or runs that \<^verbatim>\<open>Begin\<close> on a state with the same
  keys.\<close>

lemma Protect_account_cases:
  assumes "Protect_account g c nows req w = (x, w')"
  shows "(\<forall>t k. slot t k w' = slot t k w) \<and> (req_IdempotencyKey req \<noteq> [] \<longrightarrow> \<not> passed x) \<or>
     (\<exists>u. (\<forall>t k. slot t k u = slot t k w) \<and> req_IdempotencyKey req \<noteq> [] \<and> Protect_idempotency g c nows req u = (x, w'))"
proof -
  obtain a u where a: "g_rate g c (nows 1) (req_Key req) w = (a, u)" by fastforce
  then have u: "slot t k u = slot t k w" for t k using rate_keeps [of t k c "nows 1" "req_Key req" w] by simp
  show ?thesis
  proof (cases "a = Inr True")
    case True
    then have p: "Protect_idempotency g c nows req u = (x, w')" using assms a by (simp add: Protect_account_def)
    show ?thesis
    proof (cases "req_IdempotencyKey req = []")
      case True
      with p u Protect_velocity_slot [of _ _ c "\<lambda>i. nows (3 + i)" req u] show ?thesis
        by (auto simp: Protect_idempotency_def)
    next
      case False
      with p u show ?thesis by blast
    qed
  next
    case False
    with assms a u show ?thesis
      by (auto simp: Protect_account_def passed_def zeroResult_def reject_defs split: sum.splits)
  qed
qed

lemma Protect_cases:
  assumes "Protect g c nows req w = (x, w')"
  shows "(\<forall>t k. slot t k w' = slot t k w) \<and> (req_IdempotencyKey req \<noteq> [] \<longrightarrow> \<not> passed x) \<or>
     (\<exists>u. (\<forall>t k. slot t k u = slot t k w) \<and> req_IdempotencyKey req \<noteq> [] \<and> Protect_idempotency g c nows req u = (x, w'))"
proof -
  consider "w' = w" "\<not> passed x" | "Protect_account g c nows req w = (x, w')"
    | ip a u where "g_ipRate g = Some ip" "ip c (nows 0) (req_IPKey req) w = (a, u)"
        "w' = u \<and> \<not> passed x \<or> Protect_account g c nows req u = (x, w')"
    using assms by (auto simp: Protect_def passed_def zeroResult_def reject_defs split: if_splits option.splits sum.splits prod.splits)
  then show ?thesis
  proof cases
    case 1
    then show ?thesis by simp
  next
    case 2
    then show ?thesis by (rule Protect_account_cases)
  next
    case (3 ip a u)
    have u: "slot t k u = slot t k w" for t k using ip_keeps [OF 3(1), of t k c "nows 0" "req_IPKey req" w] 3(2) by simp
    from 3(3) show ?thesis
    proof
      assume "w' = u \<and> \<not> passed x"
      with u show ?thesis by simp
    next
      assume "Protect_account g c nows req u = (x, w')"
      from Protect_account_cases [OF this] u show ?thesis by simp
    qed
  qed
qed

lemma Protect_held:
  assumes "Protect g c nows req w = (x, w')" "slot t k w \<noteq> Vacant" "nows 2 \<le> t"
  shows "slot t k w' = slot t k w"
  using Protect_cases [OF assms(1)]
proof
  assume "\<exists>u. (\<forall>t k. slot t k u = slot t k w) \<and> req_IdempotencyKey req \<noteq> [] \<and> Protect_idempotency g c nows req u = (x, w')"
  then obtain u where u: "\<forall>t k. slot t k u = slot t k w" "req_IdempotencyKey req \<noteq> []"
      "Protect_idempotency g c nows req u = (x, w')" by blast
  from Protect_idempotency_Begin [OF u(3,2)] obtain y v where
    "Begin (g_idempotency g) c (nows 2) (req_IdempotencyKey req) u = (y, v)" "slot t k w' = slot t k v" by blast
  with Begin_held [OF guard_store, of c "nows 2" "req_IdempotencyKey req" u y v t k] u(1) assms(2,3) show ?thesis by simp
qed simp

lemma Protect_passed:
  assumes "Protect g c nows req w = (x, w')" "passed x" "req_IdempotencyKey req \<noteq> []"
  shows "slot (nows 2) (req_IdempotencyKey req) w = Vacant \<and>
     (\<forall>t. nows 2 \<le> t \<longrightarrow> t + slack < nows 2 + im_ttl (g_idempotency g) \<longrightarrow> slot t (req_IdempotencyKey req) w' = Claimed)"
proof -
  from Protect_cases [OF assms(1)] assms(2,3) obtain u where u: "\<forall>t k. slot t k u = slot t k w"
      "Protect_idempotency g c nows req u = (x, w')" by blast
  from Protect_idempotency_Begin [OF u(2) assms(3)] assms(2) obtain v where
    "Begin (g_idempotency g) c (nows 2) (req_IdempotencyKey req) u = (Inr (True, []), v)"
    "\<forall>t k. slot t k w' = slot t k v" by blast
  with Begin_claimed [OF guard_store this(1)] u(1) show ?thesis by simp
qed

lemma Protect_allowed:
  assumes "Protect g c nows req w = (x, w')" "allowed x" "req_IdempotencyKey req \<noteq> []"
  shows "slot (nows 2) (req_IdempotencyKey req) w = Vacant \<and>
     heldUntil (nows 2) (nows 2 + im_ttl (g_idempotency g) - slack) (req_IdempotencyKey req) w'"
proof -
  have "passed x" using assms(2) by (auto simp: allowed_def passed_def split: sum.splits)
  from Protect_passed [OF assms(1) this assms(3)] show ?thesis by (simp add: heldUntil_def)
qed

lemma Protect_claimed:
  assumes "Protect g c nows req w = (x, w')" "req_IdempotencyKey req = key" "key \<noteq> []" "slot (nows 2) key w = Claimed"
  shows "(\<exists>e. x = Inl e) \<or> (\<exists>r. x = Inr r \<and> \<not> res_Allowed r \<and> res_Reason r \<in> {RejectRateLimit, RejectIPRateLimit})"
proof -
  have idem: "\<exists>e. fst (Protect_idempotency g c nows req u) = Inl e" if "slot (nows 2) key u = Claimed" for u
    using Begin_Claimed [OF guard_store(1) that, of c] assms(2,3)
    by (auto simp: Protect_idempotency_def split: prod.splits sum.splits)
  have acct: "(\<exists>e. y = Inl e) \<or> (\<exists>r. y = Inr r \<and> \<not> res_Allowed r \<and> res_Reason r = RejectRateLimit)"
    if "slot (nows 2) key u = Claimed" "Protect_account g c nows req u = (y, u')" for u y u'
  proof -
    obtain a v where a: "g_rate g c (nows 1) (req_Key req) u = (a, v)" by fastforce
    then have "slot (nows 2) key v = Claimed" using rate_keeps [of "nows 2" key c "nows 1" "req_Key req" u] that by simp
    with idem [OF this] that(2) a show ?thesis
      by (auto simp: Protect_account_def zeroResult_def split: sum.splits if_splits)
  qed
  show ?thesis
  proof (cases "g_ipRate g")
    case None
    with assms acct [of w x w'] show ?thesis by (auto simp: Protect_def split: if_splits)
  next
    case (Some ip)
    obtain a v where a: "ip c (nows 0) (req_IPKey req) w = (a, v)" by fastforce
    then have "slot (nows 2) key v = Claimed" using ip_keeps [OF Some, of "nows 2" key c "nows 0" "req_IPKey req" w] assms(4) by simp
    with assms acct [of v x w'] acct [of w x w'] Some a show ?thesis
      by (auto simp: Protect_def zeroResult_def split: if_splits sum.splits)
  qed
qed

lemma Complete_guard: "CompleteIdempotency g c now key b w = (y, w') \<Longrightarrow>
    \<exists>z. idempotency_Complete (g_idempotency g) c now key b w = (z, w')"
  by (auto simp: CompleteIdempotency_def split: option.splits prod.splits)

lemma guardStep_held:
  assumes "heldUntil now h key w" "now \<le> guardTime e" "h + slack \<le> guardTime e + im_ttl (g_idempotency g)"
    and "finishes e" "guardStep g e w = (ok, w')"
  shows "heldUntil (guardTime e) h key w'"
  unfolding heldUntil_def
proof (intro allI impI)
  fix t assume t: "guardTime e \<le> t" "t < h"
  with assms(1,2) have held: "slot t key w \<noteq> Vacant" by (auto simp: heldUntil_def)
  show "slot t key w' \<noteq> Vacant"
  proof (cases e)
    case (EvProtect c nows req)
    with assms(5) Protect_held [of c nows req w _ w' t key] held t show ?thesis by (auto split: prod.splits)
  next
    case (EvFinish c n k b)
    with assms(5) obtain z where "idempotency_Complete (g_idempotency g) c n k b w = (z, w')"
      by (auto split: prod.splits dest: Complete_guard)
    with Complete_held [OF guard_store this held] EvFinish assms(3,4) t show ?thesis by simp
  qed
qed

lemma admissions_held:
  "heldUntil now h key w \<Longrightarrow> key \<noteq> [] \<Longrightarrow> sorted (now # map guardTime es) \<Longrightarrow>
     (\<forall>e \<in> set es. guardTime e < h \<and> finishes e) \<Longrightarrow> h + slack \<le> now + im_ttl (g_idempotency g) \<Longrightarrow>
     admissions g key es w = 0"
proof (induction es arbitrary: now w)
  case (Cons e es)
  obtain ok w' where step: "guardStep g e w = (ok, w')" by fastforce
  have "heldUntil (guardTime e) h key w'" using guardStep_held [OF Cons.prems(1) _ _ _ step] Cons.prems by auto
  then have "admissions g key es w' = 0" using Cons.prems by (intro Cons.IH [of "guardTime e"]) auto
  moreover have "\<not> (ok \<and> asksFor key e)"
    using step Cons.prems Protect_allowed by (cases e) (fastforce simp: heldUntil_def split: prod.splits)+
  ultimately show ?case using step by auto
qed simp

lemma at_most_one_admission:
  "key \<noteq> [] \<Longrightarrow> sorted (map guardTime es) \<Longrightarrow>
     \<forall>e \<in> set es. t0 \<le> guardTime e \<and> guardTime e + slack < t0 + im_ttl (g_idempotency g) \<and> finishes e \<Longrightarrow>
     admissions g key es w \<le> 1"
proof (induction es arbitrary: w)
  case (Cons e es)
  obtain ok w' where step: "guardStep g e w = (ok, w')" by fastforce
  have IH: "admissions g key es w' \<le> 1" using Cons by simp
  show ?case
  proof (cases "ok \<and> asksFor key e")
    case True
    with step obtain c nows req x where e: "e = EvProtect c nows req" "Protect g c nows req w = (x, w')" "allowed x"
        "req_IdempotencyKey req = key" by (cases e) (auto split: prod.splits)
    have "heldUntil (nows 2) (t0 + im_ttl (g_idempotency g) - slack) key w'"
      using Protect_allowed [OF e(2,3)] Cons.prems e by (auto simp: heldUntil_def)
    then have "admissions g key es w' = 0"
      using Cons.prems e(1) by (intro admissions_held [of "nows 2" "t0 + im_ttl (g_idempotency g) - slack"]) auto
    with step show ?thesis by simp
  next
    case False
    with step IH show ?thesis by auto
  qed
qed simp

end

section \<open>The in-memory guard\<close>

text \<open>The guard \<^verbatim>\<open>New\<close> builds when the configuration names no backend, with built-in velocity rules.\<close>

definition memConfig :: "duration \<Rightarrow> duration \<Rightarrow> builtinRule list \<Rightarrow> ('l, 'x) memWorld_scheme guardConfig" where
  "memConfig idemTTL lockTTL bs =
     \<lparr>cfg_IPRateLimiter = None, cfg_RateLimiter = None, cfg_IdemStore = None, cfg_IdemTTL = idemTTL,
      cfg_LockClient = None, cfg_LockTTL = lockTTL, cfg_VelStore = None, cfg_VelRules = map ruleOf bs\<rparr>"

definition memGuard :: "'l rateLib \<Rightarrow> duration \<Rightarrow> duration \<Rightarrow> builtinRule list \<Rightarrow> ('l, 'x) memWorld_scheme guard" where
  "memGuard L idemTTL lockTTL bs =
     \<lparr>g_ipRate = None, g_rate = mw_limiter L, g_idempotency = idempotency_New mw_idemStore None idemTTL,
      g_lock = lock_New mw_lockClient None lockTTL, g_velocity = velocity_New mw_velStore None (map ruleOf bs)\<rparr>"

lemma New_memGuard: "fst (floodguard_New L (memConfig idemTTL lockTTL bs) w) = memGuard L idemTTL lockTTL bs"
  by (simp add: floodguard_New_def memConfig_def memGuard_def Let_def)

definition mw_slot :: "time \<Rightarrow> string \<Rightarrow> ('l, 'x) memWorld_scheme \<Rightarrow> slot" where
  "mw_slot t k w = memorySlot t k (mw_idem w)"

lemma onPart_snd: "snd (onPart get put f w) = put (snd (f (get w))) w"
  by (simp add: onPart_def case_prod_unfold)

lemmas mw_simps [store_simps] =
  mw_limiter_def mw_idemStore_def mw_lockClient_def mw_velStore_def mw_slot_def onPart_def

text \<open>Each backend works on its own part of the world.\<close>

lemma mw_limiter_keeps:
  "mw_idem (snd (mw_limiter L c now key w)) = mw_idem w"
  "mw_lock (snd (mw_limiter L c now key w)) = mw_lock w"
  "mw_vel (snd (mw_limiter L c now key w)) = mw_vel w"
  by (simp_all add: mw_limiter_def onPart_snd)

lemma mw_rule_keeps:
  assumes "ruleOf b c now key mw_velStore w = (x, w')"
  shows "mw_idem w' = mw_idem w \<and> mw_lock w' = mw_lock w"
  using assms
  by (cases b) (auto simp: RateOverWindow_Check_def MinInterval_Check_def mw_velStore_def onPart_def Let_def
      split: if_splits sum.splits option.splits prod.splits)

lemma mw_rule_error:
  assumes "ruleOf b c now key mw_velStore w = (Inl e, w')"
  shows "\<exists>m. e = Wrapf [] velocity_ErrInvalidRule m"
  using assms
  by (cases b) (auto simp: RateOverWindow_Check_def MinInterval_Check_def mw_velStore_def vel_memory_simps
      vel_memory_Count_def onPart_def split: if_splits sum.splits option.splits prod.splits)

lemma mw_rules:
  "runRules (map ruleOf bs) c nows key mw_velStore w = (x, w') \<Longrightarrow>
     mw_idem w' = mw_idem w \<and> mw_lock w' = mw_lock w \<and>
     (\<forall>e. x = Inl e \<longrightarrow> (\<exists>m. e = Wrapf ''velocity: rule check: '' (Wrapf [] velocity_ErrInvalidRule m) []))"
proof (induction bs arbitrary: nows w)
  case (Cons b bs)
  obtain y w1 where b: "ruleOf b c (nows 0) key mw_velStore w = (y, w1)" by fastforce
  show ?case
  proof (cases y)
    case (Inl e)
    with Cons.prems b mw_rule_keeps [OF b] mw_rule_error [OF b [unfolded Inl]] show ?thesis by auto
  next
    case (Inr p)
    with Cons.prems b mw_rule_keeps [OF b] Cons.IH [of "\<lambda>i. nows (Suc i)" w1] show ?thesis
      by (auto split: prod.splits if_splits)
  qed
qed auto

lemma mw_Record:
  "vs_Record mw_velStore c now key ts w = (y, w') \<Longrightarrow> mw_idem w' = mw_idem w \<and> mw_lock w' = mw_lock w \<and> y = None"
  by (auto simp: mw_velStore_def vel_memory_Record_def onPart_def)

lemma velocity_New_builtin:
  "\<exists>cs. velocity_New dflt None (map ruleOf bs) = \<lparr>ve_store = dflt, ve_rules = map ruleOf cs\<rparr>"
proof (cases "bs = []")
  case True
  then show ?thesis
    by (intro exI [of _ "[Rate \<lparr>row_N = 20, row_Window = minute, row_Label = []\<rparr>]"]) (simp add: velocity_New_def)
next
  case False
  then show ?thesis by (intro exI [of _ bs]) (simp add: velocity_New_def)
qed

lemma mw_velocity:
  fixes w :: "('l, 'x) memWorld_scheme"
  assumes "velocity_Check (velocity_New mw_velStore None (map ruleOf bs)) c nows key w = (x, w')"
  shows "mw_idem w' = mw_idem w \<and> mw_lock w' = mw_lock w \<and>
     (\<forall>e. x = Inl e \<longrightarrow> \<not> IsDuplicateInFlight e)"
proof -
  obtain cs where cs: "velocity_New mw_velStore None (map ruleOf bs) =
      \<lparr>ve_store = mw_velStore :: ('l, 'x) memWorld_scheme velStore, ve_rules = map ruleOf cs\<rparr>"
    using velocity_New_builtin by blast
  obtain y w1 where r: "runRules (map ruleOf cs) c nows key mw_velStore w = (y, w1)" by fastforce
  obtain z w2 where rec: "vs_Record mw_velStore c (nows (length cs)) key (nows (length cs)) w1 = (z, w2)" by fastforce
  note facts = mw_rules [OF r] mw_Record [OF rec]
  show ?thesis
  proof (cases "key = []")
    case True
    with assms show ?thesis
      by (auto simp: velocity_Check_def IsDuplicateInFlight_def ErrDuplicateInFlight_def ErrInFlight_def
          velocity_ErrKeyRequired_def)
  next
    case False
    then have "y = Inr None \<and> w' = w2 \<and> x = Inr (True, []) \<or> w' = w1 \<and> (\<forall>e. x = Inl e \<longrightarrow> y = Inl e)"
      using assms r rec facts unfolding cs by (auto simp: velocity_Check_def split: sum.splits option.splits)
    with facts show ?thesis
      by (fastforce simp: IsDuplicateInFlight_def ErrDuplicateInFlight_def ErrInFlight_def velocity_ErrInvalidRule_def)
  qed
qed

interpretation mem_guard: guarded mw_idemStore mw_slot 0 1 "memGuard L idemTTL lockTTL bs"
  for L :: "'l rateLib" and idemTTL lockTTL bs
proof -
  have store: "idempotency_store (mw_idemStore :: ('l, 'x) memWorld_scheme idemStore) mw_slot 0 1"
    by unfold_locales (auto simp: mw_simps idem_memory_simps zeroClaim_def split: if_splits option.splits)
  have vel: "mw_slot t k (snd (velocity_Check (velocity_New mw_velStore None (map ruleOf bs)) c nows key w)) = mw_slot t k w"
    for t k c nows key and w :: "('l, 'x) memWorld_scheme"
    using mw_velocity [of bs c nows key w] by (metis mw_slot_def prod.collapse)
  show "guarded mw_idemStore mw_slot 0 1 (memGuard L idemTTL lockTTL bs :: ('l, 'x) memWorld_scheme guard)"
    by (simp add: store vel [unfolded mw_slot_def] guarded_def guarded_axioms_def memGuard_def idempotency_New_def hour_def lock_New_def mw_limiter_keeps
        mw_slot_def mw_lockClient_def onPart_snd)
qed

lemma mw_Begin:
  "Begin (idempotency_New mw_idemStore None d) c now key w = (y, v) \<Longrightarrow> mw_vel v = mw_vel w \<and> mw_lock v = mw_lock w"
  by (auto simp: Begin_def idempotency_New_def mw_idemStore_def onPart_def split: if_splits sum.splits prod.splits)

lemma mw_Protect_velocity:
  assumes "Protect_velocity (memGuard L idemTTL lockTTL bs) c nows req w = (x, w')"
  shows "mw_idem w' = mw_idem w \<and> mw_lock w' = mw_lock w \<and>
     (case x of Inl e \<Rightarrow> \<not> IsDuplicateInFlight e | Inr r \<Rightarrow> res_Reason r = (if res_Allowed r then [] else RejectVelocity))"
proof -
  obtain y v where chk: "velocity_Check (velocity_New mw_velStore None (map ruleOf bs)) c nows (velocityKey req) w = (y, v)"
    by fastforce
  with assms mw_velocity [OF chk] show ?thesis
    by (auto simp: Protect_velocity_def memGuard_def zeroResult_def IsDuplicateInFlight_def ErrDuplicateInFlight_def
        ErrInFlight_def split: sum.splits prod.splits if_splits)
qed

lemma mw_Protect_idempotency:
  assumes "Protect_idempotency (memGuard L idemTTL lockTTL bs) c nows req w = (x, w')"
  shows "mw_lock w' = mw_lock w \<and> (\<forall>r. x = Inr r \<longrightarrow> res_Reason r \<noteq> RejectRateLimit) \<and>
     ((\<exists>r. x = Inr r \<and> res_Reason r = RejectCached) \<or> (\<exists>e. x = Inl e \<and> IsDuplicateInFlight e) \<longrightarrow> mw_vel w' = mw_vel w)"
proof -
  obtain y v where beg: "Begin (idempotency_New mw_idemStore None idemTTL) c (nows 2) (req_IdempotencyKey req) w = (y, v)"
    by fastforce
  consider "Protect_velocity (memGuard L idemTTL lockTTL bs) c (\<lambda>i. nows (3 + i)) req v = (x, w')"
    | "Protect_velocity (memGuard L idemTTL lockTTL bs) c (\<lambda>i. nows (3 + i)) req w = (x, w')"
    | "w' = v" "\<forall>r. x = Inr r \<longrightarrow> res_Reason r = RejectCached"
    using assms beg
    by (auto simp: Protect_idempotency_def memGuard_def zeroResult_def split: sum.splits prod.splits if_splits)
  then show ?thesis
  proof cases
    case 1
    from mw_Protect_velocity [OF 1] mw_Begin [OF beg] show ?thesis by (cases x) (auto simp: reject_defs)
  next
    case 2
    from mw_Protect_velocity [OF 2] show ?thesis by (cases x) (auto simp: reject_defs)
  next
    case 3
    with mw_Begin [OF beg] show ?thesis by (auto simp: reject_defs)
  qed
qed

section \<open>Guarantees\<close>


definition memStart :: "'l tokenBucket \<Rightarrow> 'l memWorld" where
  "memStart tb =
     \<lparr>mw_rate = tb, mw_idem = idempotency_NewMemoryStore, mw_lock = lock_NewMemory, mw_vel = velocity_NewMemoryStore\<rparr>"

definition demoRequest :: Request where
  "demoRequest = \<lparr>req_Key = ''acct'', req_IPKey = [], req_IdempotencyKey = ''k'', req_Action = ''withdraw''\<rparr>"


text \<open>The layers run in the documented order, and a layer that stops a request keeps the later ones from seeing
  it: a request over the account limit leaves the idempotency store and the action log alone, a replayed or
  duplicate request leaves the action log alone, and \<^verbatim>\<open>Protect\<close> never touches a lock.\<close>

theorem Protect_layer_order:
  assumes "g = fst (floodguard_New L (memConfig idemTTL lockTTL bs) w0)" "Protect g c nows req w = (x, w')"
  shows "mw_lock w' = mw_lock w \<and>
     ((\<exists>r. x = Inr r \<and> res_Reason r = RejectRateLimit) \<longrightarrow> mw_idem w' = mw_idem w \<and> mw_vel w' = mw_vel w) \<and>
     ((\<exists>r. x = Inr r \<and> res_Reason r = RejectCached) \<or> (\<exists>e. x = Inl e \<and> IsDuplicateInFlight e) \<longrightarrow> mw_vel w' = mw_vel w)"
proof (cases "req_Key req = []")
  case True
  with assms(2) show ?thesis by (auto simp: Protect_def)
next
  case False
  have g: "g = memGuard L idemTTL lockTTL bs" using assms(1) by (simp add: New_memGuard)
  obtain a w1 where rate: "mw_limiter L c (nows 1) (req_Key req) w = (a, w1)" by fastforce
  note keep = mw_limiter_keeps [of L c "nows 1" "req_Key req" w, unfolded rate snd_conv]
  show ?thesis
  proof (cases "a = Inr True")
    case False
    with assms(2) g rate \<open>req_Key req \<noteq> []\<close> keep show ?thesis
      by (auto simp: Protect_def Protect_account_def memGuard_def zeroResult_def split: sum.splits)
  next
    case True
    with assms(2) g rate \<open>req_Key req \<noteq> []\<close> have p: "Protect_idempotency g c nows req w1 = (x, w')"
      by (simp add: Protect_def Protect_account_def memGuard_def)
    from p mw_Protect_idempotency [of L idemTTL lockTTL bs c nows req w1 x w'] g keep show ?thesis by auto
  qed
qed

theorem Protect_layer_order_witness:
  "\<exists>x w'. Protect (fst (floodguard_New refRate (memConfig 0 0 []) (memStart (NewTokenBucket \<lparr>tbc_Rate = 0, tbc_Burst = 0\<rparr>))))
       None (\<lambda>i. 5) demoRequest (memStart (NewTokenBucket \<lparr>tbc_Rate = 0, tbc_Burst = 0\<rparr>)) = (x, w') \<and>
     mw_lock w' = lock_NewMemory"
proof -
  obtain x w' where p: "Protect (fst (floodguard_New refRate (memConfig 0 0 []) (memStart (NewTokenBucket \<lparr>tbc_Rate = 0, tbc_Burst = 0\<rparr>))))
       None (\<lambda>i. 5) demoRequest (memStart (NewTokenBucket \<lparr>tbc_Rate = 0, tbc_Burst = 0\<rparr>)) = (x, w')" by fastforce
  with Protect_layer_order [OF refl p] show ?thesis by (simp add: memStart_def)
qed

text \<open>A claim outlives the request that made it. When \<^verbatim>\<open>Protect\<close> has claimed an idempotency key and a velocity rule
  then refuses the request, nothing gives the claim back: until the TTL is over every retry with that key that
  the account limit lets through fails as a duplicate in flight, although no request is running.\<close>

theorem Protect_velocity_reject_keeps_claim:
  assumes "g = fst (floodguard_New L (memConfig idemTTL lockTTL bs) w0)"
    and "Protect g c nows req w = (Inr r, w')" "res_Reason r = RejectVelocity" "req_IdempotencyKey req = key" "key \<noteq> []"
    and "req_IdempotencyKey req' = key" "nows 2 \<le> nows' 2" "nows' 2 < nows 2 + im_ttl (g_idempotency g)"
    and "Protect g c' nows' req' w' = (x, w'')"
  shows "(\<exists>e. x = Inl e) \<or> (\<exists>r'. x = Inr r' \<and> \<not> res_Allowed r' \<and> res_Reason r' \<in> {RejectRateLimit, RejectIPRateLimit})"
proof -
  have g: "g = memGuard L idemTTL lockTTL bs" using assms(1) by (simp add: New_memGuard)
  have "mw_slot (nows' 2) key w' = Claimed"
    using mem_guard.Protect_passed [OF assms(2) [unfolded g]] assms(3-8) g by (simp add: passed_def)
  then show ?thesis using mem_guard.Protect_claimed [OF assms(9) [unfolded g] assms(6,5)] by simp
qed

text \<open>A guard with a minimum interval, and a world in which the account has just acted.\<close>

definition demoRules :: "builtinRule list" where
  "demoRules = [Interval \<lparr>mi_Min = 10, mi_Label = []\<rparr>]"

definition demoWorld :: "refBucket memWorld" where
  "demoWorld = (memStart (NewTokenBucket \<lparr>tbc_Rate = 0, tbc_Burst = 0\<rparr>))\<lparr>mw_vel := \<lparr>actions = [''acct:withdraw'' \<mapsto> [4]]\<rparr>\<rparr>"

lemmas demo_simps = demoRules_def demoWorld_def demoRequest_def memStart_def NewTokenBucket_def
  TokenBucketConfig_withDefaults_def idempotency_NewMemoryStore_def lock_NewMemory_def velocity_NewMemoryStore_def

lemmas Protect_simps = Protect_def Protect_account_def Protect_idempotency_def Protect_velocity_def memGuard_def
  tokenBucket_Allow_def tokenBucket_limiter_def refRate_def refTokens_def Begin_def idempotency_New_def
  idem_memory_Claim_def zeroClaim_def velocity_Check_def velocity_New_def velocityKey_def VelocityKey_def MinInterval_Check_def
  vel_memory_Last_def actionsOf_def zeroResult_def mw_limiter_def mw_idemStore_def mw_velStore_def onPart_def

lemma demo_rejected:
  "\<exists>r w'. Protect (memGuard refRate 0 0 demoRules) None (\<lambda>i. 5) demoRequest demoWorld = (Inr r, w') \<and>
     res_Reason r = RejectVelocity"
  by (simp add: Protect_simps demo_simps time_Sub_def minInt64_def maxInt64_def hour_def Let_def)

theorem Protect_velocity_reject_keeps_claim_witness:
  "\<exists>r w' x w''. Protect (fst (floodguard_New refRate (memConfig 0 0 demoRules) demoWorld)) None (\<lambda>i. 5) demoRequest demoWorld
       = (Inr r, w') \<and> res_Reason r = RejectVelocity \<and>
     Protect (fst (floodguard_New refRate (memConfig 0 0 demoRules) demoWorld)) None (\<lambda>i. 500) demoRequest w' = (x, w'') \<and>
     ((\<exists>e. x = Inl e) \<or> (\<exists>r'. x = Inr r' \<and> \<not> res_Allowed r' \<and> res_Reason r' \<in> {RejectRateLimit, RejectIPRateLimit}))"
proof -
  let ?g = "fst (floodguard_New refRate (memConfig 0 0 demoRules) demoWorld)"
  obtain r w' where p: "Protect ?g None (\<lambda>i. 5) demoRequest demoWorld = (Inr r, w')" "res_Reason r = RejectVelocity"
    using demo_rejected by (auto simp: New_memGuard)
  obtain x w'' where q: "Protect ?g None (\<lambda>i. 500) demoRequest w' = (x, w'')" by fastforce
  have ttl: "im_ttl (g_idempotency ?g) = 24 * hour" by (simp add: New_memGuard memGuard_def idempotency_New_def)
  have "(\<exists>e. x = Inl e) \<or> (\<exists>r'. x = Inr r' \<and> \<not> res_Allowed r' \<and> res_Reason r' \<in> {RejectRateLimit, RejectIPRateLimit})"
    by (rule Protect_velocity_reject_keeps_claim [OF refl p refl _ refl _ _ q]) (simp_all add: demoRequest_def ttl hour_def)
  with p q show ?thesis by blast
qed

end
