(* ===== verification/Http.thy ===== *)
theory Http
  imports Prelude
begin

text \<open>
  The part of \<^verbatim>\<open>net/http\<close>, \<^verbatim>\<open>net\<close> and \<^verbatim>\<open>encoding/json\<close> the middlewares and handlers use: requests with canonical
  header names, what a handler does to its \<^verbatim>\<open>ResponseWriter\<close>, the response that comes of it, JSON objects as the
  encoder writes them, and \<^verbatim>\<open>http.Error\<close>.

  A handler is a function of the request and the state of the world. It gives the list of actions it performs on
  the writer, whether it returned or panicked, and the new world. No code of the repository reads anything back
  from a writer, so wrapping a writer is a function on such lists.
\<close>

section \<open>Requests\<close>

datatype httpBody = NoBody | Body bytes "go_error option" \<comment> \<open>the bytes that can be read, and the error after them\<close>

record httpRequest =
  rq_headers :: "(string \<times> string) list"
  rq_RemoteAddr :: string
  rq_body :: httpBody
  rq_ctx :: ctx
  rq_velocityFlag :: bool \<comment> \<open>the context value under \<open>velocityFlagKey\<close>\<close>

definition isLowerAZ :: "char \<Rightarrow> bool" where
  "isLowerAZ c \<longleftrightarrow> 97 \<le> (of_char c :: nat) \<and> (of_char c :: nat) \<le> 122"

definition isUpperAZ :: "char \<Rightarrow> bool" where
  "isUpperAZ c \<longleftrightarrow> 65 \<le> (of_char c :: nat) \<and> (of_char c :: nat) \<le> 90"

text \<open>\<^verbatim>\<open>textproto.CanonicalMIMEHeaderKey\<close> on a valid header name.\<close>

fun canonicalFrom :: "bool \<Rightarrow> string \<Rightarrow> string" where
  "canonicalFrom upper [] = []"
| "canonicalFrom upper (c # cs) =
     (if upper \<and> isLowerAZ c then char_of (of_char c - (32::nat))
      else if \<not> upper \<and> isUpperAZ c then char_of (of_char c + (32::nat)) else c)
     # canonicalFrom (c = CHR ''-'') cs"

definition CanonicalHeaderKey :: "string \<Rightarrow> string" where
  "CanonicalHeaderKey = canonicalFrom True"

text \<open>\<^verbatim>\<open>r.Header.Get(key)\<close>: the first value under the canonical name, or the empty string.\<close>

definition header_Get :: "httpRequest \<Rightarrow> string \<Rightarrow> string" where
  "header_Get r key = (case map_of (rq_headers r) (CanonicalHeaderKey key) of None \<Rightarrow> [] | Some v \<Rightarrow> v)"

definition UserAgent :: "httpRequest \<Rightarrow> string" where
  "UserAgent r = header_Get r ''User-Agent''"

text \<open>\<^verbatim>\<open>net.SplitHostPort\<close>, of which only the host and success are used.\<close>

fun index :: "char \<Rightarrow> string \<Rightarrow> nat option" where
  "index c [] = None"
| "index c (x # xs) = (if x = c then Some 0 else map_option Suc (index c xs))"

definition lastIndex :: "char \<Rightarrow> string \<Rightarrow> nat option" where
  "lastIndex c s = map_option (\<lambda>n. length s - 1 - n) (index c (rev s))"

definition SplitHostPort :: "string \<Rightarrow> string option" where
  "SplitHostPort hostport =
     (case lastIndex (CHR '':'') hostport of
        None \<Rightarrow> None
      | Some i \<Rightarrow>
          let bracket = (hd hostport = CHR ''['');
              parsed =
                (if bracket then
                   (case index (CHR '']'') hostport of
                      None \<Rightarrow> None
                    | Some e \<Rightarrow> if e + 1 = i then Some (take (e - 1) (drop 1 hostport), 1, e + 1) else None)
                 else if CHR '':'' \<in> set (take i hostport) then None
                 else Some (take i hostport, 0, 0))
          in (case parsed of
                None \<Rightarrow> None
              | Some (host, j, k) \<Rightarrow>
                  if CHR ''['' \<in> set (drop j hostport) then None
                  else if CHR '']'' \<in> set (drop k hostport) then None
                  else Some host))"

section \<open>Responses\<close>

datatype rw_act = SetHeader string string | WriteHeader int | Write bytes

record response =
  rp_header :: "string \<rightharpoonup> string"
  rp_sent :: "(int \<times> (string \<rightharpoonup> string)) option" \<comment> \<open>status and headers, once sent\<close>
  rp_body :: bytes

definition noResponse :: response where
  "noResponse = \<lparr>rp_header = Map.empty, rp_sent = None, rp_body = []\<rparr>"

text \<open>The first \<^verbatim>\<open>WriteHeader\<close> sends the headers set so far, later ones are ignored; a \<^verbatim>\<open>Write\<close> before it sends
  status 200.\<close>

definition sendHeader :: "int \<Rightarrow> response \<Rightarrow> response" where
  "sendHeader status p = (case rp_sent p of None \<Rightarrow> p\<lparr>rp_sent := Some (status, rp_header p)\<rparr> | Some _ \<Rightarrow> p)"

fun perform :: "rw_act \<Rightarrow> response \<Rightarrow> response" where
  "perform (SetHeader k v) p = p\<lparr>rp_header := (rp_header p)(CanonicalHeaderKey k \<mapsto> v)\<rparr>"
| "perform (WriteHeader status) p = sendHeader status p"
| "perform (Write b) p = (let p' = sendHeader 200 p in p'\<lparr>rp_body := rp_body p' @ b\<rparr>)"

text \<open>The response of a handler that performs \<open>acts\<close> and returns: the server sends status 200 if nothing did.\<close>

definition respond :: "rw_act list \<Rightarrow> response" where
  "respond acts = sendHeader 200 (fold perform acts noResponse)"

definition rp_status :: "response \<Rightarrow> int" where
  "rp_status p = (case rp_sent p of None \<Rightarrow> 200 | Some (status, _) \<Rightarrow> status)"

type_synonym 'w handler = "httpRequest \<Rightarrow> 'w \<Rightarrow> rw_act list \<times> unit outcome \<times> 'w"

section \<open>JSON as the encoder writes it\<close>

text \<open>The number of bytes of the valid UTF-8 sequence the string starts with, 0 when it starts with none.\<close>

definition byteIn :: "nat \<Rightarrow> nat \<Rightarrow> char \<Rightarrow> bool" where
  "byteIn lo hi c \<longleftrightarrow> lo \<le> of_char c \<and> of_char c \<le> hi"

definition cont :: "char \<Rightarrow> bool" where
  "cont = byteIn 128 191"

fun utf8Len :: "string \<Rightarrow> nat" where
  "utf8Len [] = 0"
| "utf8Len (a # s) =
     (if byteIn 0 127 a then 1
      else if byteIn 194 223 a then (case s of b # _ \<Rightarrow> if cont b then 2 else 0 | [] \<Rightarrow> 0)
      else if byteIn 224 239 a then
        (case s of
           b # c # _ \<Rightarrow>
             if cont b \<and> cont c \<and> (of_char a = (224::nat) \<longrightarrow> byteIn 160 191 b) \<and>
                (of_char a = (237::nat) \<longrightarrow> byteIn 128 159 b) then 3 else 0
         | _ \<Rightarrow> 0)
      else if byteIn 240 244 a then
        (case s of
           b # c # d # _ \<Rightarrow>
             if cont b \<and> cont c \<and> cont d \<and> (of_char a = (240::nat) \<longrightarrow> byteIn 144 191 b) \<and>
                (of_char a = (244::nat) \<longrightarrow> byteIn 128 143 b) then 4 else 0
         | _ \<Rightarrow> 0)
      else 0)"

lemma utf8Len_le: "utf8Len s \<le> length s"
  by (cases s) (auto split: list.splits)

text \<open>A byte below 128 inside a JSON string, HTML characters escaped.\<close>

definition escapeAscii :: "char \<Rightarrow> string" where
  "escapeAscii c =
     (let n = of_char c :: nat in
      if n = 34 \<or> n = 92 then [char_of (92::nat), c]
      else if n = 8 then [char_of (92::nat)] @ ''b''
      else if n = 12 then [char_of (92::nat)] @ ''f''
      else if n = 10 then [char_of (92::nat)] @ ''n''
      else if n = 13 then [char_of (92::nat)] @ ''r''
      else if n = 9 then [char_of (92::nat)] @ ''t''
      else if n < 32 \<or> n = 38 \<or> n = 60 \<or> n = 62 then [char_of (92::nat)] @ ''u00'' @ hexByte c
      else [c])"

function jsonEscape :: "string \<Rightarrow> string" where
  "jsonEscape s =
     (if s = [] then []
      else
        let n = utf8Len s in
        if n = 0 then [char_of (92::nat)] @ ''ufffd'' @ jsonEscape (drop 1 s)
        else if n = 1 then escapeAscii (hd s) @ jsonEscape (drop 1 s)
        else if take n s = map char_of [226, 128, 168 :: nat] then [char_of (92::nat)] @ ''u2028'' @ jsonEscape (drop n s)
        else if take n s = map char_of [226, 128, 169 :: nat] then [char_of (92::nat)] @ ''u2029'' @ jsonEscape (drop n s)
        else take n s @ jsonEscape (drop n s))"
  by auto
termination by (relation "measure length") auto

declare jsonEscape.simps [simp del]

datatype jval = JStr string | JNum int

fun jsonValue :: "jval \<Rightarrow> bytes" where
  "jsonValue (JStr s) = [char_of (34::nat)] @ jsonEscape s @ [char_of (34::nat)]"
| "jsonValue (JNum n) = FormatInt n"

definition jsonField :: "string \<times> jval \<Rightarrow> bytes" where
  "jsonField f = jsonValue (JStr (fst f)) @ '':'' @ jsonValue (snd f)"

text \<open>\<^verbatim>\<open>json.NewEncoder(w).Encode(m)\<close> for a map with the given fields, which are listed in the order of their keys
  as the encoder sorts them; one \<^verbatim>\<open>Write\<close>, ended by a newline.\<close>

definition Encode :: "(string \<times> jval) list \<Rightarrow> rw_act" where
  "Encode fs = Write (''{'' @ Join (map jsonField fs) '','' @ ''}'' @ [char_of (10::nat)])"

text \<open>\<^verbatim>\<open>http.Error(w, msg, code)\<close>.\<close>

definition http_Error :: "string \<Rightarrow> int \<Rightarrow> rw_act list" where
  "http_Error msg code =
     [SetHeader ''Content-Type'' ''text/plain; charset=utf-8'', SetHeader ''X-Content-Type-Options'' ''nosniff'',
      WriteHeader code, Write (msg @ [char_of (10::nat)])]"

section \<open>Facts\<close>

lemma sendHeader_sent [simp]: "rp_sent p = Some x \<Longrightarrow> sendHeader status p = p"
  by (simp add: sendHeader_def)

lemma sendHeader_None: "rp_sent p = None \<Longrightarrow> sendHeader status p = p\<lparr>rp_sent := Some (status, rp_header p)\<rparr>"
  by (simp add: sendHeader_def)

text \<open>Once sent, status and headers stay.\<close>

lemma perform_sent: "rp_sent p = Some x \<Longrightarrow> rp_sent (perform a p) = Some x"
  by (cases a) (auto simp: Let_def)

lemma fold_perform_sent: "rp_sent p = Some x \<Longrightarrow> rp_sent (fold perform acts p) = Some x"
  by (induction acts arbitrary: p) (auto simp: perform_sent)

lemma respond_sent: "rp_sent (fold perform acts noResponse) = Some x \<Longrightarrow> rp_sent (respond (acts @ acts')) = Some x"
  by (simp add: respond_def fold_perform_sent)

lemma rp_body_respond: "rp_body (respond acts) = concat (map (\<lambda>a. case a of Write b \<Rightarrow> b | _ \<Rightarrow> []) acts)"
proof -
  have "rp_body (fold perform acts p) = rp_body p @ concat (map (\<lambda>a. case a of Write b \<Rightarrow> b | _ \<Rightarrow> []) acts)" for p
    by (induction acts arbitrary: p) (auto simp: Let_def sendHeader_def split: rw_act.split option.split)
  then show ?thesis by (simp add: respond_def noResponse_def sendHeader_def split: option.split)
qed

end
