(* ===== verification/Middleware.thy ===== *)
theory Middleware
  imports Guard Http
begin

text \<open>
  Package \<^verbatim>\<open>middleware\<close>: options and their defaults, error responses, the response recorder, the pipeline of
  \<^verbatim>\<open>Handler\<close>, \<^verbatim>\<open>ProtectFunc\<close> and \<^verbatim>\<open>DrainBody\<close>. The layers of the pipeline up to the handler are one definition each, in
  the order of the code; \<open>Handler_layers\<close> chains them and \<open>Handler\<close> runs the wrapped handler between them and the
  deferred release of the lock. Log output (\<^verbatim>\<open>trace\<close> and the logger) is left out. The theorems follow a request end
  to end: the wrapped handler runs at most once per idempotency key, its response is replayed, its lock is released.
\<close>

section \<open>Options\<close>

record AuditEvent =
  ae_Layer :: string
  ae_Decision :: string
  ae_Reason :: string
  ae_AccountID :: string
  ae_IP :: string
  ae_IdemKey :: string
  ae_Action :: string

text \<open>The callbacks act on the world; \<^verbatim>\<open>OnVelocityFlag\<close> may write to the response and replace the request.\<close>

record 'w Options =
  o_IPKeyFunc :: "(httpRequest \<Rightarrow> string) option"
  o_KeyFunc :: "(httpRequest \<Rightarrow> string) option"
  o_LockKeyFunc :: "(httpRequest \<Rightarrow> string) option"
  o_IdempotencyKeyFunc :: "(httpRequest \<Rightarrow> string) option"
  o_Action :: string
  o_RequireLock :: bool
  o_RequireIdempotencyKey :: bool
  o_FailClosed :: "bool option"
  o_BlockOnVelocity :: "bool option"
  o_Audit :: "(AuditEvent \<Rightarrow> 'w \<Rightarrow> 'w) option"
  o_OnVelocityFlag :: "(httpRequest \<Rightarrow> string \<Rightarrow> 'w \<Rightarrow> rw_act list \<times> httpRequest \<times> 'w) option"
  o_OnBlocked :: "(httpRequest \<Rightarrow> string \<Rightarrow> 'w \<Rightarrow> rw_act list \<times> 'w) option"

definition ClientIP :: "httpRequest \<Rightarrow> string" where
  "ClientIP r =
     (let xff = header_Get r ''X-Forwarded-For'' in
      if xff \<noteq> [] then TrimSpace (hd (Split (CHR '','') xff))
      else
        (case SplitHostPort (rq_RemoteAddr r) of
           Some host \<Rightarrow> if host \<noteq> [] then host else rq_RemoteAddr r
         | None \<Rightarrow> rq_RemoteAddr r))"

definition defaultKey :: "httpRequest \<Rightarrow> string" where
  "defaultKey r = (let v = header_Get r ''X-Account-ID'' in if v \<noteq> [] then v else ClientIP r)"

definition defaultIdempotencyKey :: "httpRequest \<Rightarrow> string" where
  "defaultIdempotencyKey r = TrimSpace (header_Get r ''Idempotency-Key'')"

definition orElse :: "'a option \<Rightarrow> 'a \<Rightarrow> 'a option" where
  "orElse x d = (case x of None \<Rightarrow> Some d | Some y \<Rightarrow> Some y)"

definition Options_withDefaults :: "'w Options \<Rightarrow> 'w Options" where
  "Options_withDefaults opt =
     opt\<lparr>o_IPKeyFunc := orElse (o_IPKeyFunc opt) ClientIP,
         o_KeyFunc := orElse (o_KeyFunc opt) defaultKey,
         o_IdempotencyKeyFunc := orElse (o_IdempotencyKeyFunc opt) defaultIdempotencyKey\<rparr>"

text \<open>A call through a key function; \<^verbatim>\<open>withDefaults\<close> has left none of them nil.\<close>

definition callKey :: "(httpRequest \<Rightarrow> string) option \<Rightarrow> httpRequest \<Rightarrow> string" where
  "callKey f r = (case f of None \<Rightarrow> [] | Some h \<Rightarrow> h r)"

definition Options_lockKey :: "'w Options \<Rightarrow> httpRequest \<Rightarrow> string" where
  "Options_lockKey opt r =
     (case o_LockKeyFunc opt of Some f \<Rightarrow> f r | None \<Rightarrow> callKey (o_KeyFunc opt) r)"

definition failClosed :: "'w Options \<Rightarrow> bool" where
  "failClosed opt = (case o_FailClosed opt of None \<Rightarrow> True | Some b \<Rightarrow> b)"

definition blockOnVelocity :: "'w Options \<Rightarrow> bool" where
  "blockOnVelocity opt = (case o_BlockOnVelocity opt of None \<Rightarrow> True | Some b \<Rightarrow> b)"

text \<open>The keys of a request, derived once at the start.\<close>

record reqKeys =
  rk_ip :: string
  rk_account :: string
  rk_lock :: string
  rk_idem :: string

definition requestKeys :: "'w Options \<Rightarrow> httpRequest \<Rightarrow> reqKeys" where
  "requestKeys opt r =
     \<lparr>rk_ip = callKey (o_IPKeyFunc opt) r, rk_account = callKey (o_KeyFunc opt) r,
      rk_lock = Options_lockKey opt r, rk_idem = callKey (o_IdempotencyKeyFunc opt) r\<rparr>"

definition Options_audit :: "'w Options \<Rightarrow> string \<Rightarrow> string \<Rightarrow> string \<Rightarrow> reqKeys \<Rightarrow> 'w \<Rightarrow> 'w" where
  "Options_audit opt layer decision reason k w =
     (case o_Audit opt of
        None \<Rightarrow> w
      | Some f \<Rightarrow> f \<lparr>ae_Layer = layer, ae_Decision = decision, ae_Reason = reason, ae_AccountID = rk_account k,
                    ae_IP = rk_ip k, ae_IdemKey = rk_idem k, ae_Action = o_Action opt\<rparr> w)"

definition Options_block :: "'w Options \<Rightarrow> httpRequest \<Rightarrow> string \<Rightarrow> 'w \<Rightarrow> rw_act list \<times> 'w" where
  "Options_block opt r reason w = (case o_OnBlocked opt of None \<Rightarrow> ([], w) | Some f \<Rightarrow> f r reason w)"

section \<open>Error responses\<close>

definition middleware_writeError :: "int \<Rightarrow> string \<Rightarrow> string \<Rightarrow> rw_act list" where
  "middleware_writeError status message detail =
     [SetHeader ''Content-Type'' ''application/json'', WriteHeader status,
      Encode ((if detail \<noteq> [] then [(''detail'', JStr detail)] else []) @ [(''error'', JStr message)])]"

definition writeReject :: "string \<Rightarrow> string \<Rightarrow> rw_act list" where
  "writeReject reason detail =
     SetHeader ''X-Floodguard-Layer'' reason #
     (if reason = RejectIPRateLimit then middleware_writeError 429 ''ip rate limit exceeded'' detail
      else if reason = RejectRateLimit then middleware_writeError 429 ''rate limit exceeded'' detail
      else if reason = RejectVelocity then middleware_writeError 429 ''velocity threshold exceeded'' detail
      else if reason = RejectLocked then middleware_writeError 409 ''resource is locked'' detail
      else middleware_writeError 403 ''request blocked'' detail)"

definition writeStoreError :: "bool \<Rightarrow> rw_act list" where
  "writeStoreError fc =
     (if fc then middleware_writeError 503 ''protection layer unavailable'' ''shared store unreachable; request denied''
      else middleware_writeError 500 ''protection check failed'' [])"

section \<open>The response recorder\<close>

record responseRecorder =
  rec_status :: int
  rec_body :: bytes

fun recorder_step :: "rw_act \<Rightarrow> responseRecorder \<Rightarrow> responseRecorder" where
  "recorder_step (SetHeader k v) rec = rec"
| "recorder_step (WriteHeader status) rec = rec\<lparr>rec_status := status\<rparr>"
| "recorder_step (Write b) rec = rec\<lparr>rec_body := rec_body rec @ b\<rparr>"

definition recorded :: "rw_act list \<Rightarrow> responseRecorder" where
  "recorded acts = fold recorder_step acts \<lparr>rec_status = 200, rec_body = []\<rparr>"

section \<open>The pipeline\<close>

text \<open>A layer ends the request with a response or lets it pass.\<close>

datatype 'a verdict = Stop "rw_act list" | Pass 'a

text \<open>The clock readings and random bytes of one request.\<close>

record callEnv =
  env_ip :: time
  env_account :: time
  env_begin :: time
  env_velocity :: "nat \<Rightarrow> time"
  env_lock :: time
  env_rnd :: "go_error + bytes"
  env_complete :: time
  env_release :: time

definition storeError :: "'w Options \<Rightarrow> string \<Rightarrow> go_error \<Rightarrow> reqKeys \<Rightarrow> 'w \<Rightarrow> 'a verdict \<times> 'w" where
  "storeError opt layer e k w =
     (Stop (writeStoreError (failClosed opt)), Options_audit opt layer ''reject'' (error_Error e) k w)"

definition rejectWith :: "'w Options \<Rightarrow> httpRequest \<Rightarrow> string \<Rightarrow> string \<Rightarrow> 'w \<Rightarrow> 'a verdict \<times> 'w" where
  "rejectWith opt r reason detail w =
     (case Options_block opt r reason w of (acts, w') \<Rightarrow> (Stop (acts @ writeReject reason detail), w'))"

definition layer_required :: "'w Options \<Rightarrow> reqKeys \<Rightarrow> 'w \<Rightarrow> unit verdict \<times> 'w" where
  "layer_required opt k w =
     (if o_RequireIdempotencyKey opt \<and> rk_idem k = [] then
        (Stop (middleware_writeError 400 ''Idempotency-Key required'' []),
         Options_audit opt ''idempotency'' ''reject'' ''missing idempotency key'' k w)
      else (Pass (), w))"

definition layer_ip :: "'w guard \<Rightarrow> 'w Options \<Rightarrow> callEnv \<Rightarrow> httpRequest \<Rightarrow> reqKeys \<Rightarrow> 'w \<Rightarrow> unit verdict \<times> 'w" where
  "layer_ip g opt env r k w =
     (case g_ipRate g of
        None \<Rightarrow> (Pass (), w)
      | Some ipRL \<Rightarrow>
          if rk_ip k = [] then (Pass (), w)
          else
            (case ipRL (rq_ctx r) (env_ip env) (rk_ip k) w of
               (Inl e, w') \<Rightarrow> storeError opt ''ip_rate_limit'' e k w'
             | (Inr ok, w') \<Rightarrow>
                 if \<not> ok then
                   rejectWith opt r RejectIPRateLimit [] (Options_audit opt ''ip_rate_limit'' ''reject'' ''limit exceeded'' k w')
                 else (Pass (), w')))"

definition layer_account :: "'w guard \<Rightarrow> 'w Options \<Rightarrow> callEnv \<Rightarrow> httpRequest \<Rightarrow> reqKeys \<Rightarrow> 'w \<Rightarrow> unit verdict \<times> 'w" where
  "layer_account g opt env r k w =
     (case g_rate g (rq_ctx r) (env_account env) (rk_account k) w of
        (Inl e, w') \<Rightarrow> storeError opt ''rate_limit'' e k w'
      | (Inr ok, w') \<Rightarrow>
          if \<not> ok then
            rejectWith opt r RejectRateLimit [] (Options_audit opt ''rate_limit'' ''reject'' ''limit exceeded'' k w')
          else (Pass (), w'))"

definition replayActs :: "bytes \<Rightarrow> rw_act list" where
  "replayActs cached =
     [SetHeader ''Content-Type'' ''application/json'', SetHeader ''X-Floodguard-Layer'' ''idempotency-replay'',
      SetHeader ''X-Idempotent-Replay'' ''true'', WriteHeader 200, Write cached]"

definition layer_idempotency :: "'w guard \<Rightarrow> 'w Options \<Rightarrow> callEnv \<Rightarrow> httpRequest \<Rightarrow> reqKeys \<Rightarrow> 'w \<Rightarrow> unit verdict \<times> 'w" where
  "layer_idempotency g opt env r k w =
     (if rk_idem k = [] then (Pass (), w)
      else
        (case Begin (g_idempotency g) (rq_ctx r) (env_begin env) (rk_idem k) w of
           (Inl e, w') \<Rightarrow>
             if errors_Is e ErrInFlight \<or> IsDuplicateInFlight e then
               (Stop (middleware_writeError 409 ''request already in progress'' []), w')
             else storeError opt ''idempotency'' e k w'
         | (Inr (process, cached), w') \<Rightarrow>
             if cached \<noteq> [] then
               (Stop (replayActs cached), Options_audit opt ''idempotency'' ''replay'' ''cached response'' k w')
             else if \<not> process then (Stop (middleware_writeError 409 ''request already in progress'' []), w')
             else (Pass (), w')))"

text \<open>A flagged request that is not blocked goes on, with what the callback wrote and made of the request.\<close>

definition layer_velocity :: "'w guard \<Rightarrow> 'w Options \<Rightarrow> callEnv \<Rightarrow> httpRequest \<Rightarrow> reqKeys \<Rightarrow> 'w \<Rightarrow>
    (rw_act list \<times> httpRequest) verdict \<times> 'w" where
  "layer_velocity g opt env r k w =
     (case velocity_Check (g_velocity g) (rq_ctx r) (env_velocity env) (VelocityKey (rk_account k) (o_Action opt)) w of
        (Inl e, w') \<Rightarrow> storeError opt ''velocity'' e k w'
      | (Inr (velOK, velReason), w') \<Rightarrow>
          if \<not> velOK then
            let w1 = Options_audit opt ''velocity'' ''flag'' velReason k w' in
            if \<not> blockOnVelocity opt then
              (case o_OnVelocityFlag opt of
                 None \<Rightarrow> (Pass ([], r), w1)
               | Some f \<Rightarrow> (case f r velReason w1 of (acts, r', w2) \<Rightarrow> (Pass (acts, r'), w2)))
            else rejectWith opt r RejectVelocity velReason w1
          else (Pass ([], r), w'))"

definition layer_lock :: "'w guard \<Rightarrow> 'w Options \<Rightarrow> callEnv \<Rightarrow> ctx \<Rightarrow> httpRequest \<Rightarrow> reqKeys \<Rightarrow> 'w \<Rightarrow>
    heldLock option verdict \<times> 'w" where
  "layer_lock g opt env c r k w =
     (if \<not> o_RequireLock opt then (Pass None, w)
      else
        (case TryLock g c (env_lock env) (env_rnd env) (rk_lock k) w of
           (Inl e, w') \<Rightarrow>
             if errors_Is e lock_ErrNotAcquired then rejectWith opt r RejectLocked [] w'
             else storeError opt ''lock'' e k w'
         | (Inr l, w') \<Rightarrow> (Pass (Some l), w')))"

text \<open>The layers in order. A request that passes all of them reaches the handler with the actions performed so
  far, the request as it is by then and the lock it holds, if one is required.\<close>

definition Handler_layers :: "'w guard \<Rightarrow> 'w Options \<Rightarrow> callEnv \<Rightarrow> httpRequest \<Rightarrow> 'w \<Rightarrow>
    (rw_act list \<times> httpRequest \<times> heldLock option) verdict \<times> 'w" where
  "Handler_layers g opt env r w =
     (let k = requestKeys opt r in
      case layer_required opt k w of (Stop a, w1) \<Rightarrow> (Stop a, w1) | (Pass _, w1) \<Rightarrow>
     (case layer_ip g opt env r k w1 of (Stop a, w2) \<Rightarrow> (Stop a, w2) | (Pass _, w2) \<Rightarrow>
     (case layer_account g opt env r k w2 of (Stop a, w3) \<Rightarrow> (Stop a, w3) | (Pass _, w3) \<Rightarrow>
     (case layer_idempotency g opt env r k w3 of (Stop a, w4) \<Rightarrow> (Stop a, w4) | (Pass _, w4) \<Rightarrow>
     (case layer_velocity g opt env r k w4 of (Stop a, w5) \<Rightarrow> (Stop a, w5) | (Pass (acts, r'), w5) \<Rightarrow>
     (case layer_lock g opt env (rq_ctx r) r' k w5 of
        (Stop a, w6) \<Rightarrow> (Stop (acts @ a), w6)
      | (Pass l, w6) \<Rightarrow> (Pass (acts, r', l), w6)))))))"

definition runHandler :: "'w guard \<Rightarrow> callEnv \<Rightarrow> ctx \<Rightarrow> string \<Rightarrow> 'w handler \<Rightarrow> 'w handler" where
  "runHandler g env c idemKey next r w =
     (if idemKey = [] then next r w
      else
        (case next r w of
           (acts, Panicked p, w') \<Rightarrow> (acts, Panicked p, w')
         | (acts, Returned _, w') \<Rightarrow>
             let rec = recorded acts in
             if 200 \<le> rec_status rec \<and> rec_status rec < 300 \<and> rec_body rec \<noteq> [] then
               (acts, Returned (), snd (CompleteIdempotency g c (env_complete env) idemKey (rec_body rec) w'))
             else (acts, Returned (), w')))"

text \<open>\<^verbatim>\<open>Handler(fg, opts)(next)\<close>; the deferred release runs after a panic too.\<close>

definition Handler :: "'w guard \<Rightarrow> 'w Options \<Rightarrow> callEnv \<Rightarrow> 'w handler \<Rightarrow> 'w handler" where
  "Handler g opts env next r w =
     (let opt = Options_withDefaults opts in
      case Handler_layers g opt env r w of
        (Stop a, w') \<Rightarrow> (a, Returned (), w')
      | (Pass (acts, r', l), w') \<Rightarrow>
          (case runHandler g env (rq_ctx r) (rk_idem (requestKeys opt r)) next r' w' of
             (acts', res, w'') \<Rightarrow>
               (acts @ acts', res,
                case l of None \<Rightarrow> w'' | Some h \<Rightarrow> snd (lock_releaseFn (g_lock g) h (env_release env) w''))))"

section \<open>Programmatic use\<close>

text \<open>\<^verbatim>\<open>ProtectFunc\<close> and the completion callback it returns.\<close>

definition ProtectFunc :: "'w guard \<Rightarrow> (nat \<Rightarrow> time) \<Rightarrow> string \<Rightarrow> string \<Rightarrow> 'w \<Rightarrow>
    (go_error + (time \<Rightarrow> bytes \<Rightarrow> 'w \<Rightarrow> go_error option \<times> 'w)) \<times> 'w" where
  "ProtectFunc g nows key idempotencyKey w =
     (case Protect g background nows
             \<lparr>req_Key = key, req_IPKey = [], req_IdempotencyKey = idempotencyKey, req_Action = []\<rparr> w of
        (Inl e, w') \<Rightarrow> (Inl e, w')
      | (Inr result, w') \<Rightarrow>
          if \<not> res_Allowed result then (Inl (RejectedError (res_Reason result) []), w')
          else if res_CachedResponse result \<noteq> [] then (Inl (RejectedError RejectCached (res_CachedResponse result)), w')
          else
            (Inr (\<lambda>now body v.
               if idempotencyKey = [] then (None, v)
               else CompleteIdempotency g background now idempotencyKey body v), w'))"

definition DrainBody :: "httpRequest \<Rightarrow> (go_error + bytes) \<times> httpRequest" where
  "DrainBody r =
     (case rq_body r of
        NoBody \<Rightarrow> (Inr [], r)
      | Body b (Some e) \<Rightarrow> (Inl e, r\<lparr>rq_body := Body [] (Some e)\<rparr>)
      | Body b None \<Rightarrow> (Inr b, r\<lparr>rq_body := Body b None\<rparr>))"

section \<open>At most one execution per idempotency key\<close>

text \<open>
  Requests are served concurrently: the layers of one, the handler of another and the release of a third may come
  in any order. \<open>Arrive\<close> is a request going through the layers, \<open>Run\<close> the wrapped handler of one that passed,
  \<open>Unlock\<close> the release of its lock.
\<close>

datatype 'w httpEvent =
    Arrive callEnv httpRequest
  | Run callEnv ctx string "'w handler" httpRequest
  | Unlock heldLock time

fun httpTime :: "'w httpEvent \<Rightarrow> time" where
  "httpTime (Arrive env r) = env_begin env"
| "httpTime (Run env c idemKey next r) = env_complete env"
| "httpTime (Unlock h t) = t"

definition passes :: "'a verdict \<Rightarrow> bool" where
  "passes v \<longleftrightarrow> (case v of Stop _ \<Rightarrow> False | Pass _ \<Rightarrow> True)"

fun httpStep :: "'w guard \<Rightarrow> 'w Options \<Rightarrow> 'w httpEvent \<Rightarrow> 'w \<Rightarrow> bool \<times> 'w" where
  "httpStep g opt (Arrive env r) w = (case Handler_layers g opt env r w of (v, w') \<Rightarrow> (passes v, w'))"
| "httpStep g opt (Run env c idemKey next r) w = (False, snd (snd (runHandler g env c idemKey next r w)))"
| "httpStep g opt (Unlock h t) w = (False, snd (lock_releaseFn (g_lock g) h t w))"

fun forKey :: "'w Options \<Rightarrow> string \<Rightarrow> 'w httpEvent \<Rightarrow> bool" where
  "forKey opt key (Arrive env r) = (rk_idem (requestKeys opt r) = key)"
| "forKey opt key _ = False"

text \<open>How many requests for a key reach the wrapped handler.\<close>

fun executions :: "'w guard \<Rightarrow> 'w Options \<Rightarrow> string \<Rightarrow> 'w httpEvent list \<Rightarrow> 'w \<Rightarrow> nat" where
  "executions g opt key [] w = 0"
| "executions g opt key (e # es) w =
     (case httpStep g opt e w of (ok, w') \<Rightarrow> (if ok \<and> forKey opt key e then 1 else 0) + executions g opt key es w')"

locale guarded_http = guarded S slot slack minTTL g
  for S :: "'w idemStore" and slot and slack and minTTL and g +
  fixes opt :: "'w Options"
  assumes audit_keeps: "o_Audit opt = Some f \<Longrightarrow> slot t k (f e w) = slot t k w"
    and blocked_keeps: "o_OnBlocked opt = Some h \<Longrightarrow> slot t k (snd (h r reason w)) = slot t k w"
    and flag_keeps: "o_OnVelocityFlag opt = Some v \<Longrightarrow> slot t k (snd (snd (v r reason w))) = slot t k w"
begin

lemma audit_slot: "slot t k (Options_audit opt layer d why rk w) = slot t k w"
  by (simp add: Options_audit_def audit_keeps split: option.split)

lemma reject_slot: "rejectWith opt r reason detail w = (v, w') \<Longrightarrow> slot t k w' = slot t k w"
  using blocked_keeps [of _ t k r reason w]
  by (auto simp: rejectWith_def Options_block_def split: option.splits prod.splits)

lemma storeError_slot: "storeError opt layer e rk w = (v, w') \<Longrightarrow> slot t k w' = slot t k w"
  by (auto simp: storeError_def audit_slot)

lemmas layer_slots = audit_slot reject_slot storeError_slot

lemma required_slot: "layer_required opt rk w = (v, w') \<Longrightarrow> slot t k w' = slot t k w"
  by (auto simp: layer_required_def layer_slots split: if_splits)

lemma ip_slot:
  assumes "layer_ip g opt env r rk w = (v, w')"
  shows "slot t k w' = slot t k w"
proof (cases "g_ipRate g")
  case None
  with assms show ?thesis by (simp add: layer_ip_def)
next
  case (Some ip)
  obtain a u where a: "ip (rq_ctx r) (env_ip env) (rk_ip rk) w = (a, u)" by fastforce
  then have "slot t k u = slot t k w" using ip_keeps [OF Some, of t k "rq_ctx r" "env_ip env" "rk_ip rk" w] by simp
  with assms Some a show ?thesis
    by (auto simp: layer_ip_def layer_slots split: if_splits sum.splits)
qed

lemma account_slot:
  assumes "layer_account g opt env r rk w = (v, w')"
  shows "slot t k w' = slot t k w"
proof -
  obtain a u where a: "g_rate g (rq_ctx r) (env_account env) (rk_account rk) w = (a, u)" by fastforce
  then have "slot t k u = slot t k w" using rate_keeps [of t k "rq_ctx r" "env_account env" "rk_account rk" w] by simp
  with assms a show ?thesis by (auto simp: layer_account_def layer_slots split: if_splits sum.splits)
qed

lemma velocity_slot:
  assumes "layer_velocity g opt env r rk w = (v, w')"
  shows "slot t k w' = slot t k w"
proof -
  obtain a u where a: "velocity_Check (g_velocity g) (rq_ctx r) (env_velocity env) (VelocityKey (rk_account rk) (o_Action opt)) w = (a, u)"
    by fastforce
  then have u: "slot t k u = slot t k w"
    using vel_keeps [of t k "rq_ctx r" "env_velocity env" "VelocityKey (rk_account rk) (o_Action opt)" w] by simp
  then have w1: "slot t k (Options_audit opt ''velocity'' ''flag'' why rk u) = slot t k w" for why
    by (simp add: audit_slot)
  consider (err) e where "storeError opt ''velocity'' e rk u = (v, w')" | (ok) "w' = u"
    | (flag) why where "w' = Options_audit opt ''velocity'' ''flag'' why rk u"
    | (call) f why acts r' where "o_OnVelocityFlag opt = Some f"
        "f r why (Options_audit opt ''velocity'' ''flag'' why rk u) = (acts, r', w')"
    | (block) why where "rejectWith opt r RejectVelocity why (Options_audit opt ''velocity'' ''flag'' why rk u) = (v, w')"
    using assms a by (auto simp: layer_velocity_def Let_def split: if_splits sum.splits option.splits prod.splits)
  then show ?thesis
  proof cases
    case (call f why acts r')
    with flag_keeps [OF call(1), of t k r why "Options_audit opt ''velocity'' ''flag'' why rk u"] w1 show ?thesis by simp
  qed (simp_all add: u w1 storeError_slot reject_slot)
qed

lemma lock_slot:
  assumes "layer_lock g opt env c r rk w = (v, w')"
  shows "slot t k w' = slot t k w"
proof -
  obtain a u where a: "TryLock g c (env_lock env) (env_rnd env) (rk_lock rk) w = (a, u)" by fastforce
  then have "slot t k u = slot t k w"
    using acquire_keeps [of t k c "env_lock env" "env_rnd env" "rk_lock rk" "lm_ttl (g_lock g)" w]
    by (auto simp: TryLock_def lock_TryAcquire_def split: if_splits sum.splits prod.splits)
  with assms a show ?thesis by (auto simp: layer_lock_def layer_slots split: if_splits sum.splits)
qed

lemma idempotency_slot:
  assumes "layer_idempotency g opt env r rk w = (v, w')" "rk_idem rk \<noteq> []"
  shows "\<exists>y u. Begin (g_idempotency g) (rq_ctx r) (env_begin env) (rk_idem rk) w = (y, u) \<and>
     (\<forall>t k. slot t k w' = slot t k u) \<and> (passes v \<longrightarrow> y = Inr (True, []))"
proof -
  obtain y u where beg: "Begin (g_idempotency g) (rq_ctx r) (env_begin env) (rk_idem rk) w = (y, u)" by fastforce
  with assms have "(\<forall>t k. slot t k w' = slot t k u) \<and> (passes v \<longrightarrow> y = Inr (True, []))"
    by (auto simp: layer_idempotency_def passes_def storeError_def audit_slot split: sum.splits prod.splits if_splits)
  with beg show ?thesis by blast
qed

lemma layers_cases:
  assumes "Handler_layers g opt env r w = (v, w')"
  shows "(\<forall>t k. slot t k w' = slot t k w) \<and> (rk_idem (requestKeys opt r) \<noteq> [] \<longrightarrow> \<not> passes v) \<or>
     (\<exists>x u u'. rk_idem (requestKeys opt r) \<noteq> [] \<and> (\<forall>t k. slot t k u = slot t k w) \<and>
        layer_idempotency g opt env r (requestKeys opt r) u = (x, u') \<and> (\<forall>t k. slot t k w' = slot t k u') \<and>
        (passes v \<longrightarrow> passes x))"
proof -
  let ?k = "requestKeys opt r"
  obtain x1 w1 where 1: "layer_required opt ?k w = (x1, w1)" by fastforce
  obtain x2 w2 where 2: "layer_ip g opt env r ?k w1 = (x2, w2)" by fastforce
  obtain x3 w3 where 3: "layer_account g opt env r ?k w2 = (x3, w3)" by fastforce
  obtain x4 w4 where 4: "layer_idempotency g opt env r ?k w3 = (x4, w4)" by fastforce
  note eq = required_slot [OF 1] ip_slot [OF 2] account_slot [OF 3]
  show ?thesis
  proof (cases "passes x1 \<and> passes x2 \<and> passes x3")
    case False
    with assms 1 2 3 eq show ?thesis
      by (auto simp: Handler_layers_def passes_def Let_def split: verdict.splits)
  next
    case True
    then have late: "(case x4 of Stop a \<Rightarrow> (Stop a, w4) | Pass _ \<Rightarrow>
       (case layer_velocity g opt env r ?k w4 of (Stop a, w5) \<Rightarrow> (Stop a, w5) | (Pass (acts, r'), w5) \<Rightarrow>
         (case layer_lock g opt env (rq_ctx r) r' ?k w5 of (Stop a, w6) \<Rightarrow> (Stop (acts @ a), w6)
          | (Pass l, w6) \<Rightarrow> (Pass (acts, r', l), w6)))) = (v, w')"
      using assms 1 2 3 4 by (simp add: Handler_layers_def passes_def Let_def split: verdict.splits)
    have tail: "(\<forall>t k. slot t k w' = slot t k w4) \<and> (passes v \<longrightarrow> passes x4)"
      using late velocity_slot lock_slot
      by (fastforce simp: passes_def split: verdict.splits prod.splits)
    show ?thesis
    proof (cases "rk_idem ?k = []")
      case True
      then have "w4 = w3" using 4 by (simp add: layer_idempotency_def)
      with tail eq True show ?thesis by simp
    next
      case False
      with tail eq 4 show ?thesis by (intro disjI2 exI [of _ x4] exI [of _ w3] exI [of _ w4]) simp
    qed
  qed
qed

lemma layers_held:
  assumes "Handler_layers g opt env r w = (v, w')" "slot t k w \<noteq> Vacant" "env_begin env \<le> t"
  shows "slot t k w' = slot t k w"
  using layers_cases [OF assms(1)]
proof
  assume "\<exists>x u u'. rk_idem (requestKeys opt r) \<noteq> [] \<and> (\<forall>t k. slot t k u = slot t k w) \<and>
        layer_idempotency g opt env r (requestKeys opt r) u = (x, u') \<and> (\<forall>t k. slot t k w' = slot t k u') \<and>
        (passes v \<longrightarrow> passes x)"
  then obtain x u u' where u: "rk_idem (requestKeys opt r) \<noteq> []" "\<forall>t k. slot t k u = slot t k w"
      "layer_idempotency g opt env r (requestKeys opt r) u = (x, u')" "\<forall>t k. slot t k w' = slot t k u'" by blast
  from idempotency_slot [OF u(3,1)] obtain y v' where
    "Begin (g_idempotency g) (rq_ctx r) (env_begin env) (rk_idem (requestKeys opt r)) u = (y, v')"
    "\<forall>t k. slot t k u' = slot t k v'" by blast
  with Begin_held [OF guard_store this(1), of t k] u assms(2,3) show ?thesis by simp
qed simp

lemma layers_pass:
  assumes "Handler_layers g opt env r w = (v, w')" "passes v" "rk_idem (requestKeys opt r) = key" "key \<noteq> []"
  shows "slot (env_begin env) key w = Vacant \<and>
     (\<forall>t. env_begin env \<le> t \<longrightarrow> t + slack < env_begin env + im_ttl (g_idempotency g) \<longrightarrow> slot t key w' = Claimed)"
proof -
  from layers_cases [OF assms(1)] assms(2,3,4) obtain x u u' where u: "\<forall>t k. slot t k u = slot t k w"
      "layer_idempotency g opt env r (requestKeys opt r) u = (x, u')" "\<forall>t k. slot t k w' = slot t k u'" "passes x" by blast
  from idempotency_slot [OF u(2)] assms(3,4) u(4) obtain v' where
    "Begin (g_idempotency g) (rq_ctx r) (env_begin env) key u = (Inr (True, []), v')"
    "\<forall>t k. slot t k u' = slot t k v'" by auto
  with Begin_claimed [OF guard_store this(1)] u show ?thesis by simp
qed

text \<open>The wrapped handler itself leaves the store alone.\<close>

definition keepsSlots :: "'w handler \<Rightarrow> bool" where
  "keepsSlots next \<longleftrightarrow> (\<forall>r w t k. slot t k (snd (snd (next r w))) = slot t k w)"

lemma runHandler_cases:
  assumes "keepsSlots next"
  shows "(\<forall>t k. slot t k (snd (snd (runHandler g env c idemKey next r w))) = slot t k w) \<or>
     (\<exists>b u y u'. b \<noteq> [] \<and> (\<forall>t k. slot t k u = slot t k w) \<and>
        idempotency_Complete (g_idempotency g) c (env_complete env) idemKey b u = (y, u') \<and>
        snd (snd (runHandler g env c idemKey next r w)) = u')"
proof -
  obtain acts res u where n: "next r w = (acts, res, u)" by (metis prod.collapse)
  have u: "slot t k u = slot t k w" for t k using assms n by (metis keepsSlots_def snd_conv)
  obtain y u' where cmp: "idempotency_Complete (g_idempotency g) c (env_complete env) idemKey (rec_body (recorded acts)) u = (y, u')"
    by fastforce
  have "snd (snd (runHandler g env c idemKey next r w)) = u \<or>
      rec_body (recorded acts) \<noteq> [] \<and> snd (snd (runHandler g env c idemKey next r w)) = u'"
    using n cmp by (cases res) (simp_all add: runHandler_def CompleteIdempotency_def Let_def split: option.split)
  then show ?thesis
  proof
    assume "rec_body (recorded acts) \<noteq> [] \<and> snd (snd (runHandler g env c idemKey next r w)) = u'"
    with u cmp show ?thesis by blast
  qed (simp add: u)
qed

fun mild :: "'w httpEvent \<Rightarrow> bool" where
  "mild (Run env c idemKey next r) = keepsSlots next"
| "mild _ = True"

lemma httpStep_held:
  assumes "heldUntil now h key w" "now \<le> httpTime e" "h + slack \<le> httpTime e + im_ttl (g_idempotency g)"
    and "mild e" "httpStep g opt e w = (ok, w')"
  shows "heldUntil (httpTime e) h key w'"
  unfolding heldUntil_def
proof (intro allI impI)
  fix t assume t: "httpTime e \<le> t" "t < h"
  with assms(1,2) have held: "slot t key w \<noteq> Vacant" by (auto simp: heldUntil_def)
  show "slot t key w' \<noteq> Vacant"
  proof (cases e)
    case (Arrive env r)
    with assms(5) layers_held [of env r w _ w' t key] held t show ?thesis by (auto split: prod.splits)
  next
    case (Run env c idemKey nx r)
    with assms(4,5) have "keepsSlots nx" and w': "w' = snd (snd (runHandler g env c idemKey nx r w))" by auto
    from runHandler_cases [OF this(1), of env c idemKey r w] show ?thesis
    proof
      assume "\<exists>b u y u'. b \<noteq> [] \<and> (\<forall>t k. slot t k u = slot t k w) \<and>
        idempotency_Complete (g_idempotency g) c (env_complete env) idemKey b u = (y, u') \<and>
        snd (snd (runHandler g env c idemKey nx r w)) = u'"
      then obtain b u y where b: "b \<noteq> []" "\<forall>t k. slot t k u = slot t k w"
        "idempotency_Complete (g_idempotency g) c (env_complete env) idemKey b u = (y, w')" using w' by blast
      with Complete_held [OF guard_store b(3), of t key] held t Run assms(3) show ?thesis by simp
    qed (simp add: w' held)
  next
    case (Unlock l t')
    with assms(5) release_keeps [of t key l None t' w] held show ?thesis by (auto simp: lock_releaseFn_def)
  qed
qed

lemma executions_held:
  "heldUntil now h key w \<Longrightarrow> key \<noteq> [] \<Longrightarrow> sorted (now # map httpTime es) \<Longrightarrow>
     (\<forall>e \<in> set es. httpTime e < h \<and> mild e) \<Longrightarrow> h + slack \<le> now + im_ttl (g_idempotency g) \<Longrightarrow>
     executions g opt key es w = 0"
proof (induction es arbitrary: now w)
  case (Cons e es)
  obtain ok w' where step: "httpStep g opt e w = (ok, w')" by fastforce
  have "heldUntil (httpTime e) h key w'" using httpStep_held [OF Cons.prems(1) _ _ _ step] Cons.prems by auto
  then have "executions g opt key es w' = 0" using Cons.prems by (intro Cons.IH [of "httpTime e"]) auto
  moreover have "\<not> (ok \<and> forKey opt key e)"
    using step Cons.prems layers_pass by (cases e) (fastforce simp: heldUntil_def split: prod.splits)+
  ultimately show ?case using step by auto
qed simp

lemma at_most_one_execution:
  "key \<noteq> [] \<Longrightarrow> sorted (map httpTime es) \<Longrightarrow>
     \<forall>e \<in> set es. t0 \<le> httpTime e \<and> httpTime e + slack < t0 + im_ttl (g_idempotency g) \<and> mild e \<Longrightarrow>
     executions g opt key es w \<le> 1"
proof (induction es arbitrary: w)
  case (Cons e es)
  obtain ok w' where step: "httpStep g opt e w = (ok, w')" by fastforce
  have IH: "executions g opt key es w' \<le> 1" using Cons by simp
  show ?case
  proof (cases "ok \<and> forKey opt key e")
    case True
    with step obtain env r v where e: "e = Arrive env r" "Handler_layers g opt env r w = (v, w')" "passes v"
        "rk_idem (requestKeys opt r) = key" by (cases e) (auto split: prod.splits)
    have "heldUntil (env_begin env) (t0 + im_ttl (g_idempotency g) - slack) key w'"
      using layers_pass [OF e(2,3,4)] Cons.prems e(1) by (auto simp: heldUntil_def)
    then have "executions g opt key es w' = 0"
      using Cons.prems e(1) by (intro executions_held [of "env_begin env" "t0 + im_ttl (g_idempotency g) - slack"]) auto
    with step show ?thesis by simp
  next
    case False
    with step IH show ?thesis by auto
  qed
qed simp

end

section \<open>The pipeline over the in-memory guard\<close>

text \<open>Options whose hooks are nil.\<close>

definition withoutHooks :: "'w Options \<Rightarrow> 'w Options" where
  "withoutHooks opt = opt\<lparr>o_Audit := None, o_OnVelocityFlag := None, o_OnBlocked := None\<rparr>"

interpretation mem_http: guarded_http mw_idemStore mw_slot 0 1 "memGuard L idemTTL lockTTL bs"
    "Options_withDefaults (withoutHooks opts)"
  for L :: "'l rateLib" and idemTTL lockTTL bs opts
  by unfold_locales (simp_all add: Options_withDefaults_def withoutHooks_def)

text \<open>Hooks that leave the idempotency store alone.\<close>

definition hooksKeepIdem :: "('l, 'x) memWorld_scheme Options \<Rightarrow> bool" where
  "hooksKeepIdem opt \<longleftrightarrow>
     (\<forall>f e w. o_Audit opt = Some f \<longrightarrow> mw_idem (f e w) = mw_idem w) \<and>
     (\<forall>f r why w. o_OnBlocked opt = Some f \<longrightarrow> mw_idem (snd (f r why w)) = mw_idem w) \<and>
     (\<forall>f r why w. o_OnVelocityFlag opt = Some f \<longrightarrow> mw_idem (snd (snd (f r why w))) = mw_idem w)"

fun keepsIdem :: "('l, 'x) memWorld_scheme httpEvent \<Rightarrow> bool" where
  "keepsIdem (Run env c idemKey next r) = (\<forall>r w. mw_idem (snd (snd (next r w))) = mw_idem w)"
| "keepsIdem _ = True"

lemma mem_guarded_http:
  "hooksKeepIdem opts \<Longrightarrow>
     guarded_http mw_idemStore mw_slot 0 1 (memGuard L idemTTL lockTTL bs) (Options_withDefaults opts)"
  using mem_guard.guarded_axioms
  by (intro guarded_http.intro guarded_http_axioms.intro)
    (auto simp: hooksKeepIdem_def Options_withDefaults_def mw_slot_def)

lemma mw_TTL: "0 < im_ttl (g_idempotency (memGuard L idemTTL lockTTL bs))" "0 < lm_ttl (g_lock (memGuard L idemTTL lockTTL bs))"
  by (simp_all add: memGuard_def idempotency_New_def lock_New_def hour_def second_def)

lemma mw_Complete_slot:
  fixes w :: "('l, 'x) memWorld_scheme"
  assumes "key \<noteq> []" "b \<noteq> []"
    and "t \<le> now + im_ttl (g_idempotency (memGuard L idemTTL lockTTL bs :: ('l, 'x) memWorld_scheme guard))"
  shows "mw_slot t key (snd (CompleteIdempotency (memGuard L idemTTL lockTTL bs) c now key b w)) = Done b"
  using assms
  by (simp add: CompleteIdempotency_def idempotency_Complete_def memGuard_def idempotency_New_def mw_simps
      idem_memory_Complete_def memorySlot_def time_Add_def)

lemma mw_Complete_lock:
  "mw_lock (snd (CompleteIdempotency (memGuard L idemTTL lockTTL bs) c now key b w)) = mw_lock w"
  by (simp add: CompleteIdempotency_def idempotency_Complete_def memGuard_def idempotency_New_def mw_simps
      idem_memory_Complete_def)

lemma mw_release_idem: "mw_idem (snd (lock_releaseFn (g_lock (memGuard L idemTTL lockTTL bs)) h t w)) = mw_idem w"
  by (simp add: lock_releaseFn_def memGuard_def lock_New_def mw_lockClient_def onPart_snd)

lemma mw_Begin_fst:
  "fst (Begin (g_idempotency (memGuard L idemTTL lockTTL bs)) c now key w) =
     (if key = [] then Inl idempotency_ErrKeyRequired
      else case mw_slot now key w of
             Vacant \<Rightarrow> Inr (True, []) | Claimed \<Rightarrow> Inl ErrInFlight | Done b \<Rightarrow> Inr (False, b))"
  by (auto simp: Begin_def memGuard_def idempotency_New_def mw_simps idem_memory_Claim_def memorySlot_def time_After_def
      zeroClaim_def Let_def split: option.splits)

text \<open>A request that the account limit lets through and whose key is taken ends at the idempotency layer.\<close>

lemma mw_layers_taken:
  fixes opts :: "('l, 'x) memWorld_scheme Options"
  defines "opt \<equiv> Options_withDefaults opts"
  assumes "hooksKeepIdem opts" "layer_account (memGuard L idemTTL lockTTL bs) opt env r (requestKeys opt r) w = (Pass (), w')"
    and "rk_idem (requestKeys opt r) = key" "key \<noteq> []" "mw_slot (env_begin env) key w = sl" "sl \<noteq> Vacant"
  shows "\<exists>w''. Handler (memGuard L idemTTL lockTTL bs) opts env next r w =
     (case sl of Done b \<Rightarrow> replayActs b | _ \<Rightarrow> middleware_writeError 409 ''request already in progress'' [], Returned (), w'')"
proof -
  let ?g = "memGuard L idemTTL lockTTL bs"
  have "mw_slot (env_begin env) key w' = sl"
    using guarded_http.account_slot [OF mem_guarded_http [OF assms(2)], of L idemTTL lockTTL bs env r] assms(3,6)
    unfolding opt_def by metis
  then have beg: "fst (Begin (g_idempotency ?g) (rq_ctx r) (env_begin env) key w') =
      (case sl of Done b \<Rightarrow> Inr (False, b) | _ \<Rightarrow> Inl ErrInFlight)"
    using mw_Begin_fst [of L idemTTL lockTTL bs "rq_ctx r" "env_begin env" key w'] assms(5,7) by (cases sl) simp_all
  have done_ne: "b \<noteq> []" if "sl = Done b" for b
    using assms(6) that by (auto simp: mw_slot_def memorySlot_def split: option.splits if_splits)
  obtain y u where y: "Begin (g_idempotency ?g) (rq_ctx r) (env_begin env) key w' = (y, u)" by fastforce
  have "\<exists>u'. layer_idempotency ?g opt env r (requestKeys opt r) w' =
      (Stop (case sl of Done b \<Rightarrow> replayActs b | _ \<Rightarrow> middleware_writeError 409 ''request already in progress'' []), u')"
    using beg y assms(4,5,7) done_ne by (cases sl) (auto simp: layer_idempotency_def)
  then obtain u' where "layer_idempotency ?g opt env r (requestKeys opt r) w' =
      (Stop (case sl of Done b \<Rightarrow> replayActs b | _ \<Rightarrow> middleware_writeError 409 ''request already in progress'' []), u')" by blast
  moreover have "layer_required opt (requestKeys opt r) w = (Pass (), w)" using assms(4,5) by (simp add: layer_required_def)
  moreover have "layer_ip ?g opt env r (requestKeys opt r) w = (Pass (), w)" by (simp add: layer_ip_def memGuard_def)
  ultimately show ?thesis using assms(3) unfolding Handler_def Handler_layers_def opt_def by (simp add: Let_def)
qed

text \<open>What a request that reaches the wrapped handler leaves in the store.\<close>

lemma mw_Handler_slot:
  fixes opts :: "('l, 'x) memWorld_scheme Options"
  defines "opt \<equiv> Options_withDefaults opts"
  assumes "hooksKeepIdem opts" "Handler_layers (memGuard L idemTTL lockTTL bs) opt env r w = (Pass (acts0, r', l), w1)"
    and "rk_idem (requestKeys opt r) = key" "key \<noteq> []"
    and "next r' w1 = (acts, res, w2)" "mw_idem w2 = mw_idem w1"
    and "Handler (memGuard L idemTTL lockTTL bs) opts env next r w = (a, res', w3)" "env_begin env \<le> t"
    and "t < env_begin env + im_ttl (g_idempotency (memGuard L idemTTL lockTTL bs :: ('l, 'x) memWorld_scheme guard))"
    and "env_begin env \<le> env_complete env"
  shows "mw_slot t key w3 =
     (if (\<exists>x. res = Returned x) \<and> 200 \<le> rec_status (recorded acts) \<and> rec_status (recorded acts) < 300 \<and> rec_body (recorded acts) \<noteq> []
      then Done (rec_body (recorded acts)) else Claimed)"
proof -
  let ?g = "memGuard L idemTTL lockTTL bs"
  have "mw_slot t key w1 = Claimed"
    using guarded_http.layers_pass [OF mem_guarded_http [OF assms(2)] assms(3) [unfolded opt_def] _ assms(4) [unfolded opt_def] assms(5)]
      assms(9,10) by (simp add: passes_def)
  then have w2: "mw_slot t key w2 = Claimed" using assms(7) by (simp add: mw_slot_def)
  obtain acts' res'' u where run: "runHandler ?g env (rq_ctx r) key next r' w1 = (acts', res'', u)" by (metis prod.collapse)
  have "mw_slot t key w3 = mw_slot t key u"
    using assms(3,4,8) run unfolding opt_def
    by (cases l) (auto simp: Handler_def mw_slot_def mw_release_idem Let_def)
  moreover have cached: "mw_slot t key (snd (CompleteIdempotency ?g (rq_ctx r) (env_complete env) key b w2)) = Done b" if "b \<noteq> []" for b
    using assms(5,10,11) that by (intro mw_Complete_slot) auto
  have "mw_slot t key u =
     (if (\<exists>x. res = Returned x) \<and> 200 \<le> rec_status (recorded acts) \<and> rec_status (recorded acts) < 300 \<and> rec_body (recorded acts) \<noteq> []
      then Done (rec_body (recorded acts)) else Claimed)"
    using run assms(5,6) w2
    by (cases res) (auto simp: runHandler_def cached Let_def split: if_splits)
  ultimately show ?thesis by simp
qed

text \<open>What the lock layer leaves when it lets a request pass, and what the release does.\<close>

lemma mw_layers_lock:
  fixes opts :: "('l, 'x) memWorld_scheme Options"
  defines "opt \<equiv> Options_withDefaults opts"
  assumes "o_RequireLock opts" "env_rnd env = Inr b"
    and "Handler_layers (memGuard L idemTTL lockTTL bs) opt env r w = (Pass (acts0, r', l), w1)"
  shows "\<exists>e. l = Some \<lparr>hl_key = rk_lock (requestKeys opt r), hl_token = EncodeToString b\<rparr> \<and>
     locks (mw_lock w1) (rk_lock (requestKeys opt r)) = Some e \<and> le_token e = EncodeToString b \<and> env_lock env < le_expiresAt e"
proof -
  let ?g = "memGuard L idemTTL lockTTL bs"
  obtain w5 where "layer_lock ?g opt env (rq_ctx r) r' (requestKeys opt r) w5 = (Pass l, w1)"
    using assms(4) unfolding Handler_layers_def Let_def by (auto split: verdict.splits prod.splits)
  then obtain h where h: "TryLock ?g (rq_ctx r) (env_lock env) (env_rnd env) (rk_lock (requestKeys opt r)) w5 = (Inr h, w1)" "l = Some h"
    using assms(2)
    by (auto simp: layer_lock_def opt_def Options_withDefaults_def rejectWith_def storeError_def split: if_splits sum.splits prod.splits)
  with assms(3) mw_TTL(2) [of L idemTTL lockTTL bs] show ?thesis
    by (auto simp: TryLock_def lock_TryAcquire_def memGuard_def lock_New_def mw_lockClient_def onPart_def lock_memory_simps
        lock_randomToken_def second_def split: if_splits sum.splits prod.splits option.splits)
qed

section \<open>Guarantees\<close>


definition demoOptions :: "refBucket memWorld Options" where
  "demoOptions =
     \<lparr>o_IPKeyFunc = Some (\<lambda>r. []), o_KeyFunc = Some (\<lambda>r. ''acct''), o_LockKeyFunc = None,
      o_IdempotencyKeyFunc = Some (\<lambda>r. ''k''),
      o_Action = ''withdraw'', o_RequireLock = True, o_RequireIdempotencyKey = True, o_FailClosed = None,
      o_BlockOnVelocity = None, o_Audit = None, o_OnVelocityFlag = None, o_OnBlocked = None\<rparr>"

definition demoEnv :: "time \<Rightarrow> callEnv" where
  "demoEnv t =
     \<lparr>env_ip = t, env_account = t, env_begin = t, env_velocity = (\<lambda>i. t), env_lock = t, env_rnd = Inr ''x'',
      env_complete = t, env_release = t\<rparr>"

definition demoHttp :: httpRequest where
  "demoHttp = \<lparr>rq_headers = [(''X-Account-Id'', ''acct'')], rq_RemoteAddr = ''10.0.0.1:9'', rq_body = NoBody, rq_ctx = None,
     rq_velocityFlag = False\<rparr>"

text \<open>A first request over a fresh world, and the account layer of a second one.\<close>

definition demoFresh :: "refBucket memWorld" where
  "demoFresh = memStart (NewTokenBucket \<lparr>tbc_Rate = 0, tbc_Burst = 0\<rparr>)"

definition demoGuard :: "refBucket memWorld guard" where
  "demoGuard = fst (floodguard_New refRate (memConfig 0 0 demoRules) demoFresh)"

definition demoNext :: "rw_act list \<Rightarrow> unit outcome \<Rightarrow> refBucket memWorld handler" where
  "demoNext acts res r w = (acts, res, w)"

lemmas layer_simps = Handler_layers_def layer_required_def layer_ip_def layer_account_def layer_idempotency_def
  layer_velocity_def layer_lock_def requestKeys_def callKey_def Options_lockKey_def Options_withDefaults_def orElse_def
  TryLock_def lock_TryAcquire_def lock_New_def mw_lockClient_def lock_memory_Acquire_def lock_randomToken_def
  vel_memory_Record_def

lemmas demo_defs = demo_simps Protect_simps layer_simps demoFresh_def demoGuard_def demoOptions_def demoEnv_def demoHttp_def
  New_memGuard

lemma demo_layers:
  "\<exists>l w1. Handler_layers demoGuard (Options_withDefaults demoOptions) (demoEnv 50) demoHttp demoFresh =
     (Pass ([], demoHttp, l), w1)"
  by (simp add: demo_defs hour_def second_def Let_def time_Add_def)

lemmas run_simps = Handler_def runHandler_def recorded_def demoNext_def CompleteIdempotency_def idempotency_Complete_def
  idem_memory_Complete_def lock_releaseFn_def lock_memory_Release_def

lemma demo_second:
  assumes "acts = [Write ''done''] \<or> acts = [WriteHeader 402]"
  shows "\<exists>w4. layer_account demoGuard (Options_withDefaults demoOptions) (demoEnv 60) demoHttp
      (requestKeys (Options_withDefaults demoOptions) demoHttp)
      (snd (snd (Handler demoGuard demoOptions (demoEnv 50) (demoNext acts (Returned ())) demoHttp demoFresh))) = (Pass (), w4)"
  using assms by (auto simp add: demo_defs run_simps hour_def second_def Let_def time_Add_def)

lemma demo_keys: "rk_idem (requestKeys (Options_withDefaults demoOptions) r) = ''k''"
  by (simp add: demoOptions_def requestKeys_def callKey_def Options_withDefaults_def orElse_def)

lemma demo_ttl: "im_ttl (g_idempotency demoGuard) = 24 * hour"
  by (simp add: demoGuard_def New_memGuard memGuard_def idempotency_New_def)

lemma demo_hooks: "hooksKeepIdem demoOptions"
  by (simp add: hooksKeepIdem_def demoOptions_def)


text \<open>C16: When the wrapped handler has answered a request with a 2xx status and a body, a later request with the same
  idempotency key within the TTL that is under the account limit is answered with exactly that body, status 200
  and the replay headers, and its own handler is not run.\<close>

theorem Handler_replays_response:
  assumes "g = fst (floodguard_New L (memConfig idemTTL lockTTL bs) w0)" "opt = Options_withDefaults opts" "hooksKeepIdem opts"
    and "Handler_layers g opt env r w = (Pass (acts0, r', l), w1)" "next r' w1 = (acts, Returned x, w2)" "mw_idem w2 = mw_idem w1"
    and "200 \<le> rec_status (recorded acts)" "rec_status (recorded acts) < 300" "rec_body (recorded acts) = body" "body \<noteq> []"
    and "Handler g opts env next r w = (a, res, w3)"
    and "rk_idem (requestKeys opt r) = key" "key \<noteq> []" "rk_idem (requestKeys opt r2) = key"
    and "env_begin env \<le> env_complete env" "env_complete env \<le> env_begin env2"
    and "env_begin env2 < env_begin env + im_ttl (g_idempotency g)"
    and "layer_account g opt env2 r2 (requestKeys opt r2) w3 = (Pass (), w4)"
  shows "fst (Handler g opts env2 next2 r2 w3) = replayActs body \<and> rp_status (respond (replayActs body)) = 200 \<and>
     rp_body (respond (replayActs body)) = body"
proof -
  have g: "g = memGuard L idemTTL lockTTL bs" using assms(1) by (simp add: New_memGuard)
  have "mw_slot (env_begin env2) key w3 = Done body"
    using mw_Handler_slot [OF assms(3) assms(4) [unfolded g assms(2)] assms(12) [unfolded assms(2)] assms(13,5,6) assms(11) [unfolded g], of "env_begin env2"]
      assms(7-10) assms(15-17) g by auto
  then obtain w'' where "Handler g opts env2 next2 r2 w3 = (replayActs body, Returned (), w'')"
    using mw_layers_taken [OF assms(3) assms(18) [unfolded g assms(2)] assms(14) [unfolded assms(2)] assms(13), of "Done body" next2] g by auto
  then show ?thesis
    by (simp add: rp_body_respond) (simp add: respond_def replayActs_def rp_status_def noResponse_def sendHeader_def Let_def)
qed

theorem Handler_replays_response_witness:
  "\<exists>a res w3. Handler demoGuard demoOptions (demoEnv 50) (demoNext [Write ''done''] (Returned ())) demoHttp demoFresh = (a, res, w3) \<and>
     fst (Handler demoGuard demoOptions (demoEnv 60) (demoNext [] (Panicked ''twice'')) demoHttp w3) = replayActs ''done''"
proof -
  obtain l w1 where lay: "Handler_layers demoGuard (Options_withDefaults demoOptions) (demoEnv 50) demoHttp demoFresh =
      (Pass ([], demoHttp, l), w1)" using demo_layers by blast
  obtain a res w3 where run: "Handler demoGuard demoOptions (demoEnv 50) (demoNext [Write ''done''] (Returned ())) demoHttp demoFresh = (a, res, w3)"
    by (metis prod.collapse)
  obtain w4 where acc: "layer_account demoGuard (Options_withDefaults demoOptions) (demoEnv 60) demoHttp
      (requestKeys (Options_withDefaults demoOptions) demoHttp) w3 = (Pass (), w4)"
    using demo_second [of "[Write ''done'']"] run by auto
  have "fst (Handler demoGuard demoOptions (demoEnv 60) (demoNext [] (Panicked ''twice'')) demoHttp w3) = replayActs ''done''"
    using Handler_replays_response [OF demoGuard_def refl demo_hooks lay _ _ _ _ refl _ run demo_keys _ demo_keys _ _ _ acc,
        of "[Write ''done'']" "()" w1 "demoNext [] (Panicked ''twice'')"]
    by (simp add: demoNext_def recorded_def demoEnv_def demo_ttl hour_def)
  with run show ?thesis by blast
qed





text \<open>\<^verbatim>\<open>ProtectFunc\<close> never hands a cached response back: whenever it fails with a \<^verbatim>\<open>RejectedError\<close>, the error's
  \<^verbatim>\<open>Cached\<close> field is empty, also for a request that \<^verbatim>\<open>Protect\<close> answered with a response to replay.\<close>

theorem ProtectFunc_drops_cached:
  assumes "ProtectFunc g nows key ik w = (Inl (RejectedError reason c), w')"
  shows "c = []"
proof -
  obtain x v where p: "Protect g None nows \<lparr>req_Key = key, req_IPKey = [], req_IdempotencyKey = ik, req_Action = []\<rparr> w = (x, v)"
    by fastforce
  with assms Protect_result [OF p] show ?thesis
    by (auto simp: ProtectFunc_def plainResult_def split: sum.splits if_splits)
qed

lemma demo_cached:
  "\<exists>w'. ProtectFunc demoGuard (\<lambda>i. 5) ''acct'' ''k''
     (demoFresh\<lparr>mw_idem := \<lparr>entries = [''k'' \<mapsto> \<lparr>me_inFlight = False, me_value = ''done'', me_expiresAt = 9\<rparr>]\<rparr>\<rparr>) =
       (Inl (RejectedError RejectCached []), w')"
  by (simp add: demo_defs ProtectFunc_def time_After_def Let_def)

theorem ProtectFunc_drops_cached_witness:
  "\<exists>c w'. ProtectFunc demoGuard (\<lambda>i. 5) ''acct'' ''k''
     (demoFresh\<lparr>mw_idem := \<lparr>entries = [''k'' \<mapsto> \<lparr>me_inFlight = False, me_value = ''done'', me_expiresAt = 9\<rparr>]\<rparr>\<rparr>) =
       (Inl (RejectedError RejectCached c), w') \<and> c = []"
  using demo_cached ProtectFunc_drops_cached by blast

end
