(* ===== verification/Sha256.thy ===== *)
theory Sha256
  imports Prelude "HOL-Library.Word"
begin

text \<open>
  \<^verbatim>\<open>crypto/sha256.Sum256\<close>, which the ledger and the device fingerprints are built on: the compression function of
  FIPS 180-4 over 32-bit words, padding and the big-endian encoding of blocks and digest.
\<close>

unbundle bit_operations_syntax

type_synonym word32 = "32 word"

text \<open>The constants of the standard: the first thirty-two bits of the fractional parts of the cube roots of the first
  sixty-four primes, and of the square roots of the first eight. \<open>rootBits\<close> finds an integer root bit by bit.\<close>

fun rootBits :: "nat \<Rightarrow> nat \<Rightarrow> nat \<Rightarrow> nat \<Rightarrow> nat" where
  "rootBits k n 0 r = r"
| "rootBits k n (Suc b) r = rootBits k n b (if (r + 2 ^ b) ^ k \<le> n then r + 2 ^ b else r)"

definition rootFraction :: "nat \<Rightarrow> nat \<Rightarrow> word32" where
  "rootFraction k p = word_of_nat (rootBits k (p * 2 ^ (32 * k)) 36 0)"

definition shaPrimes :: "nat list" where
  "shaPrimes = filter (\<lambda>n. list_all (\<lambda>d. n mod d \<noteq> 0) [2..<n]) [2..<312]"

definition shaK :: "word32 list" where
  "shaK = map (rootFraction 3) shaPrimes"

definition bigSigma0 :: "word32 \<Rightarrow> word32" where
  "bigSigma0 x = word_rotr 2 x XOR word_rotr 13 x XOR word_rotr 22 x"

definition bigSigma1 :: "word32 \<Rightarrow> word32" where
  "bigSigma1 x = word_rotr 6 x XOR word_rotr 11 x XOR word_rotr 25 x"

definition smallSigma0 :: "word32 \<Rightarrow> word32" where
  "smallSigma0 x = word_rotr 7 x XOR word_rotr 18 x XOR drop_bit 3 x"

definition smallSigma1 :: "word32 \<Rightarrow> word32" where
  "smallSigma1 x = word_rotr 17 x XOR word_rotr 19 x XOR drop_bit 10 x"

text \<open>The message schedule: sixteen words of the block, then forty-eight computed ones.\<close>

definition shaExtend :: "nat \<Rightarrow> word32 list \<Rightarrow> word32 list" where
  "shaExtend t ws = ws @ [smallSigma1 (ws ! (t - 2)) + ws ! (t - 7) + smallSigma0 (ws ! (t - 15)) + ws ! (t - 16)]"

definition shaSchedule :: "word32 list \<Rightarrow> word32 list" where
  "shaSchedule block = fold shaExtend [16..<64] block"

record shaState =
  sa :: word32
  sb :: word32
  sc :: word32
  sd :: word32
  se :: word32
  sf :: word32
  sg :: word32
  sh :: word32

definition shaInit :: shaState where
  "shaInit =
     \<lparr>sa = rootFraction 2 2, sb = rootFraction 2 3, sc = rootFraction 2 5, sd = rootFraction 2 7,
      se = rootFraction 2 11, sf = rootFraction 2 13, sg = rootFraction 2 17, sh = rootFraction 2 19\<rparr>"

definition shaRound :: "word32 \<times> word32 \<Rightarrow> shaState \<Rightarrow> shaState" where
  "shaRound kw s =
     (let ch = (se s AND sf s) XOR (NOT (se s) AND sg s);
          t1 = sh s + bigSigma1 (se s) + ch + fst kw + snd kw;
          maj = (sa s AND sb s) XOR (sa s AND sc s) XOR (sb s AND sc s);
          t2 = bigSigma0 (sa s) + maj
      in \<lparr>sa = t1 + t2, sb = sa s, sc = sb s, sd = sc s, se = sd s + t1, sf = se s, sg = sf s, sh = sg s\<rparr>)"

definition shaBlock :: "word32 list \<Rightarrow> shaState \<Rightarrow> shaState" where
  "shaBlock block s =
     (let r = fold shaRound (zip shaK (shaSchedule block)) s
      in \<lparr>sa = sa s + sa r, sb = sb s + sb r, sc = sc s + sc r, sd = sd s + sd r,
          se = se s + se r, sf = sf s + sf r, sg = sg s + sg r, sh = sh s + sh r\<rparr>)"

text \<open>A one bit, zeros up to the last eight bytes of a block, and the length in bits.\<close>

definition beBytes :: "nat \<Rightarrow> nat \<Rightarrow> bytes" where
  "beBytes n x = map (\<lambda>i. char_of (x div 256 ^ (n - 1 - i))) [0..<n]"

definition shaPad :: "bytes \<Rightarrow> bytes" where
  "shaPad m =
     (let l = length m; zeros = (119 - l mod 64) mod 64
      in m @ [char_of (128::nat)] @ replicate zeros (char_of (0::nat)) @ beBytes 8 (8 * l))"

fun beWords :: "bytes \<Rightarrow> word32 list" where
  "beWords (a # b # c # d # s) =
     word_of_nat (((of_char a * 256 + of_char b) * 256 + of_char c) * 256 + of_char d) # beWords s"
| "beWords _ = []"

function shaBlocks :: "word32 list \<Rightarrow> shaState \<Rightarrow> shaState" where
  "shaBlocks ws s = (if ws = [] then s else shaBlocks (drop 16 ws) (shaBlock (take 16 ws) s))"
  by auto
termination by (relation "measure (\<lambda>(ws, s). length ws)") auto

declare shaBlocks.simps [simp del]

definition Sum256 :: "bytes \<Rightarrow> bytes" where
  "Sum256 m =
     (let s = shaBlocks (beWords (shaPad m)) shaInit
      in concat (map (\<lambda>w. beBytes 4 (unat w)) [sa s, sb s, sc s, sd s, se s, sf s, sg s, sh s]))"

text \<open>A digest has thirty-two bytes.\<close>

lemma length_beBytes [simp]: "length (beBytes n x) = n"
  by (simp add: beBytes_def)

lemma length_Sum256: "length (Sum256 m) = 32"
  by (simp add: Sum256_def Let_def)

lemma length_EncodeToString: "length (EncodeToString b) = 2 * length b"
  by (induction b) (simp_all add: EncodeToString_def hexByte_def)

end
