(* ===== verification/Ledger.thy ===== *)
theory Ledger
  imports Sha256
begin

text \<open>
  Package \<^verbatim>\<open>ledger\<close>: hash-chained records (\<^verbatim>\<open>ledger.go\<close>) and the in-memory store (\<^verbatim>\<open>memory.go\<close>). The locale
  \<open>ledger_store\<close> is what the ledger relies on a store for. The theorems: every record the ledger appends keeps the
  chain intact, an intact chain is fixed by its last hash as far as SHA-256 tells the payloads apart, and what the
  check cannot see.
\<close>

section \<open>Records and their hashes\<close>

definition ledger_ErrKeyRequired :: go_error where
  "ledger_ErrKeyRequired = Sentinel ''ledger: account id is required''"

definition TxDeposit :: string where "TxDeposit = ''deposit''"
definition TxWithdrawal :: string where "TxWithdrawal = ''withdrawal''"
definition TxBetSettle :: string where "TxBetSettle = ''bet_settlement''"

record Record =
  lr_ID :: int
  lr_AccountID :: string
  lr_Amount :: int
  lr_TxType :: string
  lr_ActorID :: string
  lr_Source :: string
  lr_PrevHash :: string
  lr_RecordHash :: string
  lr_CreatedAt :: time

text \<open>\<^verbatim>\<open>t.Format(time.RFC3339Nano)\<close> of a UTC time: civil date, time of day, the fraction without trailing zeros.\<close>

definition civilDate :: "int \<Rightarrow> int \<times> int \<times> int" where
  "civilDate days =
     (let z = days + 719468; era = z div 146097; doe = z mod 146097;
          yoe = (doe - doe div 1460 + doe div 36524 - doe div 146096) div 365;
          doy = doe - (365 * yoe + yoe div 4 - yoe div 100);
          mp = (5 * doy + 2) div 153;
          d = doy - (153 * mp + 2) div 5 + 1;
          m = (if mp < 10 then mp + 3 else mp - 9);
          y = yoe + era * 400 + (if m \<le> 2 then 1 else 0)
      in (y, m, d))"

definition pad2 :: "int \<Rightarrow> string" where
  "pad2 n = padLeft 2 (natDigits (nat n))"

definition formatYear :: "int \<Rightarrow> string" where
  "formatYear y = (if y < 0 then ''-'' @ padLeft 4 (natDigits (nat (- y))) else padLeft 4 (natDigits (nat y)))"

definition RFC3339Nano :: "time \<Rightarrow> string" where
  "RFC3339Nano t =
     (let secs = t div 1000000000; s = secs mod 86400 in
      case civilDate (secs div 86400) of (y, m, d) \<Rightarrow>
        formatYear y @ ''-'' @ pad2 m @ ''-'' @ pad2 d @ ''T'' @ pad2 (s div 3600) @ '':'' @ pad2 (s div 60 mod 60) @
        '':'' @ pad2 (s mod 60) @ fmtFrac (nat (t mod 1000000000)) 9 @ ''Z'')"

definition genesisHash :: string where
  "genesisHash = EncodeToString (Sum256 ''floodguard-ledger-genesis'')"

definition recordPayload :: "Record \<Rightarrow> bytes" where
  "recordPayload r =
     Join [lr_PrevHash r, lr_AccountID r, FormatInt (lr_Amount r), lr_TxType r, lr_ActorID r, lr_Source r,
           RFC3339Nano (lr_CreatedAt r)] ''|''"

definition hashRecord :: "Record \<Rightarrow> string" where
  "hashRecord r = EncodeToString (Sum256 (recordPayload r))"

section \<open>Stores\<close>

record 'w ledgerStore =
  lst_Append :: "ctx \<Rightarrow> Record \<Rightarrow> 'w \<Rightarrow> (go_error + Record) \<times> 'w"
  lst_ListByAccount :: "ctx \<Rightarrow> string \<Rightarrow> 'w \<Rightarrow> (go_error + Record list) \<times> 'w"
  lst_SetRecordHashForTest :: "ctx \<Rightarrow> string \<Rightarrow> int \<Rightarrow> string \<Rightarrow> 'w \<Rightarrow> go_error option \<times> 'w"

record ledgerMemory =
  lm_records :: "string \<rightharpoonup> Record list"

definition ledger_NewMemoryStore :: ledgerMemory where
  "ledger_NewMemoryStore = \<lparr>lm_records = Map.empty\<rparr>"

definition recordsOf :: "ledgerMemory \<Rightarrow> string \<Rightarrow> Record list" where
  "recordsOf s a = (case lm_records s a of None \<Rightarrow> [] | Some rs \<Rightarrow> rs)"

definition ledger_memory_Append :: "ctx \<Rightarrow> Record \<Rightarrow> ledgerMemory \<Rightarrow> (go_error + Record) \<times> ledgerMemory" where
  "ledger_memory_Append c rec s =
     (Inr rec, s\<lparr>lm_records := (lm_records s)(lr_AccountID rec \<mapsto> recordsOf s (lr_AccountID rec) @ [rec])\<rparr>)"

definition ledger_memory_ListByAccount :: "ctx \<Rightarrow> string \<Rightarrow> ledgerMemory \<Rightarrow> (go_error + Record list) \<times> ledgerMemory" where
  "ledger_memory_ListByAccount c accountID s = (Inr (recordsOf s accountID), s)"

definition ledger_memory_SetRecordHashForTest :: "ctx \<Rightarrow> string \<Rightarrow> int \<Rightarrow> string \<Rightarrow> ledgerMemory \<Rightarrow>
    go_error option \<times> ledgerMemory" where
  "ledger_memory_SetRecordHashForTest c accountID i hash s =
     (let recs = recordsOf s accountID in
      if i < 0 \<or> int (length recs) \<le> i then (Some (Errorf ''ledger: index out of range''), s)
      else (None, s\<lparr>lm_records := (lm_records s)(accountID \<mapsto> recs[nat i := (recs ! nat i)\<lparr>lr_RecordHash := hash\<rparr>])\<rparr>))"

definition ledger_memory_Store :: "ledgerMemory ledgerStore" where
  "ledger_memory_Store =
     \<lparr>lst_Append = ledger_memory_Append, lst_ListByAccount = ledger_memory_ListByAccount,
      lst_SetRecordHashForTest = ledger_memory_SetRecordHashForTest\<rparr>"

section \<open>The ledger\<close>

record 'w Ledger =
  lg_store :: "'w ledgerStore"

definition ledger_New :: "'w ledgerStore \<Rightarrow> 'w ledgerStore option \<Rightarrow> 'w Ledger" where
  "ledger_New dflt store = \<lparr>lg_store = (case store of None \<Rightarrow> dflt | Some s \<Rightarrow> s)\<rparr>"

definition RecordTransaction :: "'w Ledger \<Rightarrow> ctx \<Rightarrow> time \<Rightarrow> string \<Rightarrow> int \<Rightarrow> string \<Rightarrow> string \<Rightarrow> string \<Rightarrow> 'w \<Rightarrow>
    (go_error + Record) \<times> 'w" where
  "RecordTransaction l c now accountID amount txType actorID source w =
     (if accountID = [] then (Inl ledger_ErrKeyRequired, w)
      else
        (case lst_ListByAccount (lg_store l) c accountID w of
           (Inl e, w') \<Rightarrow> (Inl e, w')
         | (Inr existing, w') \<Rightarrow>
             let prevHash = (if existing \<noteq> [] then lr_RecordHash (last existing) else genesisHash);
                 rec = \<lparr>lr_ID = int (length existing) + 1, lr_AccountID = accountID, lr_Amount = amount, lr_TxType = txType,
                        lr_ActorID = actorID, lr_Source = source, lr_PrevHash = prevHash, lr_RecordHash = [],
                        lr_CreatedAt = now\<rparr>
             in lst_Append (lg_store l) c (rec\<lparr>lr_RecordHash := hashRecord rec\<rparr>) w'))"

text \<open>The loop of \<^verbatim>\<open>VerifyChainIntegrity\<close>, from record number \<open>i\<close> on.\<close>

fun verifyFrom :: "nat \<Rightarrow> string \<Rightarrow> Record list \<Rightarrow> bool \<times> int \<times> go_error option" where
  "verifyFrom i expectedPrev [] = (True, 0, None)"
| "verifyFrom i expectedPrev (rec # recs) =
     (if lr_PrevHash rec \<noteq> expectedPrev then
        (False, int i + 1, Some (Errorf (''prev_hash mismatch at record '' @ FormatInt (int i + 1))))
      else if lr_RecordHash rec \<noteq> hashRecord rec then
        (False, int i + 1, Some (Errorf (''record_hash mismatch at record '' @ FormatInt (int i + 1))))
      else verifyFrom (Suc i) (lr_RecordHash rec) recs)"

definition VerifyChainIntegrity :: "'w Ledger \<Rightarrow> ctx \<Rightarrow> string \<Rightarrow> 'w \<Rightarrow> (bool \<times> int \<times> go_error option) \<times> 'w" where
  "VerifyChainIntegrity l c accountID w =
     (case lst_ListByAccount (lg_store l) c accountID w of
        (Inl e, w') \<Rightarrow> ((False, 0, Some e), w')
      | (Inr recs, w') \<Rightarrow> if recs = [] then ((True, 0, None), w') else (verifyFrom 0 genesisHash recs, w'))"

definition ledger_Balance :: "'w Ledger \<Rightarrow> ctx \<Rightarrow> string \<Rightarrow> 'w \<Rightarrow> (go_error + int) \<times> 'w" where
  "ledger_Balance l c accountID w =
     (case lst_ListByAccount (lg_store l) c accountID w of
        (Inl e, w') \<Rightarrow> (Inl e, w')
      | (Inr recs, w') \<Rightarrow> (Inr (fold (\<lambda>r total. i64 (total + lr_Amount r)) recs 0), w'))"

section \<open>What the ledger relies on\<close>

locale ledger_store =
  fixes St :: "'w ledgerStore"
    and log :: "string \<Rightarrow> 'w \<Rightarrow> Record list"
  assumes append_appends:
      "\<exists>w'. lst_Append St c rec w = (Inr rec, w') \<and>
         (\<forall>a. log a w' = (if a = lr_AccountID rec then log a w @ [rec] else log a w))"
    and list_reads: "lst_ListByAccount St c a w = (Inr (log a w), w)"

interpretation mem_ledger: ledger_store ledger_memory_Store "\<lambda>a s. recordsOf s a"
  by unfold_locales
    (auto simp: ledger_memory_Store_def ledger_memory_Append_def ledger_memory_ListByAccount_def recordsOf_def)

text \<open>An intact chain, and the same read from its end.\<close>

definition intact :: "Record list \<Rightarrow> bool" where
  "intact recs \<longleftrightarrow> verifyFrom 0 genesisHash recs = (True, 0, None)"

definition lastHash :: "string \<Rightarrow> Record list \<Rightarrow> string" where
  "lastHash h recs = (if recs = [] then h else lr_RecordHash (last recs))"

lemma verifyFrom_ok_shift: "verifyFrom i h recs = (True, 0, None) \<longleftrightarrow> verifyFrom j h recs = (True, 0, None)"
  by (induction recs arbitrary: i j h) auto

lemma verifyFrom_append:
  "verifyFrom i h (xs @ ys) = (True, 0, None) \<longleftrightarrow>
     verifyFrom i h xs = (True, 0, None) \<and> verifyFrom (i + length xs) (lastHash h xs) ys = (True, 0, None)"
  by (induction xs arbitrary: i h) (auto simp: lastHash_def)

lemma intact_snoc:
  "intact (recs @ [r]) \<longleftrightarrow> intact recs \<and> lr_PrevHash r = lastHash genesisHash recs \<and> lr_RecordHash r = hashRecord r"
  by (simp add: intact_def verifyFrom_append)

lemma intact_Nil [simp]: "intact []"
  by (simp add: intact_def)

lemma hashRecord_update [simp]: "hashRecord (r\<lparr>lr_RecordHash := h\<rparr>) = hashRecord r"
  by (simp add: hashRecord_def recordPayload_def)

context ledger_store
begin

lemma RecordTransaction_appends:
  assumes "RecordTransaction \<lparr>lg_store = St\<rparr> c now a amount ty actor src w = (x, w')"
  shows "a = [] \<and> w' = w \<and> x = Inl ledger_ErrKeyRequired \<or>
     (\<exists>r. x = Inr r \<and> lr_Amount r = amount \<and> lr_AccountID r = a \<and>
        lr_PrevHash r = lastHash genesisHash (log a w) \<and> lr_RecordHash r = hashRecord r \<and>
        (\<forall>b. log b w' = (if b = a then log b w @ [r] else log b w)))"
proof (cases "a = []")
  case True
  with assms show ?thesis by (simp add: RecordTransaction_def)
next
  case False
  define r0 where "r0 = \<lparr>lr_ID = int (length (log a w)) + 1, lr_AccountID = a, lr_Amount = amount, lr_TxType = ty,
      lr_ActorID = actor, lr_Source = src, lr_PrevHash = lastHash genesisHash (log a w), lr_RecordHash = [], lr_CreatedAt = now\<rparr>"
  let ?r = "r0\<lparr>lr_RecordHash := hashRecord r0\<rparr>"
  have f: "lr_AccountID r0 = a" "lr_Amount r0 = amount" "lr_PrevHash r0 = lastHash genesisHash (log a w)"
    by (simp_all add: r0_def)
  obtain v where v: "lst_Append St c ?r w = (Inr ?r, v)" "\<forall>b. log b v = (if b = a then log b w @ [?r] else log b w)"
    using append_appends [of c ?r w] f by auto
  have "RecordTransaction \<lparr>lg_store = St\<rparr> c now a amount ty actor src w = lst_Append St c ?r w"
    using False by (simp add: RecordTransaction_def list_reads lastHash_def Let_def r0_def)
  with assms v have "x = Inr ?r" "w' = v" by simp_all
  with v f show ?thesis by (intro disjI2 exI [of _ ?r]) simp
qed

lemma Verify_intact:
  "fst (VerifyChainIntegrity \<lparr>lg_store = St\<rparr> c a w) = (True, 0, None) \<longleftrightarrow> intact (log a w)"
  by (simp add: VerifyChainIntegrity_def list_reads intact_def)

lemma RecordTransaction_intact:
  assumes "RecordTransaction \<lparr>lg_store = St\<rparr> c now a amount ty actor src w = (x, w')" "intact (log b w)"
  shows "intact (log b w')"
  using RecordTransaction_appends [OF assms(1)] assms(2) by (auto simp: intact_snoc)

end

section \<open>Payloads without the separator\<close>

lemma Join_bar_inj:
  "length xs = length ys \<Longrightarrow> \<forall>x \<in> set xs \<union> set ys. CHR ''|'' \<notin> set x \<Longrightarrow> Join xs ''|'' = Join ys ''|'' \<Longrightarrow> xs = ys"
proof (induction xs ys rule: list_induct2)
  case (Cons x xs y ys)
  show ?case
  proof (cases xs)
    case Nil
    with Cons show ?thesis by simp
  next
    case (Cons x' xs')
    with \<open>length xs = length ys\<close> obtain y' ys' where ys: "ys = y' # ys'" by (cases ys) auto
    have "x @ CHR ''|'' # Join xs ''|'' = y @ CHR ''|'' # Join ys ''|''"
      using Cons.prems(2) ys Cons by simp
    then show ?thesis using Cons.IH Cons.prems(1) by (subst (asm) sep_append_inj) auto
  qed
qed simp

lemma bar_not_hex: "CHR ''|'' \<notin> set (EncodeToString b)"
proof -
  have "CHR ''|'' \<notin> set (hexByte c)" for c
  proof -
    have "of_char c div 16 < (16::nat)" using nat_of_char_less_256 [of c] by (simp add: less_mult_imp_div_less)
    moreover have "hexDigit d \<noteq> CHR ''|''" if "d < 16" for d :: nat
    proof
      assume "hexDigit d = CHR ''|''"
      then have "(of_char (hexDigit d) :: nat) = of_char (CHR ''|'')" by simp
      with that show False by (simp add: hexDigit_def split: if_splits)
    qed
    ultimately show ?thesis by (auto simp: hexByte_def dest: sym)
  qed
  then show ?thesis by (induction b) (auto simp: EncodeToString_def)
qed

lemma bar_not_pad: "CHR ''|'' \<notin> set (padLeft n (natDigits m))"
  by (auto simp: padLeft_def bar_not_digit)

lemma bar_not_frac: "CHR ''|'' \<notin> set (fmtFrac v p)"
proof -
  have "set (rev (dropWhile P (rev xs))) \<subseteq> set xs" for P and xs :: string
    using set_dropWhileD [of _ P "rev xs"] by fastforce
  then show ?thesis using bar_not_pad [of p "v mod 10 ^ p"] by (auto simp: fmtFrac_def Let_def)
qed

lemma bar_not_time: "CHR ''|'' \<notin> set (RFC3339Nano t)"
  using bar_not_pad bar_not_frac
  by (auto simp: RFC3339Nano_def formatYear_def pad2_def Let_def split: prod.splits)

text \<open>The fields the caller controls do not contain the separator.\<close>

definition barFree :: "Record \<Rightarrow> bool" where
  "barFree r \<longleftrightarrow> CHR ''|'' \<notin> set (lr_AccountID r) \<and> CHR ''|'' \<notin> set (lr_TxType r) \<and>
     CHR ''|'' \<notin> set (lr_ActorID r) \<and> CHR ''|'' \<notin> set (lr_Source r)"

text \<open>What the hash of a record covers: all but the number, and the time as text.\<close>

definition covered :: "Record \<Rightarrow> Record \<times> string" where
  "covered r = (r\<lparr>lr_ID := 0, lr_CreatedAt := 0\<rparr>, RFC3339Nano (lr_CreatedAt r))"

lemma payload_inj:
  assumes "barFree r" "barFree r'" "CHR ''|'' \<notin> set (lr_PrevHash r)" "CHR ''|'' \<notin> set (lr_PrevHash r')"
    and "lr_RecordHash r = lr_RecordHash r'" "recordPayload r = recordPayload r'"
  shows "covered r = covered r' \<and> lr_PrevHash r = lr_PrevHash r'"
proof -
  have "[lr_PrevHash r, lr_AccountID r, FormatInt (lr_Amount r), lr_TxType r, lr_ActorID r, lr_Source r, RFC3339Nano (lr_CreatedAt r)] =
      [lr_PrevHash r', lr_AccountID r', FormatInt (lr_Amount r'), lr_TxType r', lr_ActorID r', lr_Source r', RFC3339Nano (lr_CreatedAt r')]"
    using assms bar_not_FormatInt bar_not_time unfolding recordPayload_def by (intro Join_bar_inj) (auto simp: barFree_def)
  then show ?thesis using assms(5) FormatInt_inj by (cases r, cases r') (simp add: covered_def)
qed

lemma lastHash_no_bar: "intact recs \<Longrightarrow> CHR ''|'' \<notin> set (lastHash genesisHash recs)"
proof (cases recs rule: rev_cases)
  case Nil
  then show ?thesis by (simp add: lastHash_def genesisHash_def bar_not_hex)
next
  case (snoc ys y)
  moreover assume "intact recs"
  ultimately show ?thesis by (simp add: lastHash_def intact_snoc hashRecord_def bar_not_hex)
qed

lemma intact_determined:
  "intact recs \<Longrightarrow> intact recs' \<Longrightarrow> length recs = length recs' \<Longrightarrow> lastHash genesisHash recs = lastHash genesisHash recs' \<Longrightarrow>
     \<forall>r \<in> set recs \<union> set recs'. barFree r \<Longrightarrow> inj_on Sum256 (recordPayload ` (set recs \<union> set recs')) \<Longrightarrow>
     map covered recs = map covered recs'"
proof (induction recs arbitrary: recs' rule: rev_induct)
  case Nil
  then show ?case by simp
next
  case (snoc r recs)
  note ok = snoc.prems(1) [unfolded intact_snoc]
  from snoc.prems(3) obtain ys y where recs': "recs' = ys @ [y]" by (cases recs' rule: rev_cases) auto
  have ok': "intact ys" "lr_PrevHash y = lastHash genesisHash ys" "lr_RecordHash y = hashRecord y"
    using recs' snoc.prems(2) by (simp_all add: intact_snoc)
  have rh: "lr_RecordHash r = lr_RecordHash y" using snoc.prems(4) recs' by (simp add: lastHash_def)
  then have "Sum256 (recordPayload r) = Sum256 (recordPayload y)"
    using ok ok' by (simp add: hashRecord_def EncodeToString_inj)
  then have "recordPayload r = recordPayload y" by (rule inj_onD [OF snoc.prems(6)]) (simp_all add: recs')
  moreover have "CHR ''|'' \<notin> set (lr_PrevHash r)" "CHR ''|'' \<notin> set (lr_PrevHash y)"
    using ok ok' lastHash_no_bar by auto
  ultimately have "covered r = covered y \<and> lr_PrevHash r = lr_PrevHash y"
    using snoc.prems(5) recs' rh by (intro payload_inj) auto
  moreover from this have "map covered recs = map covered ys"
    using ok ok' snoc.prems(3,5,6) recs' by (intro snoc.IH) (auto intro: inj_on_subset)
  ultimately show ?case using recs' by simp
qed

section \<open>Guarantees\<close>

text \<open>A transaction as the callers of the ledger issue it, and a run of them.\<close>

record ledgerTx =
  tx_now :: time
  tx_account :: string
  tx_amount :: int
  tx_type :: string
  tx_actor :: string
  tx_source :: string

fun ledgerRun :: "'w Ledger \<Rightarrow> ledgerTx list \<Rightarrow> 'w \<Rightarrow> 'w" where
  "ledgerRun l [] w = w"
| "ledgerRun l (t # ts) w =
     ledgerRun l ts (snd (RecordTransaction l None (tx_now t) (tx_account t) (tx_amount t) (tx_type t) (tx_actor t) (tx_source t) w))"

lemma New_memory: "ledger_New ledger_memory_Store None = \<lparr>lg_store = ledger_memory_Store\<rparr>"
  by (simp add: ledger_New_def)

lemma ledgerRun_intact:
  "\<forall>a. intact (recordsOf s a) \<Longrightarrow> intact (recordsOf (ledgerRun \<lparr>lg_store = ledger_memory_Store\<rparr> ts s) a)"
proof (induction ts arbitrary: s)
  case (Cons t ts)
  obtain x s' where r: "RecordTransaction \<lparr>lg_store = ledger_memory_Store\<rparr> None (tx_now t) (tx_account t) (tx_amount t) (tx_type t)
      (tx_actor t) (tx_source t) s = (x, s')" by fastforce
  have "\<forall>a. intact (recordsOf s' a)" using mem_ledger.RecordTransaction_intact [OF r] Cons.prems by blast
  with Cons.IH [of s'] r show ?case by simp
qed simp



text \<open>A one-record chain and the same chain with another record number.\<close>

definition demoDraft :: Record where
  "demoDraft =
     \<lparr>lr_ID = 1, lr_AccountID = ''a'', lr_Amount = 5, lr_TxType = TxDeposit, lr_ActorID = ''u'', lr_Source = ''api'',
      lr_PrevHash = genesisHash, lr_RecordHash = [], lr_CreatedAt = 0\<rparr>"

definition demoRecord :: Record where
  "demoRecord = demoDraft\<lparr>lr_RecordHash := hashRecord demoDraft\<rparr>"

lemma demoRecord_hash: "lr_RecordHash demoRecord = hashRecord demoRecord"
  unfolding demoRecord_def hashRecord_update by simp

lemma demoRecord_fields:
  "lr_AccountID demoRecord = ''a''" "lr_TxType demoRecord = TxDeposit" "lr_ActorID demoRecord = ''u''" "lr_Source demoRecord = ''api''"
  "lr_PrevHash demoRecord = genesisHash"
  by (simp_all add: demoRecord_def demoDraft_def)

lemma demo_intact: "intact [demoRecord]" "intact [demoRecord\<lparr>lr_ID := 7\<rparr>]"
proof -
  have "hashRecord (demoRecord\<lparr>lr_ID := 7\<rparr>) = hashRecord demoRecord" by (simp add: hashRecord_def recordPayload_def)
  then show "intact [demoRecord]" "intact [demoRecord\<lparr>lr_ID := 7\<rparr>]" by (simp_all add: intact_def demoRecord_fields demoRecord_hash)
qed

definition demoLedger :: "Record \<Rightarrow> ledgerMemory" where
  "demoLedger r = \<lparr>lm_records = [''a'' \<mapsto> [r]]\<rparr>"

lemma recordsOf_new: "recordsOf ledger_NewMemoryStore a = []"
  by (simp add: recordsOf_def ledger_NewMemoryStore_def)

lemma recordsOf_demo: "recordsOf (demoLedger r) ''a'' = [r]"
  by (simp add: recordsOf_def demoLedger_def)


lemma verifyFrom_prefix:
  "verifyFrom i h xs = (True, 0, None) \<Longrightarrow> verifyFrom i h (xs @ ys) = verifyFrom (i + length xs) (lastHash h xs) ys"
  by (induction xs arbitrary: i h) (auto simp: lastHash_def split: if_splits)



text \<open>What the check cannot see. Cutting any number of records off the end of a verified chain leaves a chain that
  verifies, and so does renumbering its records.\<close>

theorem ledger_truncation_undetected:
  assumes "fst (VerifyChainIntegrity (ledger_New ledger_memory_Store None) c a s) = (True, 0, None)"
    and "recordsOf s a = kept @ dropped" "recordsOf s' a = map (\<lambda>r. r\<lparr>lr_ID := f r\<rparr>) kept"
  shows "fst (VerifyChainIntegrity (ledger_New ledger_memory_Store None) c a s') = (True, 0, None)"
proof -
  have "intact kept"
    using assms(1,2) unfolding New_memory mem_ledger.Verify_intact by (simp add: intact_def verifyFrom_append)
  moreover have "verifyFrom j h (map (\<lambda>r. r\<lparr>lr_ID := f r\<rparr>) rs) = verifyFrom j h rs" for j h rs
    by (induction rs arbitrary: j h) (simp_all add: hashRecord_def recordPayload_def)
  ultimately show ?thesis using assms(3) unfolding New_memory mem_ledger.Verify_intact by (simp add: intact_def)
qed

theorem ledger_truncation_undetected_witness:
  "fst (VerifyChainIntegrity (ledger_New ledger_memory_Store None) None ''a'' ledger_NewMemoryStore) = (True, 0, None)"
  by (rule ledger_truncation_undetected [where s = "demoLedger demoRecord" and kept = "[]" and dropped = "[demoRecord]" and f = lr_ID])
    (use demo_intact(1) in \<open>simp_all add: New_memory mem_ledger.Verify_intact recordsOf_demo recordsOf_new\<close>)

text \<open>The payload is ambiguous: moving a separator between two neighbouring fields gives another record with the
  same hash.\<close>

theorem ledger_payload_ambiguous:
  "hashRecord (r\<lparr>lr_ActorID := x @ ''|'' @ y, lr_Source := z\<rparr>) = hashRecord (r\<lparr>lr_ActorID := x, lr_Source := y @ ''|'' @ z\<rparr>)"
  by (simp add: hashRecord_def recordPayload_def)

text \<open>The balance of an account in the in-memory ledger is the 64-bit sum of the amounts recorded for it: a
  recorded transaction moves it by its amount, modulo \<open>2 ^ 64\<close>, and leaves the balances of other accounts alone.\<close>

theorem ledger_Balance_moves:
  assumes "RecordTransaction (ledger_New ledger_memory_Store None) c now a amount ty actor src s = (Inr r, s')"
    and "fst (ledger_Balance (ledger_New ledger_memory_Store None) c b s) = Inr old"
  shows "fst (ledger_Balance (ledger_New ledger_memory_Store None) c b s') = Inr (if b = a then i64 (old + amount) else old)"
proof -
  have "fold (\<lambda>r total. i64 (total + lr_Amount r)) (recordsOf s b) 0 = old"
    using assms(2) by (simp add: ledger_Balance_def New_memory mem_ledger.list_reads)
  then show ?thesis
    using mem_ledger.RecordTransaction_appends [OF assms(1) [unfolded New_memory]]
    by (auto simp: ledger_Balance_def New_memory mem_ledger.list_reads)
qed

theorem ledger_Balance_moves_witness:
  "\<exists>r s'. RecordTransaction (ledger_New ledger_memory_Store None) None 0 ''a'' 5 TxDeposit ''u'' ''api'' ledger_NewMemoryStore = (Inr r, s') \<and>
     fst (ledger_Balance (ledger_New ledger_memory_Store None) None ''a'' s') = Inr 5"
proof -
  obtain r s' where r: "RecordTransaction (ledger_New ledger_memory_Store None) None 0 ''a'' 5 TxDeposit ''u'' ''api'' ledger_NewMemoryStore = (Inr r, s')"
    by (simp add: RecordTransaction_def New_memory mem_ledger.list_reads Let_def)
      (simp add: ledger_memory_Store_def ledger_memory_Append_def)
  moreover have "fst (ledger_Balance (ledger_New ledger_memory_Store None) None ''a'' ledger_NewMemoryStore) = Inr 0"
    by (simp add: ledger_Balance_def New_memory mem_ledger.list_reads recordsOf_def ledger_NewMemoryStore_def)
  ultimately show ?thesis using ledger_Balance_moves [OF r, of "''a''" 0] by (simp add: in_i64_def)
qed

end
