(* ===== verification/Wallet.thy ===== *)
theory Wallet
  imports Ledger
begin

text \<open>
  Package \<^verbatim>\<open>example/wallet\<close>: balances in \<^verbatim>\<open>int64\<close> cents with the ledger entry of every movement. An operation takes the
  account and the world of the ledger and returns both. The theorems: balances stay between zero and the largest
  \<^verbatim>\<open>int64\<close> and agree with the ledger, a failed operation changes nothing, and the one amount for which this breaks.
\<close>

section \<open>Accounts\<close>

definition ErrInsufficientFunds :: go_error where
  "ErrInsufficientFunds = Sentinel ''wallet: insufficient funds''"

definition ErrInvalidAmount :: go_error where
  "ErrInvalidAmount = Sentinel ''wallet: amount must be positive''"

definition ErrOverflow :: go_error where
  "ErrOverflow = Sentinel ''wallet: amount overflow''"

record Account =
  totalCents :: int
  pendingWithdraw :: int

definition NewAccount :: "int \<Rightarrow> Account" where
  "NewAccount initialCents = \<lparr>totalCents = initialCents, pendingWithdraw = 0\<rparr>"

definition TotalCents :: "Account \<Rightarrow> int" where
  "TotalCents a = totalCents a"

definition AvailableCents :: "Account \<Rightarrow> int" where
  "AvailableCents a = i64 (totalCents a - pendingWithdraw a)"

definition validateAmount :: "int \<Rightarrow> go_error option" where
  "validateAmount amount =
     (if amount \<le> 0 then Some ErrInvalidAmount
      else if quot maxInt64 2 < amount then Some ErrOverflow
      else None)"

section \<open>Operations\<close>

definition Deposit :: "'w Ledger \<Rightarrow> ctx \<Rightarrow> time \<Rightarrow> int \<Rightarrow> string \<Rightarrow> string \<Rightarrow> Account \<times> 'w \<Rightarrow> go_error option \<times> Account \<times> 'w" where
  "Deposit lg c now amount actorID source st =
     (case st of (a, w) \<Rightarrow>
        (case validateAmount amount of
           Some e \<Rightarrow> (Some e, a, w)
         | None \<Rightarrow>
             if i64 (maxInt64 - amount) < totalCents a then (Some ErrOverflow, a, w)
             else
               (case RecordTransaction lg c now ''acct'' amount TxDeposit actorID source w of
                  (Inl e, w') \<Rightarrow> (Some e, a, w')
                | (Inr _, w') \<Rightarrow> (None, a\<lparr>totalCents := i64 (totalCents a + amount)\<rparr>, w'))))"

text \<open>The deferred statement takes the reservation back on every return after it was made.\<close>

definition Withdraw :: "'w Ledger \<Rightarrow> ctx \<Rightarrow> time \<Rightarrow> int \<Rightarrow> string \<Rightarrow> string \<Rightarrow> Account \<times> 'w \<Rightarrow> go_error option \<times> Account \<times> 'w" where
  "Withdraw lg c now amount actorID source st =
     (case st of (a, w) \<Rightarrow>
        (case validateAmount amount of
           Some e \<Rightarrow> (Some e, a, w)
         | None \<Rightarrow>
             let available = i64 (totalCents a - pendingWithdraw a) in
             if available < amount then (Some ErrInsufficientFunds, a, w)
             else if totalCents a < amount then (Some ErrInsufficientFunds, a, w)
             else
               let a1 = a\<lparr>pendingWithdraw := i64 (pendingWithdraw a + amount)\<rparr>;
                   unreserve = (\<lambda>b. b\<lparr>pendingWithdraw := i64 (pendingWithdraw b - amount)\<rparr>)
               in (case RecordTransaction lg c now ''acct'' (i64 (- amount)) TxWithdrawal actorID source w of
                     (Inl e, w') \<Rightarrow> (Some e, unreserve a1, w')
                   | (Inr _, w') \<Rightarrow> (None, unreserve (a1\<lparr>totalCents := i64 (totalCents a1 - amount)\<rparr>), w'))))"

definition SettleBet :: "'w Ledger \<Rightarrow> ctx \<Rightarrow> time \<Rightarrow> int \<Rightarrow> string \<Rightarrow> string \<Rightarrow> Account \<times> 'w \<Rightarrow> go_error option \<times> Account \<times> 'w" where
  "SettleBet lg c now delta actorID source st =
     (case st of (a, w) \<Rightarrow>
        if 0 < delta \<and> i64 (maxInt64 - delta) < totalCents a then (Some ErrOverflow, a, w)
        else if delta < 0 \<and> totalCents a < i64 (- delta) then (Some ErrInsufficientFunds, a, w)
        else
          (case RecordTransaction lg c now ''acct'' delta TxBetSettle actorID source w of
             (Inl e, w') \<Rightarrow> (Some e, a, w')
           | (Inr _, w') \<Rightarrow>
               (None,
                if 0 < delta then a\<lparr>totalCents := i64 (totalCents a + delta)\<rparr>
                else if delta < 0 then a\<lparr>totalCents := i64 (totalCents a - i64 (- delta))\<rparr>
                else a, w')))"

record Op =
  op_Kind :: string
  op_Amount :: int

definition Apply :: "'w Ledger \<Rightarrow> ctx \<Rightarrow> time \<Rightarrow> Op \<Rightarrow> Account \<times> 'w \<Rightarrow> go_error option \<times> Account \<times> 'w" where
  "Apply lg c now op st =
     (if op_Kind op = ''deposit'' then Deposit lg c now (op_Amount op) ''test'' ''property'' st
      else if op_Kind op = ''withdraw'' then Withdraw lg c now (op_Amount op) ''test'' ''property'' st
      else if op_Kind op = ''settle'' then SettleBet lg c now (op_Amount op) ''test'' ''property'' st
      else (None, st))"

section \<open>Invariant and conservation\<close>

definition wf_account :: "Account \<Rightarrow> bool" where
  "wf_account a \<longleftrightarrow> 0 \<le> totalCents a \<and> totalCents a \<le> maxInt64 \<and> pendingWithdraw a = 0"

text \<open>Amounts a caller can pass, without the one value whose negation wraps.\<close>

definition sane_op :: "Op \<Rightarrow> bool" where
  "sane_op op \<longleftrightarrow> in_i64 (op_Amount op) \<and> op_Amount op \<noteq> minInt64"

lemmas wallet_defs = Apply_def Deposit_def Withdraw_def SettleBet_def validateAmount_def wf_account_def sane_op_def
  in_i64_def maxInt64_def minInt64_def Let_def

lemma Apply_wf:
  assumes "wf_account a" "sane_op op" "Apply lg c now op (a, w) = (e, a', w')"
  shows "wf_account a' \<and> (e \<noteq> None \<longrightarrow> a' = a)"
proof -
  have i: "i64 x = x" if "- 9223372036854775808 \<le> x" "x < 9223372036854775808" for x
    using that by (simp add: in_i64_def)
  from assms show ?thesis
    by (cases a) (auto simp: wallet_defs i quot_def split: if_splits sum.splits prod.splits)
qed

abbreviation memLedger :: "ledgerMemory Ledger" where
  "memLedger \<equiv> ledger_New ledger_memory_Store None"

lemma memory_Record:
  obtains r s' where "RecordTransaction memLedger c now ''acct'' amount ty actor src s = (Inr r, s')" "lr_Amount r = amount"
    "\<forall>b. recordsOf s' b = (if b = ''acct'' then recordsOf s b @ [r] else recordsOf s b)"
proof -
  obtain x s' where r: "RecordTransaction memLedger c now ''acct'' amount ty actor src s = (x, s')" by fastforce
  from mem_ledger.RecordTransaction_appends [OF r [unfolded New_memory]] obtain y where "x = Inr y" "lr_Amount y = amount"
    "\<forall>b. recordsOf s' b = (if b = ''acct'' then recordsOf s b @ [y] else recordsOf s b)" by auto
  with r that show thesis by blast
qed

text \<open>What an operation over the in-memory ledger does to balance and ledger: nothing, or one record with the
  movement.\<close>

definition moved :: "Account \<times> ledgerMemory \<Rightarrow> go_error option \<times> Account \<times> ledgerMemory \<Rightarrow> bool" where
  "moved st out \<longleftrightarrow>
     (case (st, out) of ((a, s), (e, a', s')) \<Rightarrow>
        (\<exists>new. (\<forall>b. recordsOf s' b = (if b = ''acct'' then recordsOf s b @ new else recordsOf s b)) \<and>
           totalCents a' = totalCents a + sum_list (map lr_Amount new) \<and> (e \<noteq> None \<longrightarrow> s' = s \<and> a' = a)))"

lemma moved_none: "moved (a, s) (e, a, s)"
  by (auto simp: moved_def intro: exI [of _ "[]"])

lemma moved_one:
  "\<forall>b. recordsOf s' b = (if b = ''acct'' then recordsOf s b @ [r] else recordsOf s b) \<Longrightarrow>
     totalCents a' = totalCents a + lr_Amount r \<Longrightarrow> moved (a, s) (None, a', s')"
  by (auto simp: moved_def intro: exI [of _ "[r]"])

lemma Deposit_moved:
  assumes "wf_account a" "in_i64 amount"
  shows "moved (a, s) (Deposit memLedger c now amount actor src (a, s))"
proof -
  obtain r s' where "RecordTransaction memLedger c now ''acct'' amount TxDeposit actor src s = (Inr r, s')" "lr_Amount r = amount"
    "\<forall>b. recordsOf s' b = (if b = ''acct'' then recordsOf s b @ [r] else recordsOf s b)" by (rule memory_Record)
  with assms show ?thesis
    by (auto simp: wallet_defs quot_def moved_none intro!: moved_one split: option.splits)
qed

lemma Withdraw_moved:
  assumes "wf_account a" "in_i64 amount"
  shows "moved (a, s) (Withdraw memLedger c now amount actor src (a, s))"
proof -
  obtain r s' where "RecordTransaction memLedger c now ''acct'' (i64 (- amount)) TxWithdrawal actor src s = (Inr r, s')"
    "lr_Amount r = i64 (- amount)"
    "\<forall>b. recordsOf s' b = (if b = ''acct'' then recordsOf s b @ [r] else recordsOf s b)" by (rule memory_Record)
  with assms show ?thesis
    by (auto simp: wallet_defs quot_def moved_none intro!: moved_one split: option.splits)
qed

lemma SettleBet_moved:
  assumes "wf_account a" "in_i64 delta" "delta \<noteq> minInt64"
  shows "moved (a, s) (SettleBet memLedger c now delta actor src (a, s))"
proof -
  obtain r s' where "RecordTransaction memLedger c now ''acct'' delta TxBetSettle actor src s = (Inr r, s')" "lr_Amount r = delta"
    "\<forall>b. recordsOf s' b = (if b = ''acct'' then recordsOf s b @ [r] else recordsOf s b)" by (rule memory_Record)
  with assms show ?thesis
    by (auto simp: wallet_defs moved_none intro!: moved_one split: if_splits)
qed

lemma Apply_moved: "wf_account a \<Longrightarrow> sane_op op \<Longrightarrow> moved (a, s) (Apply memLedger c now op (a, s))"
  by (simp add: Apply_def sane_op_def Deposit_moved Withdraw_moved SettleBet_moved moved_none)

text \<open>A run of operations, each at its own clock reading; errors are ignored, as by the test that drives \<^verbatim>\<open>Apply\<close>.\<close>

fun walletRun :: "'w Ledger \<Rightarrow> (time \<times> Op) list \<Rightarrow> Account \<times> 'w \<Rightarrow> Account \<times> 'w" where
  "walletRun lg [] st = st"
| "walletRun lg ((now, op) # ops) st = walletRun lg ops (snd (Apply lg None now op st))"

section \<open>Guarantees\<close>



text \<open>C10: Balance and ledger agree: over the in-memory ledger the change of the total over any such sequence is exactly
  the sum of the amounts it appended to the ledger, with no wrap-around.\<close>

theorem wallet_ledger_conservation:
  assumes "wf_account a" "\<forall>(t, op) \<in> set ops. sane_op op" "walletRun memLedger ops (a, s) = (a', s')"
  shows "\<exists>new. recordsOf s' ''acct'' = recordsOf s ''acct'' @ new \<and> totalCents a' = totalCents a + sum_list (map lr_Amount new)"
  using assms
proof (induction ops arbitrary: a s)
  case (Cons p ops)
  obtain t op where p: "p = (t, op)" by fastforce
  obtain e a1 s1 where ap: "Apply memLedger None t op (a, s) = (e, a1, s1)" by (metis prod.collapse)
  have op: "sane_op op" using Cons.prems(2) p by auto
  obtain new1 where one: "recordsOf s1 ''acct'' = recordsOf s ''acct'' @ new1" "totalCents a1 = totalCents a + sum_list (map lr_Amount new1)"
    using Apply_moved [OF Cons.prems(1) op, of s None t] ap by (auto simp: moved_def)
  have "wf_account a1" using Apply_wf [OF Cons.prems(1) op ap] by simp
  then obtain new2 where "recordsOf s' ''acct'' = recordsOf s1 ''acct'' @ new2" "totalCents a' = totalCents a1 + sum_list (map lr_Amount new2)"
    using Cons.IH [of a1 s1] Cons.prems p ap by auto
  with one show ?case by (intro exI [of _ "new1 @ new2"]) simp
qed (auto intro: exI [of _ "[]"])

theorem wallet_ledger_conservation_witness:
  "\<exists>a' s' new. walletRun memLedger [(0, \<lparr>op_Kind = ''deposit'', op_Amount = 10\<rparr>), (1, \<lparr>op_Kind = ''settle'', op_Amount = -4\<rparr>)]
       (NewAccount 5, ledger_NewMemoryStore) = (a', s') \<and>
     recordsOf s' ''acct'' = recordsOf ledger_NewMemoryStore ''acct'' @ new \<and> totalCents a' = 5 + sum_list (map lr_Amount new)"
proof -
  obtain a' s' where r: "walletRun memLedger [(0, \<lparr>op_Kind = ''deposit'', op_Amount = 10\<rparr>), (1, \<lparr>op_Kind = ''settle'', op_Amount = -4\<rparr>)]
       (NewAccount 5, ledger_NewMemoryStore) = (a', s')" by (metis prod.collapse)
  have "\<exists>new. recordsOf s' ''acct'' = recordsOf ledger_NewMemoryStore ''acct'' @ new \<and>
      totalCents a' = totalCents (NewAccount 5) + sum_list (map lr_Amount new)"
    by (rule wallet_ledger_conservation [OF _ _ r]) (simp_all add: wf_account_def NewAccount_def maxInt64_def sane_op_def in_i64_def minInt64_def)
  with r show ?thesis by (auto simp: NewAccount_def)
qed

text \<open>C19: A withdrawal is all or nothing: it succeeds exactly when the amount is valid and covered, and then takes
  exactly the amount; otherwise it reports an error and neither account nor ledger changes.\<close>

theorem wallet_Withdraw_exact:
  assumes "wf_account a" "in_i64 amount" "Withdraw memLedger c now amount actor src (a, s) = (e, a', s')"
  shows "(e = None \<longleftrightarrow> 0 < amount \<and> amount \<le> 4611686018427387903 \<and> amount \<le> totalCents a) \<and>
     (e = None \<longrightarrow> a' = a\<lparr>totalCents := totalCents a - amount\<rparr>) \<and> (e \<noteq> None \<longrightarrow> a' = a \<and> s' = s)"
proof -
  obtain r s1 where "RecordTransaction memLedger c now ''acct'' (i64 (- amount)) TxWithdrawal actor src s = (Inr r, s1)"
    by (rule memory_Record)
  with assms show ?thesis
    by (cases a) (auto simp: wallet_defs quot_def split: if_splits)
qed

theorem wallet_Withdraw_exact_witness:
  "fst (Withdraw memLedger None 0 9 ''u'' ''api'' (NewAccount 5, ledger_NewMemoryStore)) \<noteq> None \<and>
   fst (Withdraw memLedger None 0 5 ''u'' ''api'' (NewAccount 5, ledger_NewMemoryStore)) = None"
proof -
  have wf: "wf_account (NewAccount 5)" "in_i64 9" "in_i64 5" by (simp_all add: wf_account_def NewAccount_def maxInt64_def in_i64_def)
  obtain e1 a1 s1 where 1: "Withdraw memLedger None 0 9 ''u'' ''api'' (NewAccount 5, ledger_NewMemoryStore) = (e1, a1, s1)"
    by (metis prod.collapse)
  obtain e2 a2 s2 where 2: "Withdraw memLedger None 0 5 ''u'' ''api'' (NewAccount 5, ledger_NewMemoryStore) = (e2, a2, s2)"
    by (metis prod.collapse)
  show ?thesis
    using wallet_Withdraw_exact [OF wf(1,2) 1] wallet_Withdraw_exact [OF wf(1,3) 2] 1 2 by (simp add: NewAccount_def)
qed

text \<open>A settlement of the least \<^verbatim>\<open>int64\<close> passes the funds check, because its negation wraps to itself: whatever the
  balance, it is accepted and leaves the account with a negative total.\<close>

theorem wallet_SettleBet_min:
  assumes "wf_account a"
  shows "\<exists>a' s'. SettleBet memLedger c now minInt64 actor src (a, s) = (None, a', s') \<and> totalCents a' < 0"
proof -
  obtain r s1 where "RecordTransaction memLedger c now ''acct'' minInt64 TxBetSettle actor src s = (Inr r, s1)"
    by (rule memory_Record)
  moreover have "i64 (totalCents a + 9223372036854775808) < 0"
    using assms by (simp add: i64_def wf_account_def maxInt64_def)
  ultimately show ?thesis using assms
    by (simp add: SettleBet_def minInt64_def wf_account_def i64_def maxInt64_def)
qed

theorem wallet_SettleBet_min_witness:
  "\<exists>a' s'. SettleBet memLedger None 0 minInt64 ''u'' ''api'' (NewAccount 5, ledger_NewMemoryStore) = (None, a', s') \<and> totalCents a' < 0"
  by (rule wallet_SettleBet_min) (simp add: wf_account_def NewAccount_def maxInt64_def)

text \<open>Every wallet files its movements under the one ledger account \<^verbatim>\<open>acct\<close>: the chain of any other account,
  the wallet owner's own included, never changes.\<close>

theorem wallet_one_ledger_account:
  assumes "wf_account a" "in_i64 amount" "owner \<noteq> ''acct''"
  shows "recordsOf (snd (snd (Withdraw memLedger c now amount owner src (a, s)))) owner = recordsOf s owner"
  using Withdraw_moved [OF assms(1,2), of s c now owner src] assms(3) by (auto simp: moved_def split: prod.splits)

theorem wallet_one_ledger_account_witness:
  "recordsOf (snd (snd (Withdraw memLedger None 0 5 ''acct-1001'' ''api'' (NewAccount 5, ledger_NewMemoryStore)))) ''acct-1001'' =
     recordsOf ledger_NewMemoryStore ''acct-1001''"
  by (rule wallet_one_ledger_account) (simp_all add: wf_account_def NewAccount_def maxInt64_def in_i64_def)

end
