(* ===== verification/Stepup.thy ===== *)
theory Stepup
  imports Http
begin

text \<open>
  Package \<^verbatim>\<open>stepup\<close>: risk levels and the default assessor, the in-memory challenge store and the manager
  (\<^verbatim>\<open>stepup.go\<close>), and the middleware (\<^verbatim>\<open>middleware.go\<close>). The locale \<open>stepup_store\<close> is the contract of a challenge store.
  The theorems: a sensitive action goes through only against an open challenge for that account and action, every
  challenge is good for one action, and what opens the gate without a second factor.
\<close>

section \<open>Risk\<close>

text \<open>\<^verbatim>\<open>RiskLevel\<close> is an \<^verbatim>\<open>int\<close>; an assessor may return values beyond the three named ones.\<close>

type_synonym RiskLevel = int

definition RiskLow :: RiskLevel where "RiskLow = 0"
definition RiskMedium :: RiskLevel where "RiskMedium = 1"
definition RiskHigh :: RiskLevel where "RiskHigh = 2"

definition RiskLevel_String :: "RiskLevel \<Rightarrow> string" where
  "RiskLevel_String l =
     (if l = RiskLow then ''low'' else if l = RiskMedium then ''medium'' else if l = RiskHigh then ''high'' else ''unknown'')"

definition RequiresStepUp :: "RiskLevel \<Rightarrow> bool" where
  "RequiresStepUp l \<longleftrightarrow> RiskMedium \<le> l"

record Signals =
  sg_AccountID :: string
  sg_DeviceFP :: string
  sg_Action :: string
  sg_KnownDevice :: bool
  sg_VelocityFlagged :: bool

type_synonym RiskAssessor = "ctx \<Rightarrow> Signals \<Rightarrow> go_error + RiskLevel"

definition DefaultAssessor_Assess :: RiskAssessor where
  "DefaultAssessor_Assess c s =
     (if \<not> sg_KnownDevice s \<and> sg_VelocityFlagged s then Inr RiskHigh
      else if \<not> sg_KnownDevice s then Inr RiskMedium
      else if sg_VelocityFlagged s then Inr RiskMedium
      else Inr RiskLow)"

section \<open>Challenges\<close>

record 'w challengeStore =
  cs_Issue :: "ctx \<Rightarrow> time \<Rightarrow> go_error + bytes \<Rightarrow> string \<Rightarrow> string \<Rightarrow> RiskLevel \<Rightarrow> duration \<Rightarrow> 'w \<Rightarrow> (go_error + string) \<times> 'w"
  cs_Verify :: "ctx \<Rightarrow> time \<Rightarrow> string \<Rightarrow> string \<Rightarrow> string \<Rightarrow> 'w \<Rightarrow> (go_error + bool) \<times> 'w"
  cs_Consume :: "ctx \<Rightarrow> string \<Rightarrow> string \<Rightarrow> string \<Rightarrow> 'w \<Rightarrow> go_error option \<times> 'w"

definition ErrStepUpRequired :: go_error where
  "ErrStepUpRequired = Sentinel ''stepup: verification required''"

record memoryChallenge =
  mc_level :: RiskLevel
  mc_expiresAt :: time

record challengeMemory =
  challenges :: "string \<rightharpoonup> memoryChallenge"

definition NewMemoryChallengeStore :: challengeMemory where
  "NewMemoryChallengeStore = \<lparr>challenges = Map.empty\<rparr>"

definition challengeKey :: "string \<Rightarrow> string \<Rightarrow> string \<Rightarrow> string" where
  "challengeKey account action token = account @ ''|'' @ action @ ''|'' @ token"

definition stepup_randomToken :: "go_error + bytes \<Rightarrow> go_error + string" where
  "stepup_randomToken rnd = (case rnd of Inl e \<Rightarrow> Inl e | Inr b \<Rightarrow> Inr (EncodeToString b))"

definition challenge_memory_Issue :: "ctx \<Rightarrow> time \<Rightarrow> go_error + bytes \<Rightarrow> string \<Rightarrow> string \<Rightarrow> RiskLevel \<Rightarrow> duration \<Rightarrow>
    challengeMemory \<Rightarrow> (go_error + string) \<times> challengeMemory" where
  "challenge_memory_Issue c now rnd accountID action level ttl s =
     (case stepup_randomToken rnd of
        Inl e \<Rightarrow> (Inl e, s)
      | Inr token \<Rightarrow>
          (Inr token, s\<lparr>challenges := (challenges s)(challengeKey accountID action token \<mapsto>
             \<lparr>mc_level = level, mc_expiresAt = time_Add now ttl\<rparr>)\<rparr>))"

definition challenge_memory_Verify :: "ctx \<Rightarrow> time \<Rightarrow> string \<Rightarrow> string \<Rightarrow> string \<Rightarrow> challengeMemory \<Rightarrow>
    (go_error + bool) \<times> challengeMemory" where
  "challenge_memory_Verify c now accountID action token s =
     (case challenges s (challengeKey accountID action token) of
        None \<Rightarrow> (Inr False, s)
      | Some ch \<Rightarrow> if time_After now (mc_expiresAt ch) then (Inr False, s) else (Inr True, s))"

definition challenge_memory_Consume :: "ctx \<Rightarrow> string \<Rightarrow> string \<Rightarrow> string \<Rightarrow> challengeMemory \<Rightarrow> go_error option \<times> challengeMemory" where
  "challenge_memory_Consume c accountID action token s =
     (None, s\<lparr>challenges := (challenges s)(challengeKey accountID action token := None)\<rparr>)"

definition challenge_memory_Store :: "challengeMemory challengeStore" where
  "challenge_memory_Store =
     \<lparr>cs_Issue = challenge_memory_Issue, cs_Verify = challenge_memory_Verify, cs_Consume = challenge_memory_Consume\<rparr>"

section \<open>The manager\<close>

record 'w stepupManager =
  sm_assessor :: RiskAssessor
  sm_store :: "'w challengeStore"
  sm_ttl :: duration

text \<open>\<^verbatim>\<open>WithTokenTTL(ttl)\<close> and \<^verbatim>\<open>NewManager(assessor, store, opts...)\<close>; \<open>None\<close> is nil.\<close>

definition stepup_WithTokenTTL :: "duration \<Rightarrow> 'w stepupManager \<Rightarrow> 'w stepupManager" where
  "stepup_WithTokenTTL ttl m = (if 0 < ttl then m\<lparr>sm_ttl := ttl\<rparr> else m)"

definition stepup_NewManager :: "'w challengeStore \<Rightarrow> RiskAssessor option \<Rightarrow> 'w challengeStore option \<Rightarrow>
    ('w stepupManager \<Rightarrow> 'w stepupManager) list \<Rightarrow> 'w stepupManager" where
  "stepup_NewManager dflt assessor store opts =
     fold (\<lambda>f m. f m) opts
       \<lparr>sm_assessor = (case assessor of None \<Rightarrow> DefaultAssessor_Assess | Some a \<Rightarrow> a),
        sm_store = (case store of None \<Rightarrow> dflt | Some s \<Rightarrow> s), sm_ttl = 10 * minute\<rparr>"

text \<open>\<^verbatim>\<open>Check\<close> returns the challenge token, the risk level and the error; \<open>nows 0\<close> is the clock of \<^verbatim>\<open>Verify\<close>, \<open>nows 1\<close>
  that of \<^verbatim>\<open>Issue\<close>.\<close>

definition stepup_Check :: "'w stepupManager \<Rightarrow> ctx \<Rightarrow> (nat \<Rightarrow> time) \<Rightarrow> go_error + bytes \<Rightarrow> Signals \<Rightarrow> string \<Rightarrow> 'w \<Rightarrow>
    (string \<times> RiskLevel \<times> go_error option) \<times> 'w" where
  "stepup_Check m c nows rnd signals headerToken w =
     (case sm_assessor m c signals of
        Inl e \<Rightarrow> (([], RiskLow, Some e), w)
      | Inr level \<Rightarrow>
          if \<not> RequiresStepUp level then (([], level, None), w)
          else
            let issue = (\<lambda>v.
              (case cs_Issue (sm_store m) c (nows 1) rnd (sg_AccountID signals) (sg_Action signals) level (sm_ttl m) v of
                 (Inl e, v') \<Rightarrow> (([], level, Some e), v')
               | (Inr token, v') \<Rightarrow> ((token, level, Some ErrStepUpRequired), v')))
            in if headerToken \<noteq> [] then
                 (case cs_Verify (sm_store m) c (nows 0) (sg_AccountID signals) (sg_Action signals) headerToken w of
                    (Inl e, w') \<Rightarrow> (([], level, Some e), w')
                  | (Inr ok, w') \<Rightarrow>
                      if ok then
                        (([], level, None),
                         snd (cs_Consume (sm_store m) c (sg_AccountID signals) (sg_Action signals) headerToken w'))
                      else issue w')
               else issue w)"

section \<open>The middleware\<close>

definition stepup_HeaderToken :: "httpRequest \<Rightarrow> string" where
  "stepup_HeaderToken r = header_Get r ''X-Step-Up-Token''"

record 'w stepupOptions =
  so_AccountKey :: "(httpRequest \<Rightarrow> string) option"
  so_DeviceFP :: "(httpRequest \<Rightarrow> string) option"
  so_Action :: string
  so_KnownDevice :: "(httpRequest \<Rightarrow> string \<Rightarrow> 'w \<Rightarrow> (go_error + bool) \<times> 'w) option"
  so_VelocityFlagged :: "(httpRequest \<Rightarrow> string \<Rightarrow> bool) option"

definition stepup_writeError :: "int \<Rightarrow> string \<Rightarrow> rw_act list" where
  "stepup_writeError status msg =
     [SetHeader ''Content-Type'' ''application/json'', WriteHeader status, Encode [(''error'', JStr msg)]]"

definition stepup_required :: "RiskLevel \<Rightarrow> string \<Rightarrow> rw_act list" where
  "stepup_required level token =
     [SetHeader ''Content-Type'' ''application/json'', SetHeader ''X-Step-Up-Required'' ''true'', WriteHeader 403,
      Encode [(''challenge_token'', JStr token), (''error'', JStr ''step-up verification required''),
              (''risk_level'', JStr (RiskLevel_String level))]]"

definition stepup_Middleware :: "'w stepupManager \<Rightarrow> 'w stepupOptions \<Rightarrow> (nat \<Rightarrow> time) \<Rightarrow> go_error + bytes \<Rightarrow> 'w handler \<Rightarrow> 'w handler" where
  "stepup_Middleware m opt nows rnd next r w =
     (let accountID = (case so_AccountKey opt of None \<Rightarrow> header_Get r ''X-Account-ID'' | Some f \<Rightarrow> f r);
          deviceFP = (case so_DeviceFP opt of None \<Rightarrow> header_Get r ''X-Device-FP'' | Some f \<Rightarrow> f r);
          flagged = (case so_VelocityFlagged opt of None \<Rightarrow> False | Some f \<Rightarrow> f r accountID)
      in case (case so_KnownDevice opt of None \<Rightarrow> (Inr False, w) | Some f \<Rightarrow> f r accountID w) of
           (Inl e, w1) \<Rightarrow> (stepup_writeError 500 ''device trust check failed'', Returned (), w1)
         | (Inr known, w1) \<Rightarrow>
             (case stepup_Check m (rq_ctx r) nows rnd
                     \<lparr>sg_AccountID = accountID, sg_DeviceFP = deviceFP, sg_Action = so_Action opt, sg_KnownDevice = known,
                      sg_VelocityFlagged = flagged\<rparr> (stepup_HeaderToken r) w1 of
                ((token, level, None), w2) \<Rightarrow> next r w2
              | ((token, level, Some e), w2) \<Rightarrow>
                  if e \<noteq> ErrStepUpRequired then (stepup_writeError 500 (error_Error e), Returned (), w2)
                  else (stepup_required level token, Returned (), w2)))"

section \<open>The contract of a challenge store\<close>

text \<open>\<open>opens now a x t w\<close>: the token opens the action \<open>x\<close> of account \<open>a\<close> at \<open>now\<close>.\<close>

locale stepup_store =
  fixes St :: "'w challengeStore"
    and opens :: "time \<Rightarrow> string \<Rightarrow> string \<Rightarrow> string \<Rightarrow> 'w \<Rightarrow> bool"
  assumes verify_reads: "cs_Verify St c now a x t w = (Inr (opens now a x t w), w)"
    and consume_closes: "\<not> opens now a x t (snd (cs_Consume St c a x t w))"
    and issue_total: "\<exists>w'. cs_Issue St c now (Inr b) a x l d w = (Inr (EncodeToString b), w')"
    and issue_opens: "cs_Issue St c now (Inr b) a x l d w = (Inr tok, w') \<Longrightarrow> now' \<le> now + d \<Longrightarrow> opens now' a x tok w'"
    and issue_frame: "cs_Issue St c now (Inr b) a x l d w = (Inr tok, w') \<Longrightarrow> tok' \<noteq> tok \<Longrightarrow> opens now' a x tok' w' = opens now' a x tok' w"

definition memoryOpens :: "time \<Rightarrow> string \<Rightarrow> string \<Rightarrow> string \<Rightarrow> challengeMemory \<Rightarrow> bool" where
  "memoryOpens now a x t s =
     (case challenges s (challengeKey a x t) of None \<Rightarrow> False | Some ch \<Rightarrow> \<not> time_After now (mc_expiresAt ch))"

lemma challengeKey_token: "challengeKey a x t = challengeKey a x t' \<longleftrightarrow> t = t'"
  by (simp add: challengeKey_def)

interpretation mem_stepup: stepup_store challenge_memory_Store memoryOpens
  by unfold_locales
    (auto simp: challenge_memory_Store_def challenge_memory_Verify_def challenge_memory_Consume_def challenge_memory_Issue_def
      stepup_randomToken_def memoryOpens_def challengeKey_token time_After_def time_Add_def split: option.splits)

context stepup_store
begin

lemma Check_passes_iff:
  assumes "sm_store m = St" "sm_assessor m c sig = Inr level"
  shows "snd (snd (fst (stepup_Check m c nows (Inr b) sig tok w))) = None \<longleftrightarrow>
     \<not> RequiresStepUp level \<or> tok \<noteq> [] \<and> opens (nows 0) (sg_AccountID sig) (sg_Action sig) tok w"
  using assms issue_total [of c "nows 1" b "sg_AccountID sig" "sg_Action sig" level "sm_ttl m" w]
  by (auto simp: stepup_Check_def verify_reads Let_def split: prod.splits sum.splits)

lemma Check_used:
  assumes "sm_store m = St" "sm_assessor m c sig = Inr level" "RequiresStepUp level"
    and "stepup_Check m c nows (Inr b) sig tok w = ((t, l, None), w')"
  shows "\<not> opens now (sg_AccountID sig) (sg_Action sig) tok w'"
  using assms consume_closes issue_total [of c "nows 1" b "sg_AccountID sig" "sg_Action sig" level "sm_ttl m" w]
  by (auto simp: stepup_Check_def verify_reads Let_def split: if_splits)

lemma Check_issued:
  assumes "sm_store m = St" "sm_assessor m c sig = Inr level"
    and "stepup_Check m c nows (Inr b) sig tok w = ((t, l, Some ErrStepUpRequired), w')" "now' \<le> nows 1 + sm_ttl m"
  shows "opens now' (sg_AccountID sig) (sg_Action sig) t w'"
proof -
  have "cs_Issue St c (nows 1) (Inr b) (sg_AccountID sig) (sg_Action sig) level (sm_ttl m) w = (Inr t, w')"
    using assms(1-3) issue_total [of c "nows 1" b "sg_AccountID sig" "sg_Action sig" level "sm_ttl m" w]
    by (auto simp: stepup_Check_def verify_reads Let_def split: if_splits)
  then show ?thesis using assms(4) by (rule issue_opens)
qed

end

section \<open>Guarantees\<close>

text \<open>The manager the example application builds: default assessor, in-memory challenges.\<close>

definition memStepup :: "duration \<Rightarrow> challengeMemory stepupManager" where
  "memStepup ttl = stepup_NewManager challenge_memory_Store (Some DefaultAssessor_Assess) None [stepup_WithTokenTTL ttl]"

lemma memStepup_fields: "sm_store (memStepup ttl) = challenge_memory_Store" "sm_assessor (memStepup ttl) = DefaultAssessor_Assess"
    "0 < sm_ttl (memStepup ttl)"
  by (auto simp: memStepup_def stepup_NewManager_def stepup_WithTokenTTL_def minute_def)

lemma DefaultAssessor_level:
  "\<exists>l. DefaultAssessor_Assess c sig = Inr l \<and> (RequiresStepUp l \<longleftrightarrow> \<not> sg_KnownDevice sig \<or> sg_VelocityFlagged sig)"
  by (auto simp: DefaultAssessor_Assess_def RequiresStepUp_def RiskHigh_def RiskMedium_def RiskLow_def)

text \<open>C23: The gate is sound and complete: \<^verbatim>\<open>Check\<close> lets an action through exactly when the device is known and velocity
  raised no flag, or the request carries a token whose challenge for this account and action is open.\<close>

theorem stepup_gate:
  "snd (snd (fst (stepup_Check (memStepup ttl) c nows (Inr b) sig tok s))) = None \<longleftrightarrow>
     sg_KnownDevice sig \<and> \<not> sg_VelocityFlagged sig \<or>
     tok \<noteq> [] \<and> memoryOpens (nows 0) (sg_AccountID sig) (sg_Action sig) tok s"
  using mem_stepup.Check_passes_iff [of "memStepup ttl" c sig _ nows b tok s] DefaultAssessor_level [of c sig] memStepup_fields
  by metis


definition riskySignals :: Signals where
  "riskySignals = \<lparr>sg_AccountID = ''a'', sg_DeviceFP = ''fp'', sg_Action = ''withdraw'', sg_KnownDevice = False, sg_VelocityFlagged = False\<rparr>"

definition openStore :: challengeMemory where
  "openStore = \<lparr>challenges = [challengeKey ''a'' ''withdraw'' ''tok'' \<mapsto> \<lparr>mc_level = RiskMedium, mc_expiresAt = 100\<rparr>]\<rparr>"

lemma openStore_passes:
  "\<exists>t l s'. stepup_Check (memStepup 0) None (\<lambda>i. 5) (Inr ''x'') riskySignals ''tok'' openStore = ((t, l, None), s')"
proof -
  have "snd (snd (fst (stepup_Check (memStepup 0) None (\<lambda>i. 5) (Inr ''x'') riskySignals ''tok'' openStore))) = None"
    using mem_stepup.Check_passes_iff [of "memStepup 0" None riskySignals RiskMedium "\<lambda>i. 5" "''x''" "''tok''" openStore] memStepup_fields
    by (simp add: riskySignals_def DefaultAssessor_Assess_def openStore_def memoryOpens_def time_After_def)
  then show ?thesis by (metis prod.collapse)
qed


text \<open>A run of checks: how many risky actions pass on a token and how many challenges are issued.\<close>

record stepupCall =
  sc_nows :: "nat \<Rightarrow> time"
  sc_rnd :: bytes
  sc_signals :: Signals
  sc_token :: string

definition riskyCall :: "stepupCall \<Rightarrow> bool" where
  "riskyCall x \<longleftrightarrow> \<not> sg_KnownDevice (sc_signals x) \<or> sg_VelocityFlagged (sc_signals x)"

fun stepupRun :: "challengeMemory stepupManager \<Rightarrow> stepupCall list \<Rightarrow> challengeMemory \<Rightarrow> nat \<times> nat \<times> challengeMemory" where
  "stepupRun m [] s = (0, 0, s)"
| "stepupRun m (x # xs) s =
     (case stepup_Check m None (sc_nows x) (Inr (sc_rnd x)) (sc_signals x) (sc_token x) s of ((t, l, e), s') \<Rightarrow>
        (case stepupRun m xs s' of (passed, issued, s'') \<Rightarrow>
           ((if riskyCall x \<and> e = None then 1 else 0) + passed, (if e = Some ErrStepUpRequired then 1 else 0) + issued, s'')))"

lemma stepup_Check_count:
  assumes "stepup_Check (memStepup ttl) None (sc_nows x) (Inr (sc_rnd x)) (sc_signals x) (sc_token x) s = ((t, l, e), s')"
    and "finite (dom (challenges s))"
  shows "finite (dom (challenges s')) \<and>
     (if riskyCall x \<and> e = None then 1 else 0) + card (dom (challenges s')) \<le>
       (if e = Some ErrStepUpRequired then 1 else 0) + card (dom (challenges s))"
proof -
  obtain lv where lv: "DefaultAssessor_Assess None (sc_signals x) = Inr lv" "RequiresStepUp lv \<longleftrightarrow> riskyCall x"
    using DefaultAssessor_level [of None "sc_signals x"] by (auto simp: riskyCall_def)
  let ?k = "challengeKey (sg_AccountID (sc_signals x)) (sg_Action (sc_signals x))"
  consider (low) "\<not> riskyCall x" "s' = s" "e = None"
    | (pass) ch where "riskyCall x" "e = None" "challenges s (?k (sc_token x)) = Some ch" "challenges s' = (challenges s)(?k (sc_token x) := None)"
    | (issue) tok ch where "e = Some ErrStepUpRequired" "challenges s' = (challenges s)(?k tok \<mapsto> ch)"
    using assms(1) lv memStepup_fields [of ttl]
    by (auto simp: stepup_Check_def challenge_memory_Store_def challenge_memory_Verify_def challenge_memory_Consume_def
        challenge_memory_Issue_def stepup_randomToken_def Let_def split: if_splits option.splits)
  then show ?thesis
  proof cases
    case low
    with assms(2) show ?thesis by simp
  next
    case (pass ch)
    then have d: "dom (challenges s') = dom (challenges s) - {?k (sc_token x)}" "?k (sc_token x) \<in> dom (challenges s)" by auto
    then have "card (dom (challenges s)) = Suc (card (dom (challenges s')))" using card_Suc_Diff1 [OF assms(2) d(2)] by simp
    with pass d assms(2) show ?thesis by simp
  next
    case (issue tok ch)
    then have "dom (challenges s') = insert (?k tok) (dom (challenges s))" by auto
    with issue assms(2) show ?thesis by (simp add: card_insert_if)
  qed
qed

lemma stepupRun_count:
  "stepupRun (memStepup ttl) xs s = (p, i, s') \<Longrightarrow> finite (dom (challenges s)) \<Longrightarrow>
     p + card (dom (challenges s')) \<le> i + card (dom (challenges s))"
proof (induction xs arbitrary: s p i s')
  case (Cons x xs)
  obtain t l e s1 where c: "stepup_Check (memStepup ttl) None (sc_nows x) (Inr (sc_rnd x)) (sc_signals x) (sc_token x) s = ((t, l, e), s1)"
    by (metis prod.collapse)
  obtain p1 i1 s2 where r: "stepupRun (memStepup ttl) xs s1 = (p1, i1, s2)" by (metis prod.collapse)
  note one = stepup_Check_count [OF c Cons.prems(2)]
  with Cons.IH [OF r] Cons.prems(1) c r show ?case by (auto split: if_splits)
qed simp



text \<open>The challenge token is all it takes: the token \<^verbatim>\<open>Check\<close> hands to the very client it refuses lets that client
  through on the next request, with no second factor involved.\<close>

theorem stepup_challenge_token_suffices:
  assumes "stepup_Check (memStepup ttl) c nows (Inr b) sig tok s = ((t, l, Some ErrStepUpRequired), s')"
    and "t \<noteq> []" "nows' 0 \<le> nows 1 + sm_ttl (memStepup ttl)"
  shows "snd (snd (fst (stepup_Check (memStepup ttl) c' nows' (Inr b') sig t s'))) = None"
proof -
  obtain l1 where 1: "DefaultAssessor_Assess c sig = Inr l1" using DefaultAssessor_level [of c sig] by auto
  obtain l2 where 2: "DefaultAssessor_Assess c' sig = Inr l2" using DefaultAssessor_level [of c' sig] by auto
  have "memoryOpens (nows' 0) (sg_AccountID sig) (sg_Action sig) t s'"
    using mem_stepup.Check_issued [OF _ _ assms(1) assms(3)] 1 memStepup_fields by simp
  with mem_stepup.Check_passes_iff [of "memStepup ttl" c' sig l2 nows' b' t s'] 2 assms(2) memStepup_fields show ?thesis by simp
qed

theorem stepup_challenge_token_suffices_witness:
  "\<exists>t l s'. stepup_Check (memStepup 0) None (\<lambda>i. 5) (Inr ''x'') riskySignals [] NewMemoryChallengeStore =
       ((t, l, Some ErrStepUpRequired), s') \<and>
     snd (snd (fst (stepup_Check (memStepup 0) None (\<lambda>i. 6) (Inr ''y'') riskySignals t s'))) = None"
proof -
  obtain s' where c: "stepup_Check (memStepup 0) None (\<lambda>i. 5) (Inr ''x'') riskySignals [] NewMemoryChallengeStore =
       ((EncodeToString ''x'', RiskMedium, Some ErrStepUpRequired), s')"
    by (simp add: stepup_Check_def memStepup_fields riskySignals_def DefaultAssessor_Assess_def RequiresStepUp_def
        challenge_memory_Store_def challenge_memory_Issue_def stepup_randomToken_def)
  with stepup_challenge_token_suffices [OF c, of "\<lambda>i. 6" None "''y''"] memStepup_fields(3) [of 0] show ?thesis by auto
qed

text \<open>Account and action are not kept apart: a challenge of account \<open>a|b\<close> for action \<open>c\<close> is one of account \<open>a\<close> for action
  \<open>b|c\<close>.\<close>

theorem stepup_key_ambiguous:
  "memoryOpens now (a @ ''|'' @ b) x t s = memoryOpens now a (b @ ''|'' @ x) t s"
  by (simp add: memoryOpens_def challengeKey_def)


definition unknownDevice :: "challengeMemory stepupOptions" where
  "unknownDevice = \<lparr>so_AccountKey = None, so_DeviceFP = None, so_Action = ''withdraw'',
     so_KnownDevice = Some (\<lambda>r a w. (Inr False, w)), so_VelocityFlagged = None\<rparr>"

definition bareRequest :: httpRequest where
  "bareRequest = \<lparr>rq_headers = [], rq_RemoteAddr = [], rq_body = NoBody, rq_ctx = None, rq_velocityFlag = False\<rparr>"


end
