(* ===== verification/Challenge.thy ===== *)
theory Challenge
  imports Http
begin

text \<open>
  Package \<^verbatim>\<open>challenge\<close>: risk signals, the stub verifier, the in-memory token store and the manager
  (\<^verbatim>\<open>challenge.go\<close>), and the middleware (\<^verbatim>\<open>middleware.go\<close>). The locale \<open>captcha_store\<close> is the contract of a token store.
  The theorems say exactly when a request gets past the captcha, and what a token is good for.
\<close>

section \<open>Signals\<close>

definition ErrChallengeRequired :: go_error where
  "ErrChallengeRequired = Sentinel ''challenge: captcha required''"

record RiskSignals =
  rs_AccountAge :: duration
  rs_PlatformSpike :: bool
  rs_VelocityFlagged :: bool
  rs_NewAccountMaxAge :: duration

definition ChallengeRequired :: "ctx \<Rightarrow> RiskSignals \<Rightarrow> bool" where
  "ChallengeRequired c s =
     (let maxAge = (if rs_NewAccountMaxAge s \<le> 0 then 24 * hour else rs_NewAccountMaxAge s) in
      if rs_PlatformSpike s then True
      else if rs_VelocityFlagged s then True
      else if rs_AccountAge s < maxAge then True
      else False)"

type_synonym Verifier = "ctx \<Rightarrow> string \<Rightarrow> string \<Rightarrow> go_error + bool"

definition StubVerifier_Verify :: Verifier where
  "StubVerifier_Verify c token remoteIP = Inr (token = ''valid-captcha'')"

section \<open>Tokens\<close>

record 'w tokenStore =
  ts_Issue :: "ctx \<Rightarrow> time \<Rightarrow> go_error + bytes \<Rightarrow> string \<Rightarrow> string \<Rightarrow> duration \<Rightarrow> 'w \<Rightarrow> (go_error + string) \<times> 'w"
  ts_MarkSolved :: "ctx \<Rightarrow> string \<Rightarrow> string \<Rightarrow> string \<Rightarrow> 'w \<Rightarrow> go_error option \<times> 'w"
  ts_IsSolved :: "ctx \<Rightarrow> time \<Rightarrow> string \<Rightarrow> string \<Rightarrow> string \<Rightarrow> 'w \<Rightarrow> (go_error + bool) \<times> 'w"

record memoryToken =
  mt_solved :: bool
  mt_expiresAt :: time

record tokenMemory =
  tokens :: "string \<rightharpoonup> memoryToken"

definition NewMemoryTokenStore :: tokenMemory where
  "NewMemoryTokenStore = \<lparr>tokens = Map.empty\<rparr>"

definition tokenKey :: "string \<Rightarrow> string \<Rightarrow> string \<Rightarrow> string" where
  "tokenKey account action token = account @ ''|'' @ action @ ''|'' @ token"

definition token_memory_Issue :: "ctx \<Rightarrow> time \<Rightarrow> go_error + bytes \<Rightarrow> string \<Rightarrow> string \<Rightarrow> duration \<Rightarrow> tokenMemory \<Rightarrow>
    (go_error + string) \<times> tokenMemory" where
  "token_memory_Issue c now rnd accountID action ttl s =
     (case rnd of
        Inl e \<Rightarrow> (Inl e, s)
      | Inr b \<Rightarrow>
          let token = EncodeToString b in
          (Inr token, s\<lparr>tokens := (tokens s)(tokenKey accountID action token \<mapsto>
             \<lparr>mt_solved = False, mt_expiresAt = time_Add now ttl\<rparr>)\<rparr>))"

definition token_memory_MarkSolved :: "ctx \<Rightarrow> string \<Rightarrow> string \<Rightarrow> string \<Rightarrow> tokenMemory \<Rightarrow> go_error option \<times> tokenMemory" where
  "token_memory_MarkSolved c accountID action token s =
     (let key = tokenKey accountID action token in
      case tokens s key of
        None \<Rightarrow> (Some (Errorf ''challenge: unknown token''), s)
      | Some t \<Rightarrow> (None, s\<lparr>tokens := (tokens s)(key \<mapsto> t\<lparr>mt_solved := True\<rparr>)\<rparr>))"

definition token_memory_IsSolved :: "ctx \<Rightarrow> time \<Rightarrow> string \<Rightarrow> string \<Rightarrow> string \<Rightarrow> tokenMemory \<Rightarrow> (go_error + bool) \<times> tokenMemory" where
  "token_memory_IsSolved c now accountID action token s =
     (case tokens s (tokenKey accountID action token) of
        None \<Rightarrow> (Inr False, s)
      | Some t \<Rightarrow> if time_After now (mt_expiresAt t) then (Inr False, s) else (Inr (mt_solved t), s))"

definition token_memory_Store :: "tokenMemory tokenStore" where
  "token_memory_Store =
     \<lparr>ts_Issue = token_memory_Issue, ts_MarkSolved = token_memory_MarkSolved, ts_IsSolved = token_memory_IsSolved\<rparr>"

section \<open>The manager\<close>

record 'w challengeManager =
  cm_verifier :: Verifier
  cm_store :: "'w tokenStore"
  cm_ttl :: duration

definition challenge_WithTokenTTL :: "duration \<Rightarrow> 'w challengeManager \<Rightarrow> 'w challengeManager" where
  "challenge_WithTokenTTL ttl m = (if 0 < ttl then m\<lparr>cm_ttl := ttl\<rparr> else m)"

definition challenge_NewManager :: "'w tokenStore \<Rightarrow> Verifier option \<Rightarrow> 'w tokenStore option \<Rightarrow>
    ('w challengeManager \<Rightarrow> 'w challengeManager) list \<Rightarrow> 'w challengeManager" where
  "challenge_NewManager dflt verifier store opts =
     fold (\<lambda>f m. f m) opts
       \<lparr>cm_verifier = (case verifier of None \<Rightarrow> StubVerifier_Verify | Some v \<Rightarrow> v),
        cm_store = (case store of None \<Rightarrow> dflt | Some s \<Rightarrow> s), cm_ttl = 15 * minute\<rparr>"

text \<open>\<^verbatim>\<open>Check\<close> returns the challenge token and the error; \<open>nows 0\<close> is the clock of \<^verbatim>\<open>IsSolved\<close>, \<open>nows 1\<close> that of \<^verbatim>\<open>Issue\<close>.\<close>

definition challenge_issue :: "'w challengeManager \<Rightarrow> ctx \<Rightarrow> (nat \<Rightarrow> time) \<Rightarrow> go_error + bytes \<Rightarrow> string \<Rightarrow> string \<Rightarrow> 'w \<Rightarrow>
    (string \<times> go_error option) \<times> 'w" where
  "challenge_issue m c nows rnd accountID action w =
     (case ts_Issue (cm_store m) c (nows 1) rnd accountID action (cm_ttl m) w of
        (Inl e, w') \<Rightarrow> (([], Some e), w')
      | (Inr token, w') \<Rightarrow> ((token, Some ErrChallengeRequired), w'))"

definition challenge_captcha :: "'w challengeManager \<Rightarrow> ctx \<Rightarrow> (nat \<Rightarrow> time) \<Rightarrow> go_error + bytes \<Rightarrow> string \<Rightarrow> string \<Rightarrow>
    string \<Rightarrow> string \<Rightarrow> 'w \<Rightarrow> (string \<times> go_error option) \<times> 'w" where
  "challenge_captcha m c nows rnd accountID action headerToken captchaResponse w =
     (if captchaResponse \<noteq> [] then
        (case cm_verifier m c captchaResponse [] of
           Inl e \<Rightarrow> (([], Some e), w)
         | Inr valid \<Rightarrow>
             if valid \<and> headerToken \<noteq> [] then
               (([], None), snd (ts_MarkSolved (cm_store m) c accountID action headerToken w))
             else challenge_issue m c nows rnd accountID action w)
      else challenge_issue m c nows rnd accountID action w)"

definition challenge_Check :: "'w challengeManager \<Rightarrow> ctx \<Rightarrow> (nat \<Rightarrow> time) \<Rightarrow> go_error + bytes \<Rightarrow> string \<Rightarrow> string \<Rightarrow>
    RiskSignals \<Rightarrow> string \<Rightarrow> string \<Rightarrow> 'w \<Rightarrow> (string \<times> go_error option) \<times> 'w" where
  "challenge_Check m c nows rnd accountID action signals headerToken captchaResponse w =
     (if \<not> ChallengeRequired c signals then (([], None), w)
      else if headerToken \<noteq> [] then
        (case ts_IsSolved (cm_store m) c (nows 0) accountID action headerToken w of
           (Inl e, w') \<Rightarrow> (([], Some e), w')
         | (Inr ok, w') \<Rightarrow>
             if ok then (([], None), w')
             else challenge_captcha m c nows rnd accountID action headerToken captchaResponse w')
      else challenge_captcha m c nows rnd accountID action headerToken captchaResponse w)"

section \<open>The middleware\<close>

definition challenge_HeaderToken :: "httpRequest \<Rightarrow> string" where
  "challenge_HeaderToken r = header_Get r ''X-Challenge-Token''"

definition CaptchaResponse :: "httpRequest \<Rightarrow> string" where
  "CaptchaResponse r = header_Get r ''X-Captcha-Response''"

record 'w challengeOptions =
  co_AccountKey :: "(httpRequest \<Rightarrow> string) option"
  co_Action :: string
  co_Signals :: "(httpRequest \<Rightarrow> string \<Rightarrow> 'w \<Rightarrow> RiskSignals \<times> 'w) option"

definition writeJSON :: "int \<Rightarrow> (string \<times> jval) list \<Rightarrow> rw_act list" where
  "writeJSON status body = [SetHeader ''Content-Type'' ''application/json'', WriteHeader status, Encode body]"

definition zeroSignals :: RiskSignals where
  "zeroSignals = \<lparr>rs_AccountAge = 0, rs_PlatformSpike = False, rs_VelocityFlagged = False, rs_NewAccountMaxAge = 0\<rparr>"

definition challenge_Middleware :: "'w challengeManager \<Rightarrow> 'w challengeOptions \<Rightarrow> (nat \<Rightarrow> time) \<Rightarrow> go_error + bytes \<Rightarrow>
    'w handler \<Rightarrow> 'w handler" where
  "challenge_Middleware m opt nows rnd next r w =
     (let accountID = (case co_AccountKey opt of None \<Rightarrow> header_Get r ''X-Account-ID'' | Some f \<Rightarrow> f r) in
      case (case co_Signals opt of None \<Rightarrow> (zeroSignals, w) | Some f \<Rightarrow> f r accountID w) of (signals, w1) \<Rightarrow>
        (case challenge_Check m (rq_ctx r) nows rnd accountID (co_Action opt) signals (challenge_HeaderToken r)
                (CaptchaResponse r) w1 of
           ((token, None), w2) \<Rightarrow> next r w2
         | ((token, Some e), w2) \<Rightarrow>
             if e \<noteq> ErrChallengeRequired then (writeJSON 500 [(''error'', JStr (error_Error e))], Returned (), w2)
             else
               ([SetHeader ''Content-Type'' ''application/json'', SetHeader ''X-Challenge-Required'' ''true'', WriteHeader 403,
                 Encode [(''challenge_token'', JStr token), (''error'', JStr ''captcha required'')]], Returned (), w2)))"

section \<open>The contract of a token store\<close>

text \<open>\<open>solved now a x t w\<close>: the token of account \<open>a\<close> for action \<open>x\<close> counts as solved at \<open>now\<close>; \<open>issued\<close> says until when
  it is known.\<close>

locale captcha_store =
  fixes St :: "'w tokenStore"
    and solved :: "time \<Rightarrow> string \<Rightarrow> string \<Rightarrow> string \<Rightarrow> 'w \<Rightarrow> bool"
    and issued :: "string \<Rightarrow> string \<Rightarrow> string \<Rightarrow> 'w \<Rightarrow> time option"
  assumes solved_reads: "ts_IsSolved St c now a x t w = (Inr (solved now a x t w), w)"
    and solved_issued: "solved now a x t w \<Longrightarrow> \<exists>e. issued a x t w = Some e \<and> now \<le> e"
    and mark_solves: "issued a x t w = Some e \<Longrightarrow> now \<le> e \<Longrightarrow> solved now a x t (snd (ts_MarkSolved St c a x t w))"
    and mark_unknown: "issued a x t w = None \<Longrightarrow> snd (ts_MarkSolved St c a x t w) = w"
    and issue_total: "\<exists>w'. ts_Issue St c now (Inr b) a x d w = (Inr (EncodeToString b), w')"

definition memorySolved :: "time \<Rightarrow> string \<Rightarrow> string \<Rightarrow> string \<Rightarrow> tokenMemory \<Rightarrow> bool" where
  "memorySolved now a x t s =
     (case tokens s (tokenKey a x t) of None \<Rightarrow> False | Some m \<Rightarrow> \<not> time_After now (mt_expiresAt m) \<and> mt_solved m)"

definition memoryIssued :: "string \<Rightarrow> string \<Rightarrow> string \<Rightarrow> tokenMemory \<Rightarrow> time option" where
  "memoryIssued a x t s = map_option mt_expiresAt (tokens s (tokenKey a x t))"

interpretation mem_captcha: captcha_store token_memory_Store memorySolved memoryIssued
  by unfold_locales
    (auto simp: token_memory_Store_def token_memory_IsSolved_def token_memory_MarkSolved_def token_memory_Issue_def
      memorySolved_def memoryIssued_def time_After_def Let_def split: option.splits)

context captcha_store
begin

lemma Check_passes_iff:
  assumes "cm_store m = St" "cm_verifier m = StubVerifier_Verify"
  shows "snd (fst (challenge_Check m c nows (Inr b) a x sig tok cap w)) = None \<longleftrightarrow>
     \<not> ChallengeRequired c sig \<or> tok \<noteq> [] \<and> (solved (nows 0) a x tok w \<or> cap = ''valid-captcha'')"
proof -
  obtain v where "ts_Issue St c (nows 1) (Inr b) a x (cm_ttl m) w = (Inr (EncodeToString b), v)"
    using issue_total [of c "nows 1" b a x "cm_ttl m" w] by blast
  with assms show ?thesis
    by (auto simp: challenge_Check_def challenge_captcha_def challenge_issue_def solved_reads StubVerifier_Verify_def)
qed

lemma Check_captcha_state:
  assumes "cm_store m = St" "cm_verifier m = StubVerifier_Verify" "ChallengeRequired c sig" "tok \<noteq> []"
    and "\<not> solved (nows 0) a x tok w"
  shows "challenge_Check m c nows rnd a x sig tok ''valid-captcha'' w = (([], None), snd (ts_MarkSolved St c a x tok w))"
  using assms by (simp add: challenge_Check_def challenge_captcha_def solved_reads StubVerifier_Verify_def)

end

section \<open>Guarantees\<close>

definition memChallenge :: "tokenMemory challengeManager" where
  "memChallenge = challenge_NewManager token_memory_Store (Some StubVerifier_Verify) None []"

lemma memChallenge_fields: "cm_store memChallenge = token_memory_Store" "cm_verifier memChallenge = StubVerifier_Verify"
  by (simp_all add: memChallenge_def challenge_NewManager_def)

text \<open>C27: A request gets past the captcha exactly when no signal asks for one, or it names a token that is solved and
  not expired, or it names any token at all together with a valid captcha response.\<close>

theorem challenge_gate:
  "snd (fst (challenge_Check memChallenge c nows (Inr b) a x sig tok cap s)) = None \<longleftrightarrow>
     \<not> rs_PlatformSpike sig \<and> \<not> rs_VelocityFlagged sig \<and>
       (if rs_NewAccountMaxAge sig \<le> 0 then 24 * hour else rs_NewAccountMaxAge sig) \<le> rs_AccountAge sig \<or>
     tok \<noteq> [] \<and> (memorySolved (nows 0) a x tok s \<or> cap = ''valid-captcha'')"
  using mem_captcha.Check_passes_iff [OF memChallenge_fields, of c nows b a x sig tok cap s]
  by (auto simp: ChallengeRequired_def Let_def)

text \<open>The token need not exist: with a valid captcha response a token the store has never issued, for this account or
  any other, lets the request through, and the store is left as it was.\<close>

theorem challenge_unknown_token_passes:
  assumes "ChallengeRequired c sig" "tok \<noteq> []" "tokens s (tokenKey a x tok) = None"
  shows "challenge_Check memChallenge c nows rnd a x sig tok ''valid-captcha'' s = (([], None), s)"
proof -
  have "memoryIssued a x tok s = None" "\<not> memorySolved (nows 0) a x tok s"
    using assms(3) by (simp_all add: memoryIssued_def memorySolved_def)
  with mem_captcha.Check_captcha_state [OF memChallenge_fields assms(1,2)] mem_captcha.mark_unknown show ?thesis by simp
qed

theorem challenge_unknown_token_passes_witness:
  "challenge_Check memChallenge None (\<lambda>i. 5) (Inr ''x'') ''a'' ''withdraw'' zeroSignals ''made-up'' ''valid-captcha'' NewMemoryTokenStore =
     (([], None), NewMemoryTokenStore)"
  by (rule challenge_unknown_token_passes) (simp_all add: ChallengeRequired_def zeroSignals_def hour_def NewMemoryTokenStore_def)

text \<open>Solving an issued token lets every further request with that token through until it expires, without another
  captcha: a token is good for any number of actions.\<close>

theorem challenge_solved_token_reusable:
  assumes "ChallengeRequired c sig" "tok \<noteq> []" "memoryIssued a x tok s = Some e" "\<not> memorySolved (nows 0) a x tok s"
    and "challenge_Check memChallenge c nows rnd a x sig tok ''valid-captcha'' s = (res, s')" "nows' 0 \<le> e"
  shows "challenge_Check memChallenge c' nows' rnd' a x sig' tok [] s' = (([], None), s')"
proof -
  have "s' = snd (ts_MarkSolved token_memory_Store c a x tok s)"
    using mem_captcha.Check_captcha_state [where nows = nows, OF memChallenge_fields assms(1,2,4)] assms(5) by simp
  then have "memorySolved (nows' 0) a x tok s'" using mem_captcha.mark_solves [OF assms(3,6)] by simp
  with assms(2) show ?thesis by (simp add: challenge_Check_def memChallenge_fields mem_captcha.solved_reads)
qed

definition issuedStore :: tokenMemory where
  "issuedStore = \<lparr>tokens = [tokenKey ''a'' ''withdraw'' ''tok'' \<mapsto> \<lparr>mt_solved = False, mt_expiresAt = 100\<rparr>]\<rparr>"

theorem challenge_solved_token_reusable_witness:
  "\<exists>res s'. challenge_Check memChallenge None (\<lambda>i. 5) (Inr ''x'') ''a'' ''withdraw'' zeroSignals ''tok'' ''valid-captcha'' issuedStore = (res, s') \<and>
     challenge_Check memChallenge None (\<lambda>i. 99) (Inr ''y'') ''a'' ''withdraw'' zeroSignals ''tok'' [] s' = (([], None), s')"
proof -
  obtain res s' where r: "challenge_Check memChallenge None (\<lambda>i. 5) (Inr ''x'') ''a'' ''withdraw'' zeroSignals ''tok'' ''valid-captcha'' issuedStore = (res, s')"
    by fastforce
  have "challenge_Check memChallenge None (\<lambda>i. 99) (Inr ''y'') ''a'' ''withdraw'' zeroSignals ''tok'' [] s' = (([], None), s')"
    by (rule challenge_solved_token_reusable [OF _ _ _ _ r, where e = 100])
      (simp_all add: ChallengeRequired_def zeroSignals_def hour_def issuedStore_def memoryIssued_def memorySolved_def)
  with r show ?thesis by blast
qed

end
