(* ===== verification/Devicetrust.thy ===== *)
theory Devicetrust
  imports Http Sha256
begin

text \<open>
  Package \<^verbatim>\<open>devicetrust\<close>: fingerprints and the client (\<^verbatim>\<open>devicetrust.go\<close>) and the in-memory store (\<^verbatim>\<open>memory.go\<close>). The locale
  \<open>device_store\<close> is the contract of a store. The theorems: a device is trusted exactly when it was marked, seeing
  it again changes nothing about that, and the first sighting is kept.
\<close>

section \<open>Records and stores\<close>

definition devicetrust_ErrKeyRequired :: go_error where
  "devicetrust_ErrKeyRequired = Sentinel ''devicetrust: account id and fingerprint are required''"

record DeviceRecord =
  dr_Fingerprint :: string
  dr_Trusted :: bool
  dr_FirstSeen :: time
  dr_LastSeen :: time

text \<open>\<^verbatim>\<open>Get\<close> returns a record and whether one was found, here an option.\<close>

record 'w deviceStore =
  ds_Get :: "ctx \<Rightarrow> string \<Rightarrow> string \<Rightarrow> 'w \<Rightarrow> (go_error + DeviceRecord option) \<times> 'w"
  ds_UpsertSeen :: "ctx \<Rightarrow> string \<Rightarrow> string \<Rightarrow> time \<Rightarrow> 'w \<Rightarrow> go_error option \<times> 'w"
  ds_MarkTrusted :: "ctx \<Rightarrow> string \<Rightarrow> string \<Rightarrow> time \<Rightarrow> 'w \<Rightarrow> go_error option \<times> 'w"

text \<open>The store maps an account to a map from fingerprints to records.\<close>

record deviceMemory =
  devices :: "string \<rightharpoonup> (string \<rightharpoonup> DeviceRecord)"

definition devicetrust_NewMemoryStore :: deviceMemory where
  "devicetrust_NewMemoryStore = \<lparr>devices = Map.empty\<rparr>"

definition accountKey :: "string \<Rightarrow> string \<Rightarrow> deviceMemory \<Rightarrow> DeviceRecord option" where
  "accountKey accountID fingerprint s =
     (case devices s accountID of None \<Rightarrow> None | Some acct \<Rightarrow> acct fingerprint)"

definition device_memory_Get :: "ctx \<Rightarrow> string \<Rightarrow> string \<Rightarrow> deviceMemory \<Rightarrow> (go_error + DeviceRecord option) \<times> deviceMemory" where
  "device_memory_Get c accountID fingerprint s = (Inr (accountKey accountID fingerprint s), s)"

text \<open>The record \<^verbatim>\<open>UpsertSeen\<close> and \<^verbatim>\<open>MarkTrusted\<close> start from: a new one, or the old one seen again.\<close>

definition seenRecord :: "string \<Rightarrow> time \<Rightarrow> DeviceRecord option \<Rightarrow> DeviceRecord" where
  "seenRecord fingerprint ts old =
     (case old of
        None \<Rightarrow> \<lparr>dr_Fingerprint = fingerprint, dr_Trusted = False, dr_FirstSeen = ts, dr_LastSeen = ts\<rparr>
      | Some rec \<Rightarrow> rec\<lparr>dr_LastSeen := ts\<rparr>)"

definition device_put :: "string \<Rightarrow> string \<Rightarrow> DeviceRecord \<Rightarrow> deviceMemory \<Rightarrow> deviceMemory" where
  "device_put accountID fingerprint rec s =
     (let acct = (case devices s accountID of None \<Rightarrow> Map.empty | Some m \<Rightarrow> m)
      in s\<lparr>devices := (devices s)(accountID \<mapsto> acct(fingerprint \<mapsto> rec))\<rparr>)"

definition device_memory_UpsertSeen :: "ctx \<Rightarrow> string \<Rightarrow> string \<Rightarrow> time \<Rightarrow> deviceMemory \<Rightarrow> go_error option \<times> deviceMemory" where
  "device_memory_UpsertSeen c accountID fingerprint ts s =
     (None, device_put accountID fingerprint (seenRecord fingerprint ts (accountKey accountID fingerprint s)) s)"

definition device_memory_MarkTrusted :: "ctx \<Rightarrow> string \<Rightarrow> string \<Rightarrow> time \<Rightarrow> deviceMemory \<Rightarrow> go_error option \<times> deviceMemory" where
  "device_memory_MarkTrusted c accountID fingerprint ts s =
     (None, device_put accountID fingerprint
              ((seenRecord fingerprint ts (accountKey accountID fingerprint s))\<lparr>dr_Trusted := True\<rparr>) s)"

text \<open>\<^verbatim>\<open>tamperForTest\<close>: a fingerprint the account does not have is written as a zero record.\<close>

definition tamperForTest :: "string \<Rightarrow> string \<Rightarrow> bool \<Rightarrow> deviceMemory \<Rightarrow> deviceMemory" where
  "tamperForTest accountID fingerprint trusted s =
     (case devices s accountID of
        None \<Rightarrow> s
      | Some acct \<Rightarrow>
          let rec = (case acct fingerprint of
                       None \<Rightarrow> \<lparr>dr_Fingerprint = [], dr_Trusted = False, dr_FirstSeen = - 62135596800000000000, dr_LastSeen = - 62135596800000000000\<rparr>
                     | Some r \<Rightarrow> r)
          in device_put accountID fingerprint (rec\<lparr>dr_Trusted := trusted\<rparr>) s)"

definition device_memory_Store :: "deviceMemory deviceStore" where
  "device_memory_Store =
     \<lparr>ds_Get = device_memory_Get, ds_UpsertSeen = device_memory_UpsertSeen, ds_MarkTrusted = device_memory_MarkTrusted\<rparr>"

section \<open>The client\<close>

record 'w deviceClient =
  dc_store :: "'w deviceStore"

definition devicetrust_New :: "'w deviceStore \<Rightarrow> 'w deviceStore option \<Rightarrow> 'w deviceClient" where
  "devicetrust_New dflt store = \<lparr>dc_store = (case store of None \<Rightarrow> dflt | Some s \<Rightarrow> s)\<rparr>"

definition Fingerprint :: "string \<Rightarrow> string \<Rightarrow> string \<Rightarrow> string" where
  "Fingerprint userAgent acceptLanguage clientDeviceID =
     (let normalized = TrimSpace userAgent @ ''|'' @ TrimSpace acceptLanguage @ ''|'' @ TrimSpace clientDeviceID
      in EncodeToString (Sum256 normalized))"

definition FingerprintFromRequest :: "httpRequest \<Rightarrow> string \<Rightarrow> string" where
  "FingerprintFromRequest r clientDeviceID =
     (let deviceID = (if clientDeviceID = [] then header_Get r ''X-Device-ID'' else clientDeviceID)
      in Fingerprint (UserAgent r) (header_Get r ''Accept-Language'') deviceID)"

definition IsKnownDevice :: "'w deviceClient \<Rightarrow> ctx \<Rightarrow> string \<Rightarrow> string \<Rightarrow> 'w \<Rightarrow> (go_error + bool) \<times> 'w" where
  "IsKnownDevice dc c accountID fingerprint w =
     (if accountID = [] \<or> fingerprint = [] then (Inl devicetrust_ErrKeyRequired, w)
      else
        (case ds_Get (dc_store dc) c accountID fingerprint w of
           (Inl e, w') \<Rightarrow> (Inl e, w')
         | (Inr rec, w') \<Rightarrow> (Inr (case rec of None \<Rightarrow> False | Some d \<Rightarrow> dr_Trusted d), w')))"

definition RecordSeen :: "'w deviceClient \<Rightarrow> ctx \<Rightarrow> time \<Rightarrow> string \<Rightarrow> string \<Rightarrow> 'w \<Rightarrow> go_error option \<times> 'w" where
  "RecordSeen dc c now accountID fingerprint w =
     (if accountID = [] \<or> fingerprint = [] then (Some devicetrust_ErrKeyRequired, w)
      else ds_UpsertSeen (dc_store dc) c accountID fingerprint now w)"

definition MarkDeviceTrusted :: "'w deviceClient \<Rightarrow> ctx \<Rightarrow> time \<Rightarrow> string \<Rightarrow> string \<Rightarrow> 'w \<Rightarrow> go_error option \<times> 'w" where
  "MarkDeviceTrusted dc c now accountID fingerprint w =
     (if accountID = [] \<or> fingerprint = [] then (Some devicetrust_ErrKeyRequired, w)
      else ds_MarkTrusted (dc_store dc) c accountID fingerprint now w)"

definition Lookup :: "'w deviceClient \<Rightarrow> ctx \<Rightarrow> string \<Rightarrow> string \<Rightarrow> 'w \<Rightarrow> (go_error + DeviceRecord option) \<times> 'w" where
  "Lookup dc c accountID fingerprint w =
     (if accountID = [] \<or> fingerprint = [] then (Inl devicetrust_ErrKeyRequired, w)
      else ds_Get (dc_store dc) c accountID fingerprint w)"

section \<open>The contract of a store\<close>

locale device_store =
  fixes St :: "'w deviceStore"
    and known :: "string \<Rightarrow> string \<Rightarrow> 'w \<Rightarrow> DeviceRecord option"
  assumes get_reads: "ds_Get St c a f w = (Inr (known a f w), w)"
    and upsert_sees: "\<exists>w'. ds_UpsertSeen St c a f ts w = (None, w') \<and>
      (\<forall>b g. known b g w' = (if b = a \<and> g = f then Some (seenRecord f ts (known a f w)) else known b g w))"
    and mark_trusts: "\<exists>w'. ds_MarkTrusted St c a f ts w = (None, w') \<and>
      (\<forall>b g. known b g w' = (if b = a \<and> g = f then Some ((seenRecord f ts (known a f w))\<lparr>dr_Trusted := True\<rparr>) else known b g w))"

lemma accountKey_put:
  "accountKey b g (device_put a f rec s) = (if b = a \<and> g = f then Some rec else accountKey b g s)"
  by (auto simp: accountKey_def device_put_def Let_def split: option.splits)

interpretation mem_device: device_store device_memory_Store accountKey
  by unfold_locales
    (simp_all add: device_memory_Store_def device_memory_Get_def device_memory_UpsertSeen_def device_memory_MarkTrusted_def accountKey_put)

text \<open>A history of a store: devices seen and devices marked, at given times.\<close>

datatype deviceEvent = Seen time string string | Marked time string string

fun deviceStep :: "'w deviceClient \<Rightarrow> deviceEvent \<Rightarrow> 'w \<Rightarrow> 'w" where
  "deviceStep dc (Seen t a f) w = snd (RecordSeen dc None t a f w)"
| "deviceStep dc (Marked t a f) w = snd (MarkDeviceTrusted dc None t a f w)"

definition deviceRun :: "'w deviceClient \<Rightarrow> deviceEvent list \<Rightarrow> 'w \<Rightarrow> 'w" where
  "deviceRun dc es w = fold (deviceStep dc) es w"

fun eventFor :: "string \<Rightarrow> string \<Rightarrow> deviceEvent \<Rightarrow> bool" where
  "eventFor a f (Seen t b g) = (b = a \<and> g = f)"
| "eventFor a f (Marked t b g) = (b = a \<and> g = f)"

fun deviceTime :: "deviceEvent \<Rightarrow> time" where
  "deviceTime (Seen t b g) = t"
| "deviceTime (Marked t b g) = t"

context device_store
begin

lemma deviceStep_known:
  assumes "a \<noteq> []" "f \<noteq> []"
  shows "known a f (deviceStep \<lparr>dc_store = St\<rparr> e w) =
     (if eventFor a f e then
        Some ((seenRecord f (deviceTime e) (known a f w))
          \<lparr>dr_Trusted := (case e of Marked _ _ _ \<Rightarrow> True | Seen _ _ _ \<Rightarrow> (case known a f w of None \<Rightarrow> False | Some d \<Rightarrow> dr_Trusted d))\<rparr>)
      else known a f w)"
proof (cases e)
  case (Seen t b g)
  obtain w' where "ds_UpsertSeen St None b g t w = (None, w')"
      "\<forall>b' g'. known b' g' w' = (if b' = b \<and> g' = g then Some (seenRecord g t (known b g w)) else known b' g' w)"
    using upsert_sees [of None b g t w] by blast
  with Seen assms show ?thesis by (auto simp: RecordSeen_def seenRecord_def split: option.splits)
next
  case (Marked t b g)
  obtain w' where "ds_MarkTrusted St None b g t w = (None, w')"
      "\<forall>b' g'. known b' g' w' = (if b' = b \<and> g' = g then Some ((seenRecord g t (known b g w))\<lparr>dr_Trusted := True\<rparr>) else known b' g' w)"
    using mark_trusts [of None b g t w] by blast
  with Marked assms show ?thesis by (auto simp: MarkDeviceTrusted_def)
qed

text \<open>What a history leaves of a device nobody had seen before it.\<close>

lemma deviceRun_known:
  assumes "a \<noteq> []" "f \<noteq> []" "known a f w = None"
  shows "known a f (deviceRun \<lparr>dc_store = St\<rparr> es w) =
     (if filter (eventFor a f) es = [] then None
      else Some \<lparr>dr_Fingerprint = f, dr_Trusted = (\<exists>t. Marked t a f \<in> set es),
             dr_FirstSeen = deviceTime (hd (filter (eventFor a f) es)), dr_LastSeen = deviceTime (last (filter (eventFor a f) es))\<rparr>)"
proof (induction es rule: rev_induct)
  case Nil
  then show ?case using assms by (simp add: deviceRun_def)
next
  case (snoc e es)
  have step: "deviceRun \<lparr>dc_store = St\<rparr> (es @ [e]) w = deviceStep \<lparr>dc_store = St\<rparr> e (deviceRun \<lparr>dc_store = St\<rparr> es w)"
    by (simp add: deviceRun_def)
  show ?case
    unfolding step deviceStep_known [OF assms(1,2)] snoc.IH
    by (cases e) (auto simp: seenRecord_def filter_empty_conv)
qed

end

section \<open>Guarantees\<close>

text \<open>C28: After any history of sightings and markings over a fresh in-memory store, \<^verbatim>\<open>IsKnownDevice\<close> answers true for an
  account and a fingerprint exactly when that pair was marked as trusted: sightings never create or take away
  trust, and trust never leaks to another account or device.\<close>

theorem device_known_iff_marked:
  assumes "a \<noteq> []" "f \<noteq> []"
  shows "fst (IsKnownDevice (devicetrust_New device_memory_Store None) c a f
       (deviceRun (devicetrust_New device_memory_Store None) es devicetrust_NewMemoryStore)) =
     Inr (\<exists>t. Marked t a f \<in> set es)"
proof -
  have "accountKey a f devicetrust_NewMemoryStore = None" by (simp add: accountKey_def devicetrust_NewMemoryStore_def)
  then have "(case accountKey a f (deviceRun \<lparr>dc_store = device_memory_Store\<rparr> es devicetrust_NewMemoryStore) of
      None \<Rightarrow> False | Some d \<Rightarrow> dr_Trusted d) = (\<exists>t. Marked t a f \<in> set es)"
    using mem_device.deviceRun_known [OF assms] by (force simp: filter_empty_conv)
  then show ?thesis
    using assms by (simp add: IsKnownDevice_def devicetrust_New_def mem_device.get_reads)
qed

theorem device_known_iff_marked_witness:
  "fst (IsKnownDevice (devicetrust_New device_memory_Store None) None ''a'' ''f''
       (deviceRun (devicetrust_New device_memory_Store None) [Seen 1 ''a'' ''f'', Marked 2 ''a'' ''f'', Seen 3 ''a'' ''f'']
          devicetrust_NewMemoryStore)) = Inr True"
  using device_known_iff_marked [of "''a''" "''f''" None "[Seen 1 ''a'' ''f'', Marked 2 ''a'' ''f'', Seen 3 ''a'' ''f'']"] by auto

text \<open>The record of a device keeps the time of its first event and carries the time of its last one.\<close>

theorem device_Lookup_history:
  assumes "a \<noteq> []" "f \<noteq> []" "filter (eventFor a f) es = e # es'"
  shows "\<exists>d. fst (Lookup (devicetrust_New device_memory_Store None) c a f
       (deviceRun (devicetrust_New device_memory_Store None) es devicetrust_NewMemoryStore)) = Inr (Some d) \<and>
     dr_Fingerprint d = f \<and> dr_FirstSeen d = deviceTime e \<and> dr_LastSeen d = deviceTime (last (e # es'))"
proof -
  have "accountKey a f devicetrust_NewMemoryStore = None" by (simp add: accountKey_def devicetrust_NewMemoryStore_def)
  then show ?thesis
    using mem_device.deviceRun_known [OF assms(1,2), of devicetrust_NewMemoryStore es] assms
    by (simp add: Lookup_def devicetrust_New_def mem_device.get_reads)
qed

theorem device_Lookup_history_witness:
  "\<exists>d. fst (Lookup (devicetrust_New device_memory_Store None) None ''a'' ''f''
       (deviceRun (devicetrust_New device_memory_Store None) [Seen 1 ''a'' ''f'', Seen 3 ''a'' ''f''] devicetrust_NewMemoryStore)) = Inr (Some d) \<and>
     dr_Fingerprint d = ''f'' \<and> dr_FirstSeen d = 1 \<and> dr_LastSeen d = 3"
  using device_Lookup_history [of "''a''" "''f''" "[Seen 1 ''a'' ''f'', Seen 3 ''a'' ''f'']" "Seen 1 ''a'' ''f''" "[Seen 3 ''a'' ''f'']" None]
  by simp

text \<open>A fingerprint is never empty: it has sixty-four characters whatever the headers, so a request without a device
  identifier is a device like any other.\<close>

theorem fingerprint_never_empty: "length (FingerprintFromRequest r clientDeviceID) = 64"
  by (simp add: FingerprintFromRequest_def Fingerprint_def Let_def length_EncodeToString length_Sum256)

end
