(* ===== verification/Float64.thy ===== *)
theory Float64
  imports Complex_Main "HOL-Library.Log_Nat" Prelude
begin

text \<open>
  Go's \<^verbatim>\<open>float64\<close>. The finite values are the reals they stand for, and an operation on them is the exact one followed
  by \<open>fl64\<close>, rounding to the nearest number with a 53-bit significand and an exponent of at least \<open>-1074\<close>, ties to
  even. A result of \<open>2 ^ 1024\<close> or more is an infinity (\<open>round64\<close>). The sign of zero is not modelled. Integers below
  \<open>2 ^ 53\<close> are exact and rounding keeps the sign of what is not tiny.
\<close>

definition roundEven :: "real \<Rightarrow> int" where
  "roundEven y =
     (let n = \<lfloor>y\<rfloor>; d = y - of_int n in
      if d < 1 / 2 then n else if 1 / 2 < d then n + 1 else if even n then n else n + 1)"

definition scale2 :: "int \<Rightarrow> real \<Rightarrow> real" where
  "scale2 k x = (if 0 \<le> k then x * 2 ^ nat k else x / 2 ^ nat (- k))"

text \<open>The exponent \<open>e\<close> with \<open>2 ^ e \<le> \<bar>x\<bar> < 2 ^ (e + 1)\<close>.\<close>

definition exponent64 :: "real \<Rightarrow> int" where
  "exponent64 x =
     (if 1 \<le> \<bar>x\<bar> then bitlen \<lfloor>\<bar>x\<bar>\<rfloor> - 1 else - bitlen (\<lceil>1 / \<bar>x\<bar>\<rceil> - 1))"

definition fl64 :: "real \<Rightarrow> real" where
  "fl64 x = (if x = 0 then 0 else let k = max (exponent64 x - 52) (- 1074) in scale2 k (of_int (roundEven (scale2 (- k) x))))"

datatype float64 = Fin real | Inf bool \<comment> \<open>whether it is negative\<close> | NaN

definition round64 :: "real \<Rightarrow> float64" where
  "round64 x = (let y = fl64 x in if 2 ^ 1024 \<le> \<bar>y\<bar> then Inf (y < 0) else Fin y)"

text \<open>Go's \<^verbatim>\<open>*\<close> and \<^verbatim>\<open><=\<close>.\<close>

fun float_mul :: "float64 \<Rightarrow> float64 \<Rightarrow> float64" where
  "float_mul (Fin a) (Fin b) = round64 (a * b)"
| "float_mul (Fin a) (Inf n) = (if a = 0 then NaN else Inf (n \<noteq> (a < 0)))"
| "float_mul (Inf n) (Fin a) = (if a = 0 then NaN else Inf (n \<noteq> (a < 0)))"
| "float_mul (Inf m) (Inf n) = Inf (m \<noteq> n)"
| "float_mul _ _ = NaN"

fun float_le :: "float64 \<Rightarrow> float64 \<Rightarrow> bool" where
  "float_le (Fin a) (Fin b) = (a \<le> b)"
| "float_le (Fin a) (Inf n) = (\<not> n)"
| "float_le (Inf n) (Fin a) = n"
| "float_le (Inf m) (Inf n) = (m \<or> \<not> n)"
| "float_le _ _ = False"

section \<open>Exactness and sign\<close>

lemma roundEven_of_int [simp]: "roundEven (of_int n) = n"
  by (simp add: roundEven_def)

lemma bitlen_pos: "0 < bitlen n \<longleftrightarrow> 0 < n"
  using bitlen_nonneg [of n] bitlen_eq_zero_iff [of n] by linarith

lemma roundEven_pos: "1 \<le> y \<Longrightarrow> 0 < roundEven y"
proof -
  assume "1 \<le> y"
  then have "1 \<le> \<lfloor>y\<rfloor>" by simp
  then show ?thesis by (auto simp: roundEven_def Let_def)
qed

lemma roundEven_neg: "y \<le> - 1 \<Longrightarrow> roundEven y < 0"
proof (cases "y = - 1")
  assume "y \<le> - 1"
  case False
  with \<open>y \<le> - 1\<close> have "\<lfloor>y\<rfloor> < - 1" by (simp add: floor_less_iff)
  then show ?thesis by (auto simp: roundEven_def Let_def)
qed (simp add: roundEven_def)

lemma scale2_inverse [simp]: "scale2 k (scale2 (- k) x) = x"
  by (simp add: scale2_def)

lemma scale2_pos [simp]: "0 < scale2 k x \<longleftrightarrow> 0 < x"
  by (simp add: scale2_def zero_less_mult_iff zero_less_divide_iff)

lemma scale2_neg [simp]: "scale2 k x < 0 \<longleftrightarrow> x < 0"
  by (simp add: scale2_def mult_less_0_iff divide_less_0_iff)

lemma exponent64_le: "0 < x \<Longrightarrow> scale2 (exponent64 x) 1 \<le> x"
proof (cases "1 \<le> x")
  assume x: "0 < x"
  case True
  then have n: "0 < \<lfloor>x\<rfloor>" by simp
  then have "2 ^ nat (bitlen \<lfloor>x\<rfloor> - 1) \<le> \<lfloor>x\<rfloor>" and "0 \<le> bitlen \<lfloor>x\<rfloor> - 1"
    using bitlen_bounds [OF n] bitlen_pos [of "\<lfloor>x\<rfloor>"] by simp_all
  then have "(2 :: real) ^ nat (bitlen \<lfloor>x\<rfloor> - 1) \<le> of_int \<lfloor>x\<rfloor>"
    by (metis of_int_le_iff of_int_numeral of_int_power)
  also have "\<dots> \<le> x" by simp
  finally show ?thesis using True \<open>0 \<le> bitlen \<lfloor>x\<rfloor> - 1\<close> by (simp add: exponent64_def scale2_def)
next
  assume x: "0 < x"
  case False
  let ?n = "\<lceil>1 / x\<rceil> - 1"
  have "1 < 1 / x" using False x by simp
  then have n: "0 < ?n" by (simp add: less_ceiling_iff)
  have "?n < 2 ^ nat (bitlen ?n)" using bitlen_bounds [OF n] by simp
  then have "\<lceil>1 / x\<rceil> \<le> 2 ^ nat (bitlen ?n)" by linarith
  then have "1 / x \<le> 2 ^ nat (bitlen ?n)" by (simp add: ceiling_le_iff)
  then have "1 / 2 ^ nat (bitlen ?n) \<le> x" using x by (simp add: field_simps)
  moreover have "0 < bitlen ?n" using n by (simp add: bitlen_pos)
  ultimately show ?thesis using False x by (simp add: exponent64_def scale2_def)
qed

lemma scale2_shift: "scale2 e 1 \<le> x \<Longrightarrow> 2 ^ 52 \<le> scale2 (52 - e) x"
proof -
  assume a: "scale2 e 1 \<le> x"
  consider "e < 0" | "0 \<le> e" "e \<le> 52" | "52 < e" by linarith
  then show ?thesis
  proof cases
    case 1
    then have "nat (52 - e) = 52 + nat (- e)" by simp
    with 1 a show ?thesis by (simp add: scale2_def power_add field_simps)
  next
    case 2
    then have "nat 52 = nat e + nat (52 - e)" by simp
    then have "(2 :: real) ^ 52 = 2 ^ nat e * 2 ^ nat (52 - e)" by (metis nat_numeral power_add)
    also have "\<dots> \<le> x * 2 ^ nat (52 - e)" using 2 a by (simp add: scale2_def)
    finally show ?thesis using 2 by (simp add: scale2_def)
  next
    case 3
    then have "nat e = nat (e - 52) + 52" by simp
    then have "(2 :: real) ^ nat e = 2 ^ nat (e - 52) * 2 ^ 52" by (simp add: power_add)
    with 3 a show ?thesis by (simp add: scale2_def field_simps)
  qed
qed

text \<open>Numbers of at least \<open>2 ^ -63\<close> are far above the smallest exponent.\<close>

lemma exponent64_ge: "1 / 2 ^ 63 \<le> \<bar>x\<bar> \<Longrightarrow> - 63 \<le> exponent64 x"
proof (cases "1 \<le> \<bar>x\<bar>")
  case True
  then show ?thesis using bitlen_nonneg [of "\<lfloor>\<bar>x\<bar>\<rfloor>"] by (simp add: exponent64_def)
next
  assume x: "1 / 2 ^ 63 \<le> \<bar>x\<bar>"
  case False
  have "0 < (1 :: real) / 2 ^ 63" by simp
  with x have "0 < \<bar>x\<bar>" by linarith
  then have "1 / \<bar>x\<bar> \<le> 2 ^ 63" using x by (simp add: field_simps)
  then have "\<lceil>1 / \<bar>x\<bar>\<rceil> \<le> 2 ^ 63" by (simp add: ceiling_le_iff)
  then have "\<lceil>1 / \<bar>x\<bar>\<rceil> - 1 < 2 ^ 63" by linarith
  then have "bitlen (\<lceil>1 / \<bar>x\<bar>\<rceil> - 1) \<le> 63" using bitlen_le_iff_power [of "\<lceil>1 / \<bar>x\<bar>\<rceil> - 1" 63] by simp
  then show ?thesis using False by (simp add: exponent64_def)
qed

lemma fl64_normal:
  "1 / 2 ^ 63 \<le> \<bar>x\<bar> \<Longrightarrow>
     fl64 x = (if x = 0 then 0 else scale2 (exponent64 x - 52) (of_int (roundEven (scale2 (52 - exponent64 x) x))))"
  using exponent64_ge [of x] by (simp add: fl64_def Let_def max_def)

lemma fl64_pos: "1 / 2 ^ 63 \<le> x \<Longrightarrow> 0 < fl64 x"
proof -
  assume x: "1 / 2 ^ 63 \<le> x"
  then have "0 < x" by (rule less_le_trans [rotated]) simp
  then have "0 < roundEven (scale2 (52 - exponent64 x) x)"
    using scale2_shift [OF exponent64_le] by (intro roundEven_pos) (simp add: order_trans [of 1 "2 ^ 52"])
  with x \<open>0 < x\<close> show ?thesis by (simp add: fl64_normal)
qed

lemma fl64_of_int [simp]: "\<bar>n\<bar> < 2 ^ 53 \<Longrightarrow> fl64 (of_int n) = of_int n"
proof (cases "n = 0")
  assume n: "\<bar>n\<bar> < 2 ^ 53"
  case False
  have "1 \<le> \<bar>n\<bar>" using False by simp
  then have "(1 :: real) \<le> \<bar>of_int n\<bar>" by linarith
  then have normal: "1 / 2 ^ 63 \<le> \<bar>real_of_int n\<bar>" by (rule order_trans [rotated]) simp
  have "\<lfloor>\<bar>of_int n :: real\<bar>\<rfloor> = \<bar>n\<bar>" by (metis floor_of_int of_int_abs)
  then have e: "exponent64 (of_int n) = bitlen \<bar>n\<bar> - 1" using \<open>1 \<le> \<bar>of_int n\<bar>\<close> by (simp add: exponent64_def)
  have "bitlen \<bar>n\<bar> \<le> 53" using n bitlen_le_iff_power [of "\<bar>n\<bar>" 53] by simp
  then have k: "0 \<le> 52 - exponent64 (of_int n)" using e by simp
  then have "scale2 (52 - exponent64 (of_int n)) (of_int n) = of_int (n * 2 ^ nat (52 - exponent64 (of_int n)))"
    by (simp add: scale2_def)
  then have "of_int (roundEven (scale2 (52 - exponent64 (of_int n)) (of_int n))) = scale2 (52 - exponent64 (of_int n)) (of_int n)"
    by (metis roundEven_of_int)
  then show ?thesis
    using False scale2_inverse [of "exponent64 (of_int n) - 52" "of_int n"] fl64_normal [OF normal] by simp
qed (simp add: fl64_def)

lemma fl64_neg: "x \<le> - (1 / 2 ^ 63) \<Longrightarrow> fl64 x < 0"
proof -
  assume x: "x \<le> - (1 / 2 ^ 63)"
  then have "x < 0" by (rule le_less_trans) simp
  have e: "exponent64 x = exponent64 (- x)" and m: "scale2 k (- x) = - scale2 k x" for k
    by (simp_all add: exponent64_def scale2_def)
  have "scale2 (52 - exponent64 x) x \<le> - (2 ^ 52)"
    using scale2_shift [OF exponent64_le [of "- x"]] \<open>x < 0\<close> m e by simp
  then have "roundEven (scale2 (52 - exponent64 x) x) < 0" by (intro roundEven_neg) simp
  moreover have "1 / 2 ^ 63 \<le> \<bar>x\<bar>" using x \<open>x < 0\<close> by linarith
  ultimately show ?thesis using \<open>x < 0\<close> by (simp add: fl64_normal)
qed

lemma fl64_0 [simp]: "fl64 0 = 0"
  by (simp add: fl64_def)

text \<open>A quotient of integers of \<^verbatim>\<open>int64\<close> size.\<close>

lemma fl64_quotient_le_0:
  assumes "0 < L" and "L \<le> 2 ^ 63"
  shows "fl64 (of_int n / of_int L) \<le> 0 \<longleftrightarrow> n \<le> 0"
proof -
  have L: "0 < real_of_int L" "real_of_int L \<le> 2 ^ 63"
    using assms by (simp, metis of_int_le_iff of_int_numeral of_int_power)
  have low: "1 / 2 ^ 63 \<le> 1 / real_of_int L" using L by (intro divide_left_mono) simp_all
  consider "n = 0" | "0 < n" | "n < 0" by linarith
  then show ?thesis
  proof cases
    case 2
    then have "1 / real_of_int L \<le> of_int n / of_int L" using L by (intro divide_right_mono) simp_all
    with low 2 show ?thesis using fl64_pos [of "of_int n / of_int L"] by linarith
  next
    case 3
    then have "of_int n / of_int L \<le> - 1 / real_of_int L" using L by (intro divide_right_mono) simp_all
    with low 3 show ?thesis using fl64_neg [of "of_int n / of_int L"] by linarith
  qed simp
qed

end
