(* ===== verification/Strconv.thy ===== *)
theory Strconv
  imports Http Float64
begin

text \<open>
  The parsers of Go's \<^verbatim>\<open>strconv\<close> and \<^verbatim>\<open>time\<close> packages that the configuration calls: \<^verbatim>\<open>ParseInt\<close>, \<^verbatim>\<open>Atoi\<close>, \<^verbatim>\<open>ParseBool\<close>,
  \<^verbatim>\<open>ParseFloat\<close> and \<^verbatim>\<open>ParseDuration\<close>, with their overflow rules. Two round trips are proved: an \<^verbatim>\<open>int64\<close> survives
  printing and parsing, and so does a duration. In error texts every valid multi-byte UTF-8 sequence counts as printable.
\<close>

section \<open>Characters and quoting\<close>

definition isDigit :: "char \<Rightarrow> bool" where
  "isDigit = byteIn 48 57"

definition digitVal :: "char \<Rightarrow> nat" where
  "digitVal c = of_char c - 48"

definition lowerChar :: "char \<Rightarrow> char" where
  "lowerChar c = char_of ((of_char c :: nat) + (if isUpperAZ c then 32 else 0))"

text \<open>\<^verbatim>\<open>strconv.Quote(s)\<close>, which is also the verb \<^verbatim>\<open>%q\<close>.\<close>

definition quoteAscii :: "char \<Rightarrow> string" where
  "quoteAscii c =
     (let n = of_char c :: nat; bs = char_of (92::nat) in
      if n = 34 \<or> n = 92 then [bs, c]
      else if n = 7 then bs # ''a'' else if n = 8 then bs # ''b'' else if n = 12 then bs # ''f''
      else if n = 10 then bs # ''n'' else if n = 13 then bs # ''r'' else if n = 9 then bs # ''t''
      else if n = 11 then bs # ''v''
      else if n < 32 \<or> n = 127 then bs # ''x'' @ hexByte c
      else [c])"

function quoteFrom :: "string \<Rightarrow> string" where
  "quoteFrom s =
     (if s = [] then []
      else
        let n = utf8Len s in
        if n = 0 then char_of (92::nat) # ''x'' @ hexByte (hd s) @ quoteFrom (drop 1 s)
        else if n = 1 then quoteAscii (hd s) @ quoteFrom (drop 1 s)
        else take n s @ quoteFrom (drop n s))"
  by auto
termination by (relation "measure length") auto

declare quoteFrom.simps [simp del]

definition Quote :: "string \<Rightarrow> string" where
  "Quote s = [char_of (34::nat)] @ quoteFrom s @ [char_of (34::nat)]"

section \<open>Integers\<close>

definition strconv_ErrSyntax :: go_error where "strconv_ErrSyntax = Sentinel ''invalid syntax''"
definition strconv_ErrRange :: go_error where "strconv_ErrRange = Sentinel ''value out of range''"

text \<open>\<^verbatim>\<open>NumError\<close> wraps the reason.\<close>

definition NumError :: "string \<Rightarrow> string \<Rightarrow> go_error \<Rightarrow> go_error" where
  "NumError func num err = Wrapf (''strconv.'' @ func @ '': parsing '' @ Quote num @ '': '') err []"

text \<open>The digit loop of \<^verbatim>\<open>ParseUint\<close> in base ten: overflow is reported at the digit where it happens.\<close>

fun uintLoop :: "string \<Rightarrow> nat \<Rightarrow> go_error + nat" where
  "uintLoop [] n = Inr n"
| "uintLoop (c # s) n =
     (if \<not> isDigit c then Inl strconv_ErrSyntax
      else if 1844674407370955162 \<le> n then Inl strconv_ErrRange
      else let n1 = 10 * n + digitVal c in
           if 18446744073709551615 < n1 then Inl strconv_ErrRange else uintLoop s n1)"

text \<open>An optional sign: whether it is a minus, and the rest.\<close>

definition signOf :: "string \<Rightarrow> bool \<times> string" where
  "signOf s = (case s of [] \<Rightarrow> (False, []) | c # t \<Rightarrow>
     if c = CHR ''-'' then (True, t) else if c = CHR ''+'' then (False, t) else (False, s))"

definition parseInt64 :: "string \<Rightarrow> string \<Rightarrow> go_error + int" where
  "parseInt64 func s =
     (case signOf s of (neg, t) \<Rightarrow>
        if t = [] then Inl (NumError func s strconv_ErrSyntax)
        else
          (case uintLoop t 0 of
             Inl e \<Rightarrow> Inl (NumError func s e)
           | Inr un \<Rightarrow>
               if \<not> neg \<and> 9223372036854775808 \<le> un then Inl (NumError func s strconv_ErrRange)
               else if neg \<and> 9223372036854775808 < un then Inl (NumError func s strconv_ErrRange)
               else Inr (if neg then - int un else int un)))"

text \<open>\<^verbatim>\<open>strconv.ParseInt(s, 10, 64)\<close> and \<^verbatim>\<open>strconv.Atoi(s)\<close> where \<^verbatim>\<open>int\<close> has 64 bits.\<close>

definition ParseInt :: "string \<Rightarrow> go_error + int" where
  "ParseInt = parseInt64 ''ParseInt''"

definition Atoi :: "string \<Rightarrow> go_error + int" where
  "Atoi = parseInt64 ''Atoi''"

section \<open>Booleans\<close>

definition ParseBool :: "string \<Rightarrow> go_error + bool" where
  "ParseBool s =
     (if s \<in> {''1'', ''t'', ''T'', ''true'', ''TRUE'', ''True''} then Inr True
      else if s \<in> {''0'', ''f'', ''F'', ''false'', ''FALSE'', ''False''} then Inr False
      else Inl (NumError ''ParseBool'' s strconv_ErrSyntax))"

section \<open>Floating point\<close>

text \<open>The mantissa: digits with at most one point and any underscores, in base ten or sixteen.\<close>

record mantissa =
  mt_value :: nat
  mt_frac :: nat
  mt_dot :: bool
  mt_digits :: bool
  mt_underscore :: bool

definition hexVal :: "char \<Rightarrow> nat" where
  "hexVal c = (if isDigit c then digitVal c else of_char (lowerChar c) - 87)"

definition isHexLetter :: "char \<Rightarrow> bool" where
  "isHexLetter c \<longleftrightarrow> byteIn 97 102 (lowerChar c)"

fun mantissaLoop :: "bool \<Rightarrow> string \<Rightarrow> mantissa \<Rightarrow> mantissa \<times> string" where
  "mantissaLoop hex [] m = (m, [])"
| "mantissaLoop hex (c # s) m =
     (if c = CHR ''_'' then mantissaLoop hex s (m\<lparr>mt_underscore := True\<rparr>)
      else if c = CHR ''.'' then
        (if mt_dot m then (m, c # s) else mantissaLoop hex s (m\<lparr>mt_dot := True\<rparr>))
      else if isDigit c \<or> hex \<and> isHexLetter c then
        mantissaLoop hex s
          (m\<lparr>mt_value := (if hex then 16 else 10) * mt_value m + hexVal c,
             mt_frac := mt_frac m + (if mt_dot m then 1 else 0), mt_digits := True\<rparr>)
      else (m, c # s))"

text \<open>The digits of the exponent, which stops growing beyond 10000.\<close>

fun exponentLoop :: "string \<Rightarrow> nat \<Rightarrow> bool \<Rightarrow> nat \<times> bool \<times> string" where
  "exponentLoop [] e u = (e, u, [])"
| "exponentLoop (c # s) e u =
     (if c = CHR ''_'' then exponentLoop s e True
      else if isDigit c then exponentLoop s (if e < 10000 then 10 * e + digitVal c else e) u
      else (e, u, c # s))"

text \<open>\<^verbatim>\<open>underscoreOK\<close>: underscores only between digits, a base prefix counting as a digit. The state is what was seen
  last: \<^verbatim>\<open>0\<close> a digit, \<^verbatim>\<open>_\<close> an underscore, \<^verbatim>\<open>!\<close> something else.\<close>

fun underscoreLoop :: "bool \<Rightarrow> char \<Rightarrow> string \<Rightarrow> bool" where
  "underscoreLoop hex saw [] = (saw \<noteq> CHR ''_'')"
| "underscoreLoop hex saw (c # s) =
     (if isDigit c \<or> hex \<and> isHexLetter c then underscoreLoop hex CHR ''0'' s
      else if c = CHR ''_'' then saw = CHR ''0'' \<and> underscoreLoop hex CHR ''_'' s
      else saw \<noteq> CHR ''_'' \<and> underscoreLoop hex CHR ''!'' s)"

definition underscoreOK :: "string \<Rightarrow> bool" where
  "underscoreOK s =
     (let t = snd (signOf s) in
      (case t of
         z # b # r \<Rightarrow>
           if z = CHR ''0'' \<and> lowerChar b \<in> {CHR ''b'', CHR ''o'', CHR ''x''}
           then underscoreLoop (lowerChar b = CHR ''x'') CHR ''0'' r
           else underscoreLoop False CHR ''^'' t
       | _ \<Rightarrow> underscoreLoop False CHR ''^'' t))"

text \<open>\<^verbatim>\<open>readFloat\<close> on the whole string: the exact value, or nothing when the syntax is wrong.\<close>

definition readExponent :: "bool \<Rightarrow> string \<Rightarrow> (int \<times> bool \<times> string) option" where
  "readExponent hex s =
     (case s of
        [] \<Rightarrow> if hex then None else Some (0, False, [])
      | c # t \<Rightarrow>
          if lowerChar c = (if hex then CHR ''p'' else CHR ''e'') then
            (case signOf t of (neg, d) \<Rightarrow>
               if d = [] \<or> \<not> isDigit (hd d) then None
               else (case exponentLoop d 0 False of (e, u, r) \<Rightarrow> Some (if neg then - int e else int e, u, r)))
          else if hex then None else Some (0, False, s))"

definition readFloat :: "string \<Rightarrow> real option" where
  "readFloat s =
     (case signOf s of (neg, t) \<Rightarrow>
        let hex = (case t of z # b # r \<Rightarrow> z = CHR ''0'' \<and> lowerChar b = CHR ''x'' \<and> r \<noteq> [] | _ \<Rightarrow> False);
            (m, r) = mantissaLoop hex (if hex then drop 2 t else t)
                       \<lparr>mt_value = 0, mt_frac = 0, mt_dot = False, mt_digits = False, mt_underscore = False\<rparr>
        in if \<not> mt_digits m then None
           else
             (case readExponent hex r of
                None \<Rightarrow> None
              | Some (e, u, rest) \<Rightarrow>
                  if rest \<noteq> [] \<or> (mt_underscore m \<or> u) \<and> \<not> underscoreOK s then None
                  else
                    let x = (if hex then scale2 (e - 4 * int (mt_frac m)) (real (mt_value m))
                             else let k = e - int (mt_frac m) in
                                  if 0 \<le> k then real (mt_value m) * 10 ^ nat k else real (mt_value m) / 10 ^ nat (- k))
                    in Some (if neg then - x else x)))"

text \<open>The words for infinities and not-a-number, in any case.\<close>

definition specialFloat :: "string \<Rightarrow> float64 option" where
  "specialFloat s =
     (case signOf s of (neg, t) \<Rightarrow>
        if map lowerChar t \<in> {''inf'', ''infinity''} then Some (Inf neg)
        else if map lowerChar s = ''nan'' then Some NaN else None)"

definition ParseFloat :: "string \<Rightarrow> go_error + float64" where
  "ParseFloat s =
     (case specialFloat s of
        Some f \<Rightarrow> Inr f
      | None \<Rightarrow>
          (case readFloat s of
             None \<Rightarrow> Inl (NumError ''ParseFloat'' s strconv_ErrSyntax)
           | Some x \<Rightarrow>
               (case round64 x of Inf n \<Rightarrow> Inl (NumError ''ParseFloat'' s strconv_ErrRange) | f \<Rightarrow> Inr f)))"

section \<open>Durations\<close>

text \<open>\<^verbatim>\<open>leadingInt\<close>: the value of the leading digits, nothing when it passes \<open>2 ^ 63\<close>.\<close>

fun leadingInt :: "string \<Rightarrow> nat \<Rightarrow> nat option" where
  "leadingInt [] x = Some x"
| "leadingInt (c # s) x =
     (if \<not> isDigit c then Some x
      else if 922337203685477580 < x then None
      else let y = 10 * x + digitVal c in if 9223372036854775808 < y then None else leadingInt s y)"

text \<open>\<^verbatim>\<open>leadingFraction\<close>: digits after the point and their scale; digits that do not fit are dropped.\<close>

fun leadingFraction :: "string \<Rightarrow> nat \<Rightarrow> real \<Rightarrow> bool \<Rightarrow> nat \<times> real" where
  "leadingFraction [] x scale overflow = (x, scale)"
| "leadingFraction (c # s) x scale overflow =
     (if \<not> isDigit c then (x, scale)
      else if overflow \<or> 922337203685477580 < x then leadingFraction s x scale True
      else let y = 10 * x + digitVal c in
           if 9223372036854775808 < y then leadingFraction s x scale True
           else leadingFraction s y (fl64 (scale * 10)) False)"

definition microSign :: string where "microSign = map char_of [194, 181 :: nat]"
definition greekMu :: string where "greekMu = map char_of [206, 188 :: nat]"

definition unitMap :: "string \<Rightarrow> nat option" where
  "unitMap u =
     (if u = ''ns'' then Some 1
      else if u = ''us'' \<or> u = microSign @ ''s'' \<or> u = greekMu @ ''s'' then Some 1000
      else if u = ''ms'' then Some 1000000
      else if u = ''s'' then Some 1000000000
      else if u = ''m'' then Some 60000000000
      else if u = ''h'' then Some 3600000000000
      else None)"

text \<open>\<^verbatim>\<open>quote\<close> of package \<^verbatim>\<open>time\<close>.\<close>

definition quoteTime :: "string \<Rightarrow> string" where
  "quoteTime s =
     [char_of (34::nat)] @
     concat (map (\<lambda>c. if byteIn 32 127 c then (if of_char c \<in> {34, 92 :: nat} then [char_of (92::nat), c] else [c])
                      else char_of (92::nat) # ''x'' @ hexByte c) s) @
     [char_of (34::nat)]"

definition invalidDuration :: "string \<Rightarrow> go_error" where
  "invalidDuration orig = Errorf (''time: invalid duration '' @ quoteTime orig)"

definition unitChar :: "char \<Rightarrow> bool" where
  "unitChar c \<longleftrightarrow> c \<noteq> CHR ''.'' \<and> \<not> isDigit c"

text \<open>A number and its unit in nanoseconds; the fraction is computed in \<^verbatim>\<open>float64\<close>. Nothing when it passes \<open>2 ^ 63\<close>.\<close>

definition durationPart :: "nat \<Rightarrow> nat \<Rightarrow> real \<Rightarrow> nat \<Rightarrow> nat option" where
  "durationPart v f scale unit =
     (if 9223372036854775808 div unit < v then None
      else if 0 < f then
        (let w = v * unit + nat \<lfloor>fl64 (fl64 (real f) * fl64 (fl64 (real unit) / scale))\<rfloor>
         in if 9223372036854775808 < w then None else Some w)
      else Some (v * unit))"

text \<open>The digits after a point, and what follows them.\<close>

definition afterPoint :: "string \<Rightarrow> nat \<times> real \<times> bool \<times> string" where
  "afterPoint s =
     (case s of
        [] \<Rightarrow> (0, 1, False, [])
      | c # t \<Rightarrow>
          if c = CHR ''.'' then
            (case leadingFraction t 0 1 False of (f, scale) \<Rightarrow>
               (f, scale, t \<noteq> [] \<and> isDigit (hd t), dropWhile isDigit t))
          else (0, 1, False, s))"

lemma length_afterPoint: "afterPoint s = (f, scale, post, s2) \<Longrightarrow> length s2 \<le> length s"
  by (auto simp: afterPoint_def length_dropWhile_le le_SucI split: list.splits if_splits prod.splits)

lemma length_dropWhile_less: "takeWhile P s \<noteq> [] \<Longrightarrow> length (dropWhile P s) < length s"
  using takeWhile_dropWhile_id [of P s] by (metis length_append length_greater_0_conv less_add_same_cancel2)

lemma durationLoop_shorter:
  assumes "(f, scale, post, s2) = afterPoint (dropWhile isDigit s)" and "takeWhile unitChar s2 \<noteq> []"
  shows "length (dropWhile unitChar s2) < length s"
  using length_afterPoint [OF assms(1) [symmetric]] length_dropWhile_le [of isDigit s] length_dropWhile_less [OF assms(2)]
  by linarith

text \<open>The loop of \<^verbatim>\<open>ParseDuration\<close> over the parts; \<open>d\<close> is a \<^verbatim>\<open>uint64\<close>.\<close>

function durationLoop :: "string \<Rightarrow> string \<Rightarrow> nat \<Rightarrow> go_error + nat" where
  "durationLoop orig s d =
     (if s = [] then Inr d
      else if \<not> (hd s = CHR ''.'' \<or> isDigit (hd s)) then Inl (invalidDuration orig)
      else
        (case leadingInt s 0 of
           None \<Rightarrow> Inl (invalidDuration orig)
         | Some v \<Rightarrow>
             (case afterPoint (dropWhile isDigit s) of (f, scale, post, s2) \<Rightarrow>
                if \<not> isDigit (hd s) \<and> \<not> post then Inl (invalidDuration orig)
                else
                  let u = takeWhile unitChar s2 in
                  if u = [] then Inl (Errorf (''time: missing unit in duration '' @ quoteTime orig))
                  else
                    (case unitMap u of
                       None \<Rightarrow> Inl (Errorf (''time: unknown unit '' @ quoteTime u @ '' in duration '' @ quoteTime orig))
                     | Some unit \<Rightarrow>
                         (case durationPart v f scale unit of
                            None \<Rightarrow> Inl (invalidDuration orig)
                          | Some w \<Rightarrow>
                              let d' = (d + w) mod 18446744073709551616 in
                              if 9223372036854775808 < d' then Inl (invalidDuration orig)
                              else durationLoop orig (dropWhile unitChar s2) d')))))"
  by pat_completeness auto

termination by (relation "measure (\<lambda>(orig, s, d). length s)") (auto dest: durationLoop_shorter)

declare durationLoop.simps [simp del]

definition ParseDuration :: "string \<Rightarrow> go_error + duration" where
  "ParseDuration s =
     (case signOf s of (neg, t) \<Rightarrow>
        if t = ''0'' then Inr 0
        else if t = [] then Inl (invalidDuration s)
        else
          (case durationLoop s t 0 of
             Inl e \<Rightarrow> Inl e
           | Inr d \<Rightarrow>
               if neg then Inr (i64 (- int d))
               else if 9223372036854775807 < d then Inl (invalidDuration s)
               else Inr (int d)))"

section \<open>Reading digits\<close>

lemma isDigit_digitChar: "d < 10 \<Longrightarrow> isDigit (digitChar d)"
  by (simp add: isDigit_def byteIn_def of_char_digitChar)

lemma isDigit_natDigits: "c \<in> set (natDigits n) \<Longrightarrow> isDigit c"
  using natDigits_chars [of n] isDigit_digitChar by auto

text \<open>The value of a digit string read after a number.\<close>

definition readDigits :: "nat \<Rightarrow> string \<Rightarrow> nat" where
  "readDigits n s = foldl (\<lambda>a c. 10 * a + digitVal c) n s"

lemma readDigits_simps [simp]:
  "readDigits n [] = n" "readDigits n (c # s) = readDigits (10 * n + digitVal c) s"
  "readDigits n (s @ t) = readDigits (readDigits n s) t"
  by (simp_all add: readDigits_def)

lemma readDigits_mono: "n \<le> readDigits n s"
proof (induction s arbitrary: n)
  case (Cons c s)
  show ?case using Cons.IH [of "10 * n + digitVal c"] by simp
qed simp

lemma readDigits_natDigits [simp]: "readDigits 0 (natDigits n) = n"
  using digitsVal_natDigits [of n] by (simp add: readDigits_def digitsVal_def digitVal_def)

lemma isDigit_not [simp]: "\<not> isDigit CHR ''-''" "\<not> isDigit CHR ''+''" "\<not> isDigit CHR ''.''"
  by (simp_all add: isDigit_def byteIn_def)

lemma digits_natDigits [simp]: "list_all isDigit (natDigits n)"
  using isDigit_natDigits by (simp add: list_all_iff)

lemma signOf_digits: "s \<noteq> [] \<Longrightarrow> isDigit (hd s) \<Longrightarrow> signOf s = (False, s)"
  by (cases s) (auto simp: signOf_def)

lemma hd_natDigits [simp]: "isDigit (hd (natDigits n))"
  by (rule isDigit_natDigits [of _ n]) simp

lemma uintLoop_digits:
  "list_all isDigit s \<Longrightarrow> readDigits n s \<le> 18446744073709551615 \<Longrightarrow> uintLoop s n = Inr (readDigits n s)"
proof (induction s arbitrary: n)
  case (Cons c s)
  have "10 * n + digitVal c \<le> 18446744073709551615"
    using Cons.prems(2) readDigits_mono [of "10 * n + digitVal c" s] by simp
  with Cons show ?case by (simp add: Let_def)
qed simp

lemma leadingInt_digits:
  "list_all isDigit ds \<Longrightarrow> (t = [] \<or> \<not> isDigit (hd t)) \<Longrightarrow> readDigits x ds \<le> 9223372036854775808 \<Longrightarrow>
     leadingInt (ds @ t) x = Some (readDigits x ds)"
proof (induction ds arbitrary: x)
  case Nil
  then show ?case by (cases t) auto
next
  case (Cons c s)
  have "10 * x + digitVal c \<le> 9223372036854775808"
    using Cons.prems(3) readDigits_mono [of "10 * x + digitVal c" s] by simp
  with Cons show ?case by (simp add: Let_def)
qed

lemma parseInt64_FormatInt: "in_i64 n \<Longrightarrow> parseInt64 func (FormatInt n) = Inr n"
proof -
  assume n: "in_i64 n"
  have u: "m \<le> 9223372036854775808 \<Longrightarrow> uintLoop (natDigits m) 0 = Inr m" for m
    using uintLoop_digits [of "natDigits m" 0] by simp
  have minus: "signOf (CHR ''-'' # t) = (True, t)" for t by (simp add: signOf_def)
  have "nat (- n) \<le> 9223372036854775808" and "nat n < 9223372036854775808"
    using n unfolding in_i64_def by arith+
  then show ?thesis by (simp add: parseInt64_def FormatInt_def minus signOf_digits u)
qed

section \<open>Reading durations\<close>

text \<open>A number without a point and its unit.\<close>

lemma unitChars:
  "list_all unitChar ''s''" "list_all unitChar ''m''" "list_all unitChar ''h''" "list_all unitChar ''ns''"
  "list_all unitChar ''ms''" "list_all unitChar (microSign @ ''s'')"
  by code_simp+

lemma takeWhile_unit:
  assumes "list_all unitChar u" and "t = [] \<or> isDigit (hd t)"
  shows "takeWhile unitChar (u @ t) = u" and "dropWhile unitChar (u @ t) = t"
proof -
  have "takeWhile unitChar t = []" "dropWhile unitChar t = t"
    using assms(2) by (cases t; auto simp: unitChar_def)+
  then show "takeWhile unitChar (u @ t) = u" and "dropWhile unitChar (u @ t) = t"
    using assms(1) by (simp_all add: takeWhile_append list_all_iff dropWhile_append)
qed

lemma natDigits_rest:
  assumes "t = [] \<or> \<not> isDigit (hd t)"
  shows "dropWhile isDigit (natDigits v @ t) = t"
    and "v \<le> 9223372036854775808 \<Longrightarrow> leadingInt (natDigits v @ t) 0 = Some v"
proof -
  have "dropWhile isDigit t = t" using assms by (cases t) auto
  then show "dropWhile isDigit (natDigits v @ t) = t"
    using isDigit_natDigits [of _ v] by (simp add: dropWhile_append)
  show "v \<le> 9223372036854775808 \<Longrightarrow> leadingInt (natDigits v @ t) 0 = Some v"
    using leadingInt_digits [OF digits_natDigits assms, of 0 v] by simp
qed

lemma durationLoop_whole:
  assumes u: "list_all unitChar u" "u \<noteq> []" "unitMap u = Some unit" "0 < unit" and t: "t = [] \<or> isDigit (hd t)"
    and le: "d + v * unit \<le> 9223372036854775808"
  shows "durationLoop orig (natDigits v @ u @ t) d = durationLoop orig t (d + v * unit)"
proof -
  have "hd (u @ t) \<noteq> CHR ''.'' \<and> \<not> isDigit (hd (u @ t))"
    using u(1,2) by (cases u) (auto simp: unitChar_def)
  then have nd: "u @ t = [] \<or> \<not> isDigit (hd (u @ t))" and dot: "afterPoint (u @ t) = (0, 1, False, u @ t)"
    by (auto simp: afterPoint_def split: list.splits)
  have "v * unit \<le> 9223372036854775808" using le by simp
  then have div: "v \<le> 9223372036854775808 div unit" using u(4) by (simp add: less_eq_div_iff_mult_less_eq)
  moreover have "\<dots> \<le> 9223372036854775808" by (rule div_le_dividend)
  ultimately have v: "v \<le> 9223372036854775808" by (rule order_trans)
  have "hd (natDigits v @ u @ t) = hd (natDigits v)" by simp
  then show ?thesis
    using u div le
    by (subst durationLoop.simps)
      (simp add: natDigits_rest [OF nd] v dot takeWhile_unit [OF u(1) t] durationPart_def not_less Let_def)
qed

lemma isDigit_0: "isDigit CHR ''0''"
  by (simp add: isDigit_def byteIn_def)

lemma isDigit_pos: "isDigit c \<Longrightarrow> c \<noteq> CHR ''0'' \<Longrightarrow> 0 < digitVal c"
proof -
  assume c: "isDigit c" "c \<noteq> CHR ''0''"
  have "of_char c \<noteq> (48 :: nat)"
  proof
    assume "of_char c = (48 :: nat)"
    moreover have "char_of (48 :: nat) = CHR ''0''" by code_simp
    ultimately have "char_of (of_char c :: nat) = CHR ''0''" by (simp only:)
    with c(2) show False by (simp only: char_of_char)
  qed
  with c(1) show ?thesis by (simp add: isDigit_def byteIn_def digitVal_def)
qed

text \<open>A number with the fraction that \<open>fmtFrac\<close> prints.\<close>

lemma readDigits_zeros: "readDigits 0 (replicate k CHR ''0'') = 0"
  by (induction k) (simp_all add: digitVal_def)

lemma readDigits_trim:
  "readDigits 0 s = readDigits 0 (rev (dropWhile (\<lambda>c. c = CHR ''0'') (rev s))) *
     10 ^ (length s - length (dropWhile (\<lambda>c. c = CHR ''0'') (rev s)))"
proof (induction s rule: rev_induct)
  case (snoc c s)
  have "length (dropWhile (\<lambda>c. c = CHR ''0'') (rev s)) \<le> length s"
    using length_dropWhile_le [of _ "rev s"] by simp
  with snoc show ?case by (simp add: digitVal_def Suc_diff_le)
qed simp

lemma length_natDigits: "0 < k \<Longrightarrow> n < 10 ^ k \<Longrightarrow> length (natDigits n) \<le> k"
proof (induction n arbitrary: k rule: natDigits.induct)
  case (1 n)
  show ?case
  proof (cases "n < 10")
    case True
    with 1 show ?thesis by (simp add: natDigits.simps [of n])
  next
    case False
    then obtain j where k: "k = Suc j" "0 < j" using 1 by (cases k; cases "k - 1") auto
    then have "n div 10 < 10 ^ j" using 1(3) by (simp add: div_less_iff_less_mult mult.commute)
    with 1(1) [OF False k(2)] False k show ?thesis by (simp add: natDigits.simps [of n])
  qed
qed

text \<open>The digits of a fraction, their number, and the value they stand for.\<close>

lemma fracDigits:
  assumes "0 < prec" and "r < 10 ^ prec"
  defines "ds \<equiv> rev (dropWhile (\<lambda>c. c = CHR ''0'') (rev (padLeft prec (natDigits r))))"
  shows "list_all isDigit ds" and "length ds \<le> prec" and "readDigits 0 ds * 10 ^ (prec - length ds) = r"
    and "ds \<noteq> [] \<Longrightarrow> 0 < r"
proof -
  let ?p = "padLeft prec (natDigits r)"
  have len: "length ?p = prec" using length_natDigits [OF assms(1,2)] by (simp add: padLeft_def)
  have "list_all isDigit ?p" using isDigit_natDigits [of _ r] by (auto simp: padLeft_def list_all_iff isDigit_0)
  then show dig: "list_all isDigit ds"
    unfolding ds_def by (auto simp: list_all_iff dest: set_dropWhileD)
  show "length ds \<le> prec" using length_dropWhile_le [of "\<lambda>c. c = CHR ''0''" "rev ?p"] len by (simp add: ds_def)
  have "readDigits 0 ?p = r" using readDigits_natDigits [of r] by (simp add: padLeft_def readDigits_zeros)
  then show val: "readDigits 0 ds * 10 ^ (prec - length ds) = r"
    using readDigits_trim [of ?p] len by (simp add: ds_def)
  show "0 < r" if "ds \<noteq> []"
  proof -
    have ds: "ds = butlast ds @ [last ds]" using that by simp
    have "rev ds = dropWhile (\<lambda>c. c = CHR ''0'') (rev ?p)" by (simp add: ds_def)
    moreover from this have "dropWhile (\<lambda>c. c = CHR ''0'') (rev ?p) \<noteq> []" using that by (metis rev_is_Nil_conv)
    ultimately have "hd (rev ds) \<noteq> CHR ''0''" using hd_dropWhile [of "\<lambda>c. c = CHR ''0''" "rev ?p"] by simp
    then have "last ds \<noteq> CHR ''0''" by (simp add: hd_rev)
    moreover have "isDigit (last ds)" using dig that by (simp add: list_all_iff)
    ultimately have "0 < digitVal (last ds)" using isDigit_pos by blast
    then have "0 < readDigits 0 (butlast ds @ [last ds])" by simp
    then have "0 < readDigits 0 ds" using ds by simp
    then show ?thesis using val by (metis mult_pos_pos zero_less_numeral zero_less_power)
  qed
qed

lemma leadingFraction_digits:
  assumes "list_all isDigit ds" and "t = [] \<or> \<not> isDigit (hd t)" and "k + length ds \<le> 15" and "x < 10 ^ k"
  shows "leadingFraction (ds @ t) x (10 ^ k) False = (readDigits x ds, 10 ^ (k + length ds))"
  using assms
proof (induction ds arbitrary: x k)
  case Nil
  then show ?case by (cases t) auto
next
  case (Cons c s)
  have "digitVal c < 10" using Cons.prems(1) by (simp add: isDigit_def byteIn_def digitVal_def) linarith
  then have y: "10 * x + digitVal c < 10 ^ Suc k" using Cons.prems(4) by simp
  have "(10::nat) ^ Suc k \<le> 10 ^ 15" using Cons.prems(3) by (intro power_increasing) auto
  with y have small: "10 * x + digitVal c < 10 ^ 15" by linarith
  have "(10::int) ^ Suc k \<le> 10 ^ 15" using Cons.prems(3) by (intro power_increasing) auto
  then have "\<bar>(10::int) ^ Suc k\<bar> < 2 ^ 53" by simp
  from fl64_of_int [OF this] have "fl64 (10 ^ k * 10) = 10 ^ Suc k" by (simp add: mult.commute)
  moreover have "leadingFraction (s @ t) (10 * x + digitVal c) (10 ^ Suc k) False =
      (readDigits (10 * x + digitVal c) s, 10 ^ (Suc k + length s))"
    using Cons.prems y by (intro Cons.IH) auto
  ultimately show ?case using Cons.prems small by (simp add: Let_def)
qed

lemma durationPart_frac:
  assumes "f * 10 ^ (prec - k) = r" and "0 < r" and "k \<le> prec" and "prec \<le> 9" and "r < 10 ^ prec"
    and "v * 10 ^ prec + r \<le> 9223372036854775808"
  shows "durationPart v f (10 ^ k) (10 ^ prec) = Some (v * 10 ^ prec + r)"
proof -
  have exact: "fl64 (real n) = real n" if "n \<le> 10 ^ 9" for n :: nat
  proof -
    have "int n \<le> int (10 ^ 9)" using that by (simp only: of_nat_le_iff)
    then have "\<bar>int n\<bar> < 2 ^ 53" by simp
    then show ?thesis using fl64_of_int by (metis of_int_of_nat_eq)
  qed
  have p: "(10::nat) ^ prec \<le> 10 ^ 9" "(10::nat) ^ (prec - k) \<le> 10 ^ 9"
    using assms(4) by (intro power_increasing; simp)+
  have "f \<le> r" using assms(1) [symmetric] by (simp add: Suc_le_eq)
  then have f: "f \<le> 10 ^ 9" "0 < f" "r \<le> 10 ^ 9" using p(1) assms(1,2,5) by auto
  have "(10 :: real) ^ prec = 10 ^ (prec - k) * 10 ^ k" using assms(3) by (simp add: power_add [symmetric])
  then have "real (10 ^ prec) / 10 ^ k = real (10 ^ (prec - k))" by simp
  then have "fl64 (fl64 (real (10 ^ prec)) / 10 ^ k) = real (10 ^ (prec - k))"
    using exact [OF p(1)] exact [OF p(2)] by simp
  then have "fl64 (fl64 (real f) * fl64 (fl64 (real (10 ^ prec)) / 10 ^ k)) = real r"
    using exact [OF f(1)] exact [OF f(3)] assms(1) by (metis of_nat_mult)
  moreover have "\<not> 9223372036854775808 div 10 ^ prec < v"
  proof -
    have "v * 10 ^ prec \<le> 9223372036854775808" using assms(6) by simp
    then show ?thesis by (simp add: not_less less_eq_div_iff_mult_less_eq)
  qed
  ultimately show ?thesis using f assms(6) by (simp add: durationPart_def Let_def)
qed

text \<open>The last part of a printed duration: \<open>x\<close> in units of \<open>10 ^ prec\<close> nanoseconds.\<close>

lemma durationLoop_frac:
  assumes u: "list_all unitChar u" "u \<noteq> []" "unitMap u = Some (10 ^ prec)" and prec: "0 < prec" "prec \<le> 9"
    and le: "d + (v * 10 ^ prec + x mod 10 ^ prec) \<le> 9223372036854775808"
  shows "durationLoop orig (natDigits v @ fmtFrac x prec @ u) d = Inr (d + (v * 10 ^ prec + x mod 10 ^ prec))"
proof -
  define r where "r = x mod 10 ^ prec"
  define ds where "ds = rev (dropWhile (\<lambda>c. c = CHR ''0'') (rev (padLeft prec (natDigits r))))"
  have r: "r < 10 ^ prec" by (simp add: r_def)
  note ds = fracDigits [OF prec(1) r, folded ds_def]
  have frac: "fmtFrac x prec = (if ds = [] then [] else CHR ''.'' # ds)" by (simp add: fmtFrac_def ds_def r_def Let_def)
  show ?thesis
  proof (cases "ds = []")
    case True
    then have "r = 0" using ds(3) by simp
    with True frac le show ?thesis
      using durationLoop_whole [OF u(1,2,3), of "[]" d v orig] by (simp add: durationLoop.simps [of _ "[]"] r_def)
  next
    case False
    have nd: "\<not> isDigit (hd u)" using u(1,2) by (cases u) (auto simp: unitChar_def)
    have "v * 10 ^ prec \<le> 9223372036854775808" using le by simp
    then have "v \<le> 9223372036854775808" by (rule order_trans [rotated]) simp
    then have int: "leadingInt (natDigits v @ CHR ''.'' # ds @ u) 0 = Some v" "dropWhile isDigit (natDigits v @ CHR ''.'' # ds @ u) = CHR ''.'' # ds @ u"
      using natDigits_rest [of "CHR ''.'' # ds @ u" v] by simp_all
    have fr: "leadingFraction (ds @ u) 0 1 False = (readDigits 0 ds, 10 ^ length ds)"
      using leadingFraction_digits [of ds u 0 0] ds(1,2) nd prec by simp
    have hd: "ds @ u \<noteq> [] \<and> isDigit (hd (ds @ u))" using False ds(1) by (cases ds) auto
    have dw: "dropWhile isDigit (ds @ u) = u"
      using ds(1) nd u(2) by (cases u) (auto simp: dropWhile_append list_all_iff)
    have "0 < r" using ds(4) False .
    note part = durationPart_frac [OF ds(3) \<open>0 < r\<close> ds(2) prec(2) r]
    have tw: "takeWhile unitChar u = u" "dropWhile unitChar u = []" using takeWhile_unit [OF u(1), of "[]"] by simp_all
    show ?thesis
      using le u part [of v] hd False
      by (subst durationLoop.simps) (simp add: frac int afterPoint_def fr dw tw durationLoop.simps [of _ "[]"] r_def Let_def)
  qed
qed

lemma unitMap_simps:
  "unitMap ''ns'' = Some 1" "unitMap (microSign @ ''s'') = Some (10 ^ 3)" "unitMap ''ms'' = Some (10 ^ 6)"
  "unitMap ''s'' = Some (10 ^ 9)" "unitMap ''m'' = Some 60000000000" "unitMap ''h'' = Some 3600000000000"
  by (simp_all add: unitMap_def microSign_def greekMu_def)

text \<open>The text of a duration without its sign, read back.\<close>

definition dur_digits :: "nat \<Rightarrow> string" where
  "dur_digits u =
     (let s = u div 1000000000 in
       if u = 0 then ''0s''
       else if u < 1000 then natDigits u @ ''ns''
       else if u < 1000000 then fmtUnit u 3 @ microSign @ ''s''
       else if u < 1000000000 then fmtUnit u 6 @ ''ms''
       else (if s < 60 then [] else
               (if s < 3600 then [] else natDigits (s div 3600) @ ''h'') @
               natDigits (s div 60 mod 60) @ ''m'') @
            natDigits (s mod 60) @ fmtFrac u 9 @ ''s'')"

lemma dur_String_digits: "dur_String d = (if d < 0 then ''-'' else []) @ dur_digits (nat \<bar>d\<bar>)"
  by (simp add: dur_String_def dur_digits_def microSign_def Let_def)

lemma durationLoop_seconds:
  assumes "u \<le> 9223372036854775808" and "d + (v * 10 ^ 9 + u mod 10 ^ 9) = u"
  shows "durationLoop orig (natDigits v @ fmtFrac u 9 @ ''s'') d = Inr u"
  using durationLoop_frac [of "''s''" 9 d v u orig] assms unitChars(1) by (simp add: unitMap_simps)

text \<open>Hours, minutes and seconds.\<close>

lemma durationLoop_clock:
  assumes "u \<le> 9223372036854775808"
  defines "s \<equiv> u div 1000000000"
  shows "durationLoop orig
     ((if s < 60 then [] else
         (if s < 3600 then [] else natDigits (s div 3600) @ ''h'') @ natDigits (s div 60 mod 60) @ ''m'') @
      natDigits (s mod 60) @ fmtFrac u 9 @ ''s'') 0 = Inr u"
proof -
  let ?last = "natDigits (s mod 60) @ fmtFrac u 9 @ ''s''"
  have us: "s * 1000000000 + u mod 1000000000 = u" by (simp add: s_def)
  have seconds: "d + (s mod 60) * 10 ^ 9 + u mod 10 ^ 9 = u \<Longrightarrow> durationLoop orig ?last d = Inr u" for d
    using durationLoop_seconds [OF assms(1), of d "s mod 60" orig] by (simp add: add.assoc)
  have minutes: "durationLoop orig (natDigits (s div 60 mod 60) @ ''m'' @ ?last) d = Inr u"
    if d: "d + (s div 60 mod 60) * 60000000000 + (s mod 60) * 1000000000 + u mod 1000000000 = u" for d
  proof -
    have "durationLoop orig (natDigits (s div 60 mod 60) @ ''m'' @ ?last) d =
        durationLoop orig ?last (d + (s div 60 mod 60) * 60000000000)"
      using d assms(1) unitChars(2) by (intro durationLoop_whole) (simp_all add: unitMap_simps)
    also have "\<dots> = Inr u" by (rule seconds) (use d in simp)
    finally show ?thesis .
  qed
  have hours: "durationLoop orig (natDigits (s div 3600) @ ''h'' @ natDigits (s div 60 mod 60) @ ''m'' @ ?last) 0 = Inr u"
  proof -
    have split: "s div 3600 * 3600 + (s div 60 mod 60) * 60 + s mod 60 = s"
    proof -
      have "s div 60 div 60 * 60 + s div 60 mod 60 = s div 60" by simp
      then have "(s div 60 div 60 * 60 + s div 60 mod 60) * 60 + s mod 60 = s" by simp
      then show ?thesis by (simp add: div_mult2_eq [symmetric] algebra_simps)
    qed
    have eq: "s div 3600 * 3600000000000 + (s div 60 mod 60) * 60000000000 + (s mod 60) * 1000000000 + u mod 1000000000 = u"
      using arg_cong [OF split, of "\<lambda>x. x * 1000000000 + u mod 1000000000"] us by (simp add: algebra_simps)
    then have "durationLoop orig (natDigits (s div 3600) @ ''h'' @ natDigits (s div 60 mod 60) @ ''m'' @ ?last) 0 =
        durationLoop orig (natDigits (s div 60 mod 60) @ ''m'' @ ?last) (0 + s div 3600 * 3600000000000)"
      using assms(1) unitChars(3) by (intro durationLoop_whole) (simp_all add: unitMap_simps)
    also have "\<dots> = Inr u" by (rule minutes) (use eq in simp)
    finally show ?thesis .
  qed
  consider "s < 60" | "60 \<le> s" "s < 3600" | "3600 \<le> s" by linarith
  then show ?thesis
  proof cases
    case 1
    then show ?thesis using seconds [of 0] us by simp
  next
    case 2
    have "s div 60 < 60" using 2(2) by (simp add: div_less_iff_less_mult)
    then have "s = (s div 60 mod 60) * 60 + s mod 60" by simp
    from arg_cong [OF this, of "\<lambda>x. x * 1000000000 + u mod 1000000000"]
    have "0 + (s div 60 mod 60) * 60000000000 + (s mod 60) * 1000000000 + u mod 1000000000 = u"
      unfolding us by (simp only: algebra_simps)
    from minutes [OF this] 2 show ?thesis by simp
  next
    case 3
    with hours show ?thesis by simp
  qed
qed

text \<open>A printed duration starts with a digit and ends with the unit.\<close>

lemma dur_digits_start: "dur_digits u \<noteq> [] \<and> isDigit (hd (dur_digits u))"
proof -
  have "isDigit (hd (natDigits n @ t))" for n t by simp
  then show ?thesis by (simp add: dur_digits_def fmtUnit_def isDigit_0 Let_def)
qed

lemma dur_digits_last: "last (dur_digits u) = CHR ''s''"
  by (simp add: dur_digits_def fmtUnit_def microSign_def Let_def)

lemma durationLoop_digits:
  assumes u: "u \<le> 9223372036854775808"
  shows "durationLoop orig (dur_digits u) 0 = Inr u"
proof -
  have zero: "''0s'' = natDigits 0 @ ''s'' @ []" by code_simp
  consider "u = 0" | "0 < u" "u < 1000" | "1000 \<le> u" "u < 1000000" | "1000000 \<le> u" "u < 1000000000" | "1000000000 \<le> u"
    by linarith
  then show ?thesis
  proof cases
    case 1
    then show ?thesis
      using durationLoop_whole [of "''s''" "10 ^ 9" "[]" 0 0 orig] unitChars(1)
      by (simp add: dur_digits_def zero unitMap_simps durationLoop.simps [of _ "[]"])
  next
    case 2
    then show ?thesis
      using durationLoop_whole [of "''ns''" 1 "[]" 0 u orig] unitChars(4) u
      by (simp add: dur_digits_def unitMap_simps durationLoop.simps [of _ "[]"])
  next
    case 3
    then show ?thesis
      using durationLoop_frac [of "microSign @ ''s''" 3 0 "u div 10 ^ 3" u orig] unitChars(6) u
      by (simp add: dur_digits_def fmtUnit_def unitMap_simps)
  next
    case 4
    then show ?thesis
      using durationLoop_frac [of "''ms''" 6 0 "u div 10 ^ 6" u orig] unitChars(5) u
      by (simp add: dur_digits_def fmtUnit_def unitMap_simps)
  next
    case 5
    then show ?thesis using durationLoop_clock [OF u, of orig] by (simp add: dur_digits_def Let_def)
  qed
qed

lemma ParseDuration_String:
  assumes "in_i64 d"
  shows "ParseDuration (dur_String d) = Inr d"
proof -
  have u: "nat \<bar>d\<bar> \<le> 9223372036854775808" using assms unfolding in_i64_def by arith
  have "signOf (dur_digits n) = (False, dur_digits n)" for n
    using signOf_digits dur_digits_start by blast
  then have "signOf (dur_String d) = (d < 0, dur_digits (nat \<bar>d\<bar>))"
    unfolding dur_String_digits by (simp add: signOf_def [of "CHR ''-'' # _"])
  moreover have "dur_digits n \<noteq> ''0'' \<and> dur_digits n \<noteq> []" for n using dur_digits_start [of n] dur_digits_last [of n] by auto
  ultimately show ?thesis
    using durationLoop_digits [OF u] assms nat_less_iff [of d 9223372036854775808]
    by (cases "d < 0") (simp_all add: ParseDuration_def in_i64_def not_less)
qed

end
