(* ===== verification/Json.thy ===== *)
theory Json
  imports Strconv
begin

text \<open>
  Reading JSON the way Go's \<^verbatim>\<open>encoding/json\<close> does: the grammar of its scanner with the limit of 10000 on nesting, string
  literals with their escapes, and the rules by which a decoder fills the fields of a struct. Only whether decoding
  fails is modelled, not the text of its errors.

  The parser is recursive with fuel, one unit per call. A call for a value consumes input or calls for the elements
  that follow, so twice the length of the input plus two is enough: with at least that much fuel the result no longer
  depends on it.
\<close>

datatype json =
    JsonNull
  | JsonBool bool
  | JsonNumber string \<comment> \<open>the literal as written\<close>
  | JsonString string \<comment> \<open>the body as written, escapes included\<close>
  | JsonArray "json list"
  | JsonObject "(string \<times> json) list"

section \<open>Literals\<close>

definition isSpace :: "char \<Rightarrow> bool" where
  "isSpace c \<longleftrightarrow> of_char c \<in> {9, 10, 13, 32 :: nat}"

definition isHex :: "char \<Rightarrow> bool" where
  "isHex c \<longleftrightarrow> isDigit c \<or> isHexLetter c"

text \<open>The body of a string up to its closing quote, as written, and what follows; control characters and unknown
  escapes are errors.\<close>

fun scanString :: "string \<Rightarrow> (string \<times> string) option" where
  "scanString [] = None"
| "scanString (c # s) =
     (let n = of_char c :: nat in
      if n = 34 then Some ([], s)
      else if n = 92 then
        (case s of
           e # t \<Rightarrow>
             if e = CHR ''u'' then
               (case t of
                  a # b # x # y # r \<Rightarrow>
                    if isHex a \<and> isHex b \<and> isHex x \<and> isHex y
                    then map_option (\<lambda>(raw, rest). ([c, e, a, b, x, y] @ raw, rest)) (scanString r) else None
                | _ \<Rightarrow> None)
             else if of_char e \<in> {34, 92, 47, 98, 102, 110, 114, 116 :: nat}
             then map_option (\<lambda>(raw, rest). ([c, e] @ raw, rest)) (scanString t)
             else None
         | [] \<Rightarrow> None)
      else if n < 32 then None
      else map_option (\<lambda>(raw, rest). (c # raw, rest)) (scanString s))"

text \<open>UTF-8 encoding of a code point, the replacement character, and the value of four hex digits.\<close>

definition encodeRune :: "nat \<Rightarrow> string" where
  "encodeRune r = map char_of
     (if r < 128 then [r]
      else if r < 2048 then [192 + r div 64, 128 + r mod 64]
      else if r < 65536 then [224 + r div 4096, 128 + r div 64 mod 64, 128 + r mod 64]
      else [240 + r div 262144, 128 + r div 4096 mod 64, 128 + r div 64 mod 64, 128 + r mod 64])"

definition runeError :: string where
  "runeError = encodeRune 65533"

definition hex4 :: "string \<Rightarrow> nat" where
  "hex4 ds = foldl (\<lambda>n c. 16 * n + hexVal c) 0 ds"

text \<open>\<^verbatim>\<open>unquote\<close> on the body of a valid string literal: a lone surrogate and a byte that is not UTF-8 become the
  replacement character.\<close>

function unquote :: "string \<Rightarrow> string" where
  "unquote s =
     (case s of
        [] \<Rightarrow> []
      | c # t \<Rightarrow>
          if of_char c = (92 :: nat) then
            (case t of
               [] \<Rightarrow> []
             | e # u \<Rightarrow>
                 if e = CHR ''u'' then
                   (let r = hex4 (take 4 u); rest = drop 4 u;
                        low = (case rest of b # x # ds \<Rightarrow>
                                 if of_char b = (92 :: nat) \<and> x = CHR ''u'' then hex4 (take 4 ds) else 0 | _ \<Rightarrow> 0)
                    in if 55296 \<le> r \<and> r < 57344 then
                         (if r < 56320 \<and> 56320 \<le> low \<and> low < 57344
                          then encodeRune (65536 + (r - 55296) * 1024 + (low - 56320)) @ unquote (drop 6 rest)
                          else runeError @ unquote rest)
                       else encodeRune r @ unquote rest)
                 else
                   (if e = CHR ''b'' then char_of (8 :: nat) else if e = CHR ''f'' then char_of (12 :: nat)
                    else if e = CHR ''n'' then char_of (10 :: nat) else if e = CHR ''r'' then char_of (13 :: nat)
                    else if e = CHR ''t'' then char_of (9 :: nat) else e) # unquote u)
          else
            let n = utf8Len s in
            if n = 0 then runeError @ unquote t else take n s @ unquote (drop n s))"
  by pat_completeness auto
termination by (relation "measure length") auto

declare unquote.simps [simp del]

text \<open>A number literal and what follows.\<close>

definition scanDigits :: "string \<Rightarrow> (string \<times> string) option" where
  "scanDigits s = (if s \<noteq> [] \<and> isDigit (hd s) then Some (takeWhile isDigit s, dropWhile isDigit s) else None)"

definition scanInteger :: "string \<Rightarrow> (string \<times> string) option" where
  "scanInteger s = (case s of c # t \<Rightarrow> if c = CHR ''0'' then Some (''0'', t) else scanDigits s | [] \<Rightarrow> None)"

definition scanFraction :: "string \<Rightarrow> (string \<times> string) option" where
  "scanFraction s =
     (case s of
        c # t \<Rightarrow> if c = CHR ''.'' then map_option (\<lambda>(ds, r). (c # ds, r)) (scanDigits t) else Some ([], s)
      | [] \<Rightarrow> Some ([], []))"

definition scanExponent :: "string \<Rightarrow> (string \<times> string) option" where
  "scanExponent s =
     (case s of
        c # t \<Rightarrow>
          if c = CHR ''e'' \<or> c = CHR ''E'' then
            (case t of
               g # u \<Rightarrow>
                 if g = CHR ''+'' \<or> g = CHR ''-'' then map_option (\<lambda>(ds, r). (c # g # ds, r)) (scanDigits u)
                 else map_option (\<lambda>(ds, r). (c # ds, r)) (scanDigits t)
             | [] \<Rightarrow> None)
          else Some ([], s)
      | [] \<Rightarrow> Some ([], []))"

definition scanNumber :: "string \<Rightarrow> (string \<times> string) option" where
  "scanNumber s =
     (let (sign, s1) = (case s of c # t \<Rightarrow> if c = CHR ''-'' then (''-'', t) else ([], s) | [] \<Rightarrow> ([], s)) in
      case scanInteger s1 of
        None \<Rightarrow> None
      | Some (i, s2) \<Rightarrow>
          (case scanFraction s2 of
             None \<Rightarrow> None
           | Some (f, s3) \<Rightarrow>
               (case scanExponent s3 of None \<Rightarrow> None | Some (e, s4) \<Rightarrow> Some (sign @ i @ f @ e, s4))))"

definition keyword :: "string \<Rightarrow> json \<Rightarrow> string \<Rightarrow> (json \<times> string) option" where
  "keyword name v s = map_option (\<lambda>rest. (v, rest)) (stripPrefix name s)"

section \<open>Values\<close>

text \<open>The first argument is fuel, the second how many more levels may be opened.\<close>

fun parseValue :: "nat \<Rightarrow> nat \<Rightarrow> string \<Rightarrow> (json \<times> string) option"
  and parseElements :: "nat \<Rightarrow> nat \<Rightarrow> string \<Rightarrow> (json list \<times> string) option"
  and parseMembers :: "nat \<Rightarrow> nat \<Rightarrow> string \<Rightarrow> ((string \<times> json) list \<times> string) option" where
  "parseValue 0 d s = None"
| "parseValue (Suc n) d s =
     (case dropWhile isSpace s of
        [] \<Rightarrow> None
      | c # t \<Rightarrow>
          if c = CHR ''{'' then
            (case d of
               0 \<Rightarrow> None
             | Suc d' \<Rightarrow>
                 (case dropWhile isSpace t of
                    [] \<Rightarrow> None
                  | e # u \<Rightarrow>
                      if e = CHR ''}'' then Some (JsonObject [], u)
                      else map_option (\<lambda>(ms, r). (JsonObject ms, r)) (parseMembers n d' t)))
          else if c = CHR ''['' then
            (case d of
               0 \<Rightarrow> None
             | Suc d' \<Rightarrow>
                 (case dropWhile isSpace t of
                    [] \<Rightarrow> None
                  | e # u \<Rightarrow>
                      if e = CHR '']'' then Some (JsonArray [], u)
                      else map_option (\<lambda>(vs, r). (JsonArray vs, r)) (parseElements n d' t)))
          else if of_char c = (34 :: nat) then map_option (\<lambda>(raw, r). (JsonString raw, r)) (scanString t)
          else if c = CHR ''t'' then keyword ''true'' (JsonBool True) (c # t)
          else if c = CHR ''f'' then keyword ''false'' (JsonBool False) (c # t)
          else if c = CHR ''n'' then keyword ''null'' JsonNull (c # t)
          else map_option (\<lambda>(lit, r). (JsonNumber lit, r)) (scanNumber (c # t)))"
| "parseElements 0 d s = None"
| "parseElements (Suc n) d s =
     (case parseValue n d s of
        None \<Rightarrow> None
      | Some (v, r) \<Rightarrow>
          (case dropWhile isSpace r of
             [] \<Rightarrow> None
           | c # t \<Rightarrow>
               if c = CHR '','' then map_option (\<lambda>(vs, r'). (v # vs, r')) (parseElements n d t)
               else if c = CHR '']'' then Some ([v], t) else None))"
| "parseMembers 0 d s = None"
| "parseMembers (Suc n) d s =
     (case dropWhile isSpace s of
        [] \<Rightarrow> None
      | q # t \<Rightarrow>
          if of_char q \<noteq> (34 :: nat) then None
          else
            (case scanString t of
               None \<Rightarrow> None
             | Some (raw, r) \<Rightarrow>
                 (case dropWhile isSpace r of
                    [] \<Rightarrow> None
                  | c # u \<Rightarrow>
                      if c \<noteq> CHR '':'' then None
                      else
                        (case parseValue n d u of
                           None \<Rightarrow> None
                         | Some (v, r1) \<Rightarrow>
                             (case dropWhile isSpace r1 of
                                [] \<Rightarrow> None
                              | e # x \<Rightarrow>
                                  if e = CHR '','' then map_option (\<lambda>(ms, r2). ((unquote raw, v) # ms, r2)) (parseMembers n d x)
                                  else if e = CHR ''}'' then Some ([(unquote raw, v)], x) else None)))))"

definition maxNestingDepth :: nat where "maxNestingDepth = 10000"

definition parseJson :: "string \<Rightarrow> (json \<times> string) option" where
  "parseJson s = parseValue (2 * length s + 2) maxNestingDepth s"

section \<open>Decoding\<close>

text \<open>\<^verbatim>\<open>json.NewDecoder(body).Decode(...)\<close> takes the first value of the stream and ignores what follows. An object or an
  array is complete at its last bracket; any other value only at the next byte or at the end of the input, not when
  reading fails there.\<close>

definition decodeFirst :: "httpBody \<Rightarrow> json option" where
  "decodeFirst body =
     (case body of
        NoBody \<Rightarrow> None
      | Body b err \<Rightarrow>
          (case parseJson b of
             None \<Rightarrow> None
           | Some (v, rest) \<Rightarrow>
               if rest = [] \<and> err \<noteq> None \<and> (case v of JsonObject _ \<Rightarrow> False | JsonArray _ \<Rightarrow> False | _ \<Rightarrow> True)
               then None else Some v))"

text \<open>\<^verbatim>\<open>json.Unmarshal\<close>: one value and nothing but white space after it.\<close>

definition unmarshalJson :: "string \<Rightarrow> json option" where
  "unmarshalJson s =
     (case parseJson s of Some (v, rest) \<Rightarrow> if dropWhile isSpace rest = [] then Some v else None | None \<Rightarrow> None)"

text \<open>A key names a field up to case; the letters that fold to ASCII ones are the long s and the Kelvin sign.\<close>

fun foldName :: "string \<Rightarrow> string" where
  "foldName [] = []"
| "foldName (c # s) =
     (if of_char c = (197 :: nat) \<and> s \<noteq> [] \<and> of_char (hd s) = (191 :: nat) then CHR ''S'' # foldName (tl s)
      else if of_char c = (226 :: nat) \<and> take 2 s = map char_of [132, 170 :: nat] then CHR ''K'' # foldName (drop 2 s)
      else (if isLowerAZ c then char_of (of_char c - (32 :: nat)) else c) # foldName s)"

definition nameMatches :: "string \<Rightarrow> string \<Rightarrow> bool" where
  "nameMatches field key \<longleftrightarrow> key = field \<or> foldName key = foldName field"

text \<open>Storing a value into an \<^verbatim>\<open>int64\<close> field: null leaves it as it is, anything but an integer literal that fits is an
  error, here \<open>None\<close>.\<close>

definition storeInt :: "json \<Rightarrow> int \<Rightarrow> int option" where
  "storeInt v old =
     (case v of
        JsonNull \<Rightarrow> Some old
      | JsonNumber lit \<Rightarrow> (case ParseInt lit of Inr n \<Rightarrow> Some n | Inl _ \<Rightarrow> None)
      | _ \<Rightarrow> None)"

section \<open>The fuel is enough\<close>

lemma space_Cons: "dropWhile isSpace s = c # t \<Longrightarrow> length t < length s"
  using length_dropWhile_le [of isSpace s] by simp

lemma stripPrefix_length: "stripPrefix p s = Some r \<Longrightarrow> length r + length p = length s"
  by (induction p s rule: stripPrefix.induct) (auto split: if_splits)

lemma scanString_length: "scanString s = Some (raw, r) \<Longrightarrow> length r < length s"
proof (induction s arbitrary: raw r rule: scanString.induct)
  case (2 c s)
  then show ?case
    by (auto simp: Let_def split: if_splits list.splits) fastforce+
qed simp

lemma scanDigits_length: "scanDigits s = Some (ds, r) \<Longrightarrow> length r < length s"
  by (cases s) (auto simp: scanDigits_def less_Suc_eq_le length_dropWhile_le split: if_splits)

lemma scanNumber_length: "scanNumber s = Some (lit, r) \<Longrightarrow> length r < length s"
proof -
  assume a: "scanNumber s = Some (lit, r)"
  obtain sign s1 where s1: "(case s of c # t \<Rightarrow> if c = CHR ''-'' then (''-'', t) else ([], s) | [] \<Rightarrow> ([], s)) = (sign, s1)"
    by fastforce
  then have l1: "length s1 \<le> length s" by (auto split: list.splits if_splits)
  from a s1 obtain i s2 f s3 e where
    st: "scanInteger s1 = Some (i, s2)" "scanFraction s2 = Some (f, s3)" "scanExponent s3 = Some (e, r)"
    by (auto simp: scanNumber_def Let_def split: option.splits prod.splits)
  have "length s2 < length s1" using st(1) by (auto simp: scanInteger_def dest: scanDigits_length split: list.splits if_splits)
  moreover have "length s3 \<le> length s2"
    using st(2) by (auto simp: scanFraction_def dest!: scanDigits_length split: list.splits if_splits)
  moreover have "length r \<le> length s3"
    using st(3) by (auto simp: scanExponent_def dest!: scanDigits_length split: list.splits if_splits)
  ultimately show ?thesis using l1 by linarith
qed

lemma keyword_length: "name \<noteq> [] \<Longrightarrow> keyword name v s = Some (w, r) \<Longrightarrow> length r < length s"
  by (cases name) (auto simp: keyword_def dest: stripPrefix_length)

text \<open>What a value of each form is made of.\<close>

lemma parseValue_Some:
  assumes "parseValue (Suc n) d s = Some (v, r)"
  obtains c t where "dropWhile isSpace s = c # t"
    and "length r < length (c # t) \<or> (\<exists>d' ms. parseMembers n d' t = Some (ms, r)) \<or> (\<exists>d' vs. parseElements n d' t = Some (vs, r))"
proof -
  from assms obtain c t where ct: "dropWhile isSpace s = c # t" by (cases "dropWhile isSpace s") auto
  have "length r < length (c # t) \<or> (\<exists>d' ms. parseMembers n d' t = Some (ms, r)) \<or> (\<exists>d' vs. parseElements n d' t = Some (vs, r))"
  proof (cases "c = CHR ''{'' \<or> c = CHR ''[''")
    case True
    with assms ct show ?thesis
      by (auto split: nat.splits list.splits if_splits dest: space_Cons)
  next
    case False
    have "length r < length (c # t)"
    proof (cases "of_char c = (34 :: nat)")
      case True
      with assms ct False show ?thesis by (auto dest: scanString_length)
    next
      case nq: False
      show ?thesis
      proof (cases "c = CHR ''t'' \<or> c = CHR ''f'' \<or> c = CHR ''n''")
        case True
        with assms ct False nq show ?thesis by (auto dest!: keyword_length [rotated])
      next
        case False
        with assms ct \<open>\<not> (c = CHR ''{'' \<or> c = CHR ''['')\<close> nq show ?thesis by (auto dest: scanNumber_length)
      qed
    qed
    then show ?thesis ..
  qed
  with ct that show thesis by blast
qed

lemma parse_length:
  "(\<forall>d s v r. parseValue n d s = Some (v, r) \<longrightarrow> length r < length s) \<and>
   (\<forall>d s vs r. parseElements n d s = Some (vs, r) \<longrightarrow> length r < length s) \<and>
   (\<forall>d s ms r. parseMembers n d s = Some (ms, r) \<longrightarrow> length r < length s)"
proof (induction n)
  case (Suc n)
  then have V: "\<And>d s v r. parseValue n d s = Some (v, r) \<Longrightarrow> length r < length s"
    and E: "\<And>d s vs r. parseElements n d s = Some (vs, r) \<Longrightarrow> length r < length s"
    and M: "\<And>d s ms r. parseMembers n d s = Some (ms, r) \<Longrightarrow> length r < length s"
    by blast+
  have "length r < length s" if "parseValue (Suc n) d s = Some (v, r)" for d s v r
    using that
  proof (rule parseValue_Some)
    fix c t assume "dropWhile isSpace s = c # t"
      and "length r < length (c # t) \<or> (\<exists>d' ms. parseMembers n d' t = Some (ms, r)) \<or> (\<exists>d' vs. parseElements n d' t = Some (vs, r))"
    with M E have "length r < length (c # t)" by fastforce
    also have "\<dots> \<le> length s" using length_dropWhile_le [of isSpace s] \<open>dropWhile isSpace s = c # t\<close> by simp
    finally show ?thesis .
  qed
  moreover have "length r < length s" if "parseElements (Suc n) d s = Some (vs, r)" for d s vs r
  proof -
    from that obtain v r1 c t where st: "parseValue n d s = Some (v, r1)" "dropWhile isSpace r1 = c # t"
        "r = t \<or> (\<exists>vs'. parseElements n d t = Some (vs', r))"
      by (auto split: option.splits list.splits if_splits)
    have "length t < length s" using V [OF st(1)] space_Cons [OF st(2)] by linarith
    moreover have "length r \<le> length t" using st(3) E less_imp_le by blast
    ultimately show ?thesis by linarith
  qed
  moreover have "length r < length s" if "parseMembers (Suc n) d s = Some (ms, r)" for d s ms r
  proof -
    from that obtain q t raw r0 c u v r1 e x where st: "dropWhile isSpace s = q # t" "scanString t = Some (raw, r0)"
        "dropWhile isSpace r0 = c # u" "parseValue n d u = Some (v, r1)" "dropWhile isSpace r1 = e # x"
        "r = x \<or> (\<exists>ms'. parseMembers n d x = Some (ms', r))"
      by (auto split: option.splits list.splits if_splits)
    have "length x < length s"
      using V [OF st(4)] space_Cons [OF st(1)] scanString_length [OF st(2)] space_Cons [OF st(3)] space_Cons [OF st(5)] by linarith
    moreover have "length r \<le> length x" using st(6) M less_imp_le by blast
    ultimately show ?thesis by linarith
  qed
  ultimately show ?case by blast
qed simp

lemma parse_fuel:
  "(\<forall>d s. 2 * length s + 1 \<le> n \<longrightarrow> parseValue (Suc n) d s = parseValue n d s) \<and>
   (\<forall>d s. 2 * length s + 2 \<le> n \<longrightarrow> parseElements (Suc n) d s = parseElements n d s) \<and>
   (\<forall>d s. 2 * length s + 1 \<le> n \<longrightarrow> parseMembers (Suc n) d s = parseMembers n d s)"
proof (induction n)
  case (Suc n)
  then have V: "\<And>d s. 2 * length s + 1 \<le> n \<Longrightarrow> parseValue (Suc n) d s = parseValue n d s"
    and E: "\<And>d s. 2 * length s + 2 \<le> n \<Longrightarrow> parseElements (Suc n) d s = parseElements n d s"
    and M: "\<And>d s. 2 * length s + 1 \<le> n \<Longrightarrow> parseMembers (Suc n) d s = parseMembers n d s"
    by blast+
  have "parseValue (Suc (Suc n)) d s = parseValue (Suc n) d s" if "2 * length s + 1 \<le> Suc n" for d s
  proof (cases "dropWhile isSpace s")
    case (Cons c t)
    have "length t < length s" by (rule space_Cons [OF Cons])
    then have "2 * length t + 2 \<le> n" "2 * length t + 1 \<le> n" using that by linarith+
    note M [OF this(2)] E [OF this(1)]
    then show ?thesis by (simp only: parseValue.simps Cons list.case)
  next
    case Nil
    then show ?thesis by (simp only: parseValue.simps list.case)
  qed
  moreover have "parseElements (Suc (Suc n)) d s = parseElements (Suc n) d s" if "2 * length s + 2 \<le> Suc n" for d s
  proof -
    have v: "parseValue (Suc n) d s = parseValue n d s" using that by (intro V) simp
    show ?thesis
    proof (cases "parseValue n d s")
      case (Some p)
      obtain w r where p: "p = (w, r)" by fastforce
      have "length r < length s" using parse_length [of n] Some p by blast
      note step = parseElements.simps(2) v Some p option.case prod.case list.case
      show ?thesis
      proof (cases "dropWhile isSpace r")
        case (Cons c t)
        have "2 * length t + 2 \<le> n" using space_Cons [OF Cons] \<open>length r < length s\<close> that by linarith
        from E [OF this] show ?thesis by (simp only: step Cons)
      next
        case Nil
        then show ?thesis by (simp only: step)
      qed
    next
      case None
      then show ?thesis by (simp only: parseElements.simps(2) v option.case)
    qed
  qed
  moreover have "parseMembers (Suc (Suc n)) d s = parseMembers (Suc n) d s" if "2 * length s + 1 \<le> Suc n" for d s
  proof -
    have v: "parseValue (Suc n) d u = parseValue n d u"
      if "dropWhile isSpace s = q # t" "scanString t = Some (raw, r)" "dropWhile isSpace r = c # u" for q t raw r c u
      using space_Cons [OF that(1)] scanString_length [OF that(2)] space_Cons [OF that(3)] \<open>2 * length s + 1 \<le> Suc n\<close>
      by (intro V) linarith
    have m: "parseMembers (Suc n) d x = parseMembers n d x"
      if "dropWhile isSpace s = q # t" "scanString t = Some (raw, r)" "dropWhile isSpace r = c # u"
        "parseValue n d u = Some (w, r1)" "dropWhile isSpace r1 = e # x" for q t raw r c u w r1 e x
    proof -
      have "length r1 < length u" using parse_length [of n] that(4) by blast
      then show ?thesis
        using space_Cons [OF that(1)] scanString_length [OF that(2)] space_Cons [OF that(3)] space_Cons [OF that(5)]
          \<open>2 * length s + 1 \<le> Suc n\<close> by (intro M) linarith
    qed
    show ?thesis
      by (subst (1 2) parseMembers.simps(2)) (simp only: v m cong: list.case_cong option.case_cong prod.case_cong if_cong)
  qed
  ultimately show ?case by blast
qed simp

text \<open>With more fuel than \<open>parseJson\<close> uses nothing changes.\<close>

lemma parseJson_fuel: "2 * length s + 2 \<le> n \<Longrightarrow> parseValue n maxNestingDepth s = parseJson s"
proof (induction n)
  case (Suc n)
  show ?case
  proof (cases "2 * length s + 2 \<le> n")
    case True
    then have "parseValue (Suc n) maxNestingDepth s = parseValue n maxNestingDepth s" using parse_fuel [of n] by simp
    then show ?thesis using Suc.IH [OF True] by (simp only:)
  next
    case False
    then have "Suc n = 2 * length s + 2" using Suc.prems by simp
    then show ?thesis by (simp only: parseJson_def)
  qed
qed simp

end
