(* ===== verification/Devicetrust_Redis.thy ===== *)
theory Devicetrust_Redis
  imports Devicetrust Json Redis_Ref Ledger
begin

text \<open>
  The Redis store of package \<^verbatim>\<open>devicetrust\<close> (\<^verbatim>\<open>redis.go\<close>): one string key per account and device holding the record as
  JSON. Times are written in the local zone, \<open>zone t\<close> seconds east of UTC at the instant \<open>t\<close>, and read back as instants.
\<close>

section \<open>Times in JSON\<close>

text \<open>\<^verbatim>\<open>Time.MarshalJSON\<close> without its quotes: a year of four digits and a zone below 24 hours, or an error.\<close>

definition zoneSuffix :: "int \<Rightarrow> string" where
  "zoneSuffix off =
     (if off = 0 then ''Z''
      else let m = \<bar>off\<bar> div 60 in (if off \<le> - 60 then ''-'' else ''+'') @ pad2 (m div 60) @ '':'' @ pad2 (m mod 60))"

definition marshalTime :: "(time \<Rightarrow> int) \<Rightarrow> time \<Rightarrow> go_error + string" where
  "marshalTime zone t =
     (let off = zone t; local = t + off * 1000000000; secs = local div 1000000000; s = secs mod 86400 in
      case civilDate (secs div 86400) of (y, m, d) \<Rightarrow>
        if y < 0 \<or> 9999 < y then Inl (Errorf ''Time.MarshalJSON: year outside of range [0,9999]'')
        else if 86400 \<le> \<bar>off\<bar> then Inl (Errorf ''Time.MarshalJSON: timezone hour outside of range [0,23]'')
        else Inr (formatYear y @ ''-'' @ pad2 m @ ''-'' @ pad2 d @ ''T'' @ pad2 (s div 3600) @ '':'' @ pad2 (s div 60 mod 60) @
               '':'' @ pad2 (s mod 60) @ fmtFrac (nat (local mod 1000000000)) 9 @ zoneSuffix off))"

text \<open>Reading such a text. A number field has a fixed width and a range.\<close>

definition readField :: "nat \<Rightarrow> nat \<Rightarrow> nat \<Rightarrow> string \<Rightarrow> (nat \<times> string) option" where
  "readField width lo hi s =
     (let ds = take width s; v = readDigits 0 ds in
      if length ds = width \<and> list_all isDigit ds \<and> lo \<le> v \<and> v \<le> hi then Some (v, drop width s) else None)"

definition expect :: "char \<Rightarrow> string \<Rightarrow> string option" where
  "expect c s = (case s of x # t \<Rightarrow> if x = c then Some t else None | [] \<Rightarrow> None)"

definition leapYear :: "int \<Rightarrow> bool" where
  "leapYear y \<longleftrightarrow> y mod 4 = 0 \<and> (y mod 100 \<noteq> 0 \<or> y mod 400 = 0)"

definition daysIn :: "int \<Rightarrow> int \<Rightarrow> int" where
  "daysIn m y = (if m = 2 then if leapYear y then 29 else 28 else if m \<in> {4, 6, 9, 11} then 30 else 31)"

text \<open>The day number of a civil date.\<close>

definition civilDays :: "int \<Rightarrow> int \<Rightarrow> int \<Rightarrow> int" where
  "civilDays y m d =
     (let y' = (if m \<le> 2 then y - 1 else y); era = y' div 400; yoe = y' mod 400;
          mp = (if m \<le> 2 then m + 9 else m - 3); doy = (153 * mp + 2) div 5 + d - 1;
          doe = 365 * yoe + yoe div 4 - yoe div 100 + doy
      in era * 146097 + doe - 719468)"

text \<open>The fraction of a second: the first nine digits count.\<close>

definition readFraction :: "string \<Rightarrow> int \<times> string" where
  "readFraction s =
     (case s of
        c # t \<Rightarrow>
          if c = CHR ''.'' \<and> t \<noteq> [] \<and> isDigit (hd t) then
            (let ds = take 9 (takeWhile isDigit t)
             in (int (readDigits 0 ds) * 10 ^ (9 - length ds), dropWhile isDigit t))
          else (0, s)
      | [] \<Rightarrow> (0, []))"

definition readZone :: "string \<Rightarrow> int option" where
  "readZone s =
     (if s = ''Z'' then Some 0
      else if length s = 6 \<and> (hd s = CHR ''+'' \<or> hd s = CHR ''-'') then
        Option.bind (readField 2 0 23 (tl s)) (\<lambda>(h, s1).
        Option.bind (expect (CHR '':'') s1) (\<lambda>s2.
        Option.bind (readField 2 0 59 s2) (\<lambda>(m, _).
          Some ((if hd s = CHR ''-'' then - 1 else 1) * (int h * 3600 + int m * 60)))))
      else None)"

definition parseTime :: "string \<Rightarrow> time option" where
  "parseTime s =
     Option.bind (readField 4 0 9999 s) (\<lambda>(y, s1).
     Option.bind (expect (CHR ''-'') s1) (\<lambda>s2.
     Option.bind (readField 2 1 12 s2) (\<lambda>(mo, s3).
     Option.bind (expect (CHR ''-'') s3) (\<lambda>s4.
     Option.bind (readField 2 1 (nat (daysIn (int mo) (int y))) s4) (\<lambda>(d, s5).
     Option.bind (expect (CHR ''T'') s5) (\<lambda>s6.
     Option.bind (readField 2 0 23 s6) (\<lambda>(h, s7).
     Option.bind (expect (CHR '':'') s7) (\<lambda>s8.
     Option.bind (readField 2 0 59 s8) (\<lambda>(mi, s9).
     Option.bind (expect (CHR '':'') s9) (\<lambda>s10.
     Option.bind (readField 2 0 59 s10) (\<lambda>(sec, s11).
       case readFraction s11 of (nsec, s12) \<Rightarrow>
         map_option (\<lambda>off. (civilDays (int y) (int mo) (int d) * 86400 + int h * 3600 + int mi * 60 + int sec - off) * 1000000000 + nsec)
           (readZone s12))))))))))))"

section \<open>Records in JSON\<close>

definition quoted :: "string \<Rightarrow> string" where
  "quoted s = [char_of (34 :: nat)] @ s @ [char_of (34 :: nat)]"

definition marshalRecord :: "(time \<Rightarrow> int) \<Rightarrow> DeviceRecord \<Rightarrow> go_error + string" where
  "marshalRecord zone rec =
     (case marshalTime zone (dr_FirstSeen rec) of
        Inl e \<Rightarrow> Inl e
      | Inr first \<Rightarrow>
          (case marshalTime zone (dr_LastSeen rec) of
             Inl e \<Rightarrow> Inl e
           | Inr last_seen \<Rightarrow>
               Inr (''{'' @ quoted ''Fingerprint'' @ '':'' @ quoted (jsonEscape (dr_Fingerprint rec)) @ '','' @
                    quoted ''Trusted'' @ '':'' @ (if dr_Trusted rec then ''true'' else ''false'') @ '','' @
                    quoted ''FirstSeen'' @ '':'' @ quoted first @ '','' @
                    quoted ''LastSeen'' @ '':'' @ quoted last_seen @ ''}'')))"

definition zeroTime :: time where
  "zeroTime = - 62135596800000000000"

definition zeroRecord :: DeviceRecord where
  "zeroRecord = \<lparr>dr_Fingerprint = [], dr_Trusted = False, dr_FirstSeen = zeroTime, dr_LastSeen = zeroTime\<rparr>"

text \<open>The field a key names: an exact match first, then one up to case.\<close>

definition fieldFor :: "string list \<Rightarrow> string \<Rightarrow> string option" where
  "fieldFor names key = (if key \<in> set names then Some key else List.find (\<lambda>n. foldName n = foldName key) names)"

definition storeTime :: "json \<Rightarrow> time \<Rightarrow> time option" where
  "storeTime v old = (case v of JsonNull \<Rightarrow> Some old | JsonString raw \<Rightarrow> parseTime raw | _ \<Rightarrow> None)"

definition storeField :: "string \<times> json \<Rightarrow> DeviceRecord \<Rightarrow> DeviceRecord option" where
  "storeField kv rec =
     (case fieldFor [''Fingerprint'', ''Trusted'', ''FirstSeen'', ''LastSeen''] (fst kv) of
        None \<Rightarrow> Some rec
      | Some f \<Rightarrow>
          if f = ''Fingerprint'' then
            (case snd kv of JsonNull \<Rightarrow> Some rec | JsonString raw \<Rightarrow> Some (rec\<lparr>dr_Fingerprint := unquote raw\<rparr>) | _ \<Rightarrow> None)
          else if f = ''Trusted'' then
            (case snd kv of JsonNull \<Rightarrow> Some rec | JsonBool b \<Rightarrow> Some (rec\<lparr>dr_Trusted := b\<rparr>) | _ \<Rightarrow> None)
          else if f = ''FirstSeen'' then map_option (\<lambda>t. rec\<lparr>dr_FirstSeen := t\<rparr>) (storeTime (snd kv) (dr_FirstSeen rec))
          else map_option (\<lambda>t. rec\<lparr>dr_LastSeen := t\<rparr>) (storeTime (snd kv) (dr_LastSeen rec)))"

fun storeFields :: "(string \<times> json) list \<Rightarrow> DeviceRecord \<Rightarrow> DeviceRecord option" where
  "storeFields [] rec = Some rec"
| "storeFields (kv # kvs) rec = Option.bind (storeField kv rec) (storeFields kvs)"

definition unmarshalRecord :: "string \<Rightarrow> DeviceRecord option" where
  "unmarshalRecord s =
     (case unmarshalJson s of
        None \<Rightarrow> None
      | Some JsonNull \<Rightarrow> Some zeroRecord
      | Some (JsonObject ms) \<Rightarrow> storeFields ms zeroRecord
      | Some _ \<Rightarrow> None)"

section \<open>The store\<close>

record deviceRedis =
  dvr_prefix :: string

definition devicetrust_NewRedisStore :: "string \<Rightarrow> deviceRedis" where
  "devicetrust_NewRedisStore keyPrefix =
     \<lparr>dvr_prefix = (if keyPrefix = [] then ''floodguard:devicetrust'' else keyPrefix)\<rparr>"

definition device_key :: "deviceRedis \<Rightarrow> string \<Rightarrow> string \<Rightarrow> string" where
  "device_key s accountID fingerprint = dvr_prefix s @ '':'' @ accountID @ '':'' @ fingerprint"

text \<open>The argument \<open>t\<close> is the clock of the server. The reply of \<^verbatim>\<open>GET\<close> for a missing key is the error \<^verbatim>\<open>redis.Nil\<close>, which
  means that nothing was found.\<close>

definition device_redis_Get :: "'r redis \<Rightarrow> deviceRedis \<Rightarrow> int \<Rightarrow> ctx \<Rightarrow> string \<Rightarrow> string \<Rightarrow> 'r \<Rightarrow>
    (go_error + DeviceRecord option) \<times> 'r" where
  "device_redis_Get R s t c accountID fingerprint r =
     (case rd_call R c (\<lambda>q. (case rd_GET R t (device_key s accountID fingerprint) q of None \<Rightarrow> RNil | Some v \<Rightarrow> RBulk v, q)) r of
        (Inl e, r') \<Rightarrow> (Inl e, r')
      | (Inr (RBulk val), r') \<Rightarrow>
          (case unmarshalRecord val of
             None \<Rightarrow> (Inl (Errorf ''json: cannot unmarshal''), r')
           | Some rec \<Rightarrow> (Inr (Some rec), r'))
      | (Inr _, r') \<Rightarrow> (Inr None, r'))"

definition device_redis_save :: "'r redis \<Rightarrow> deviceRedis \<Rightarrow> (time \<Rightarrow> int) \<Rightarrow> int \<Rightarrow> ctx \<Rightarrow> string \<Rightarrow> string \<Rightarrow> DeviceRecord \<Rightarrow> 'r \<Rightarrow>
    go_error option \<times> 'r" where
  "device_redis_save R s zone t c accountID fingerprint rec r =
     (case marshalRecord zone rec of
        Inl e \<Rightarrow> (Some e, r)
      | Inr b \<Rightarrow>
          (case rd_call R c (\<lambda>q. (RNil, rd_SET R t (device_key s accountID fingerprint) b q)) r of
             (Inl e, r') \<Rightarrow> (Some e, r')
           | (Inr _, r') \<Rightarrow> (None, r')))"

definition device_redis_UpsertSeen :: "'r redis \<Rightarrow> deviceRedis \<Rightarrow> (time \<Rightarrow> int) \<Rightarrow> int \<Rightarrow> ctx \<Rightarrow> string \<Rightarrow> string \<Rightarrow> time \<Rightarrow> 'r \<Rightarrow>
    go_error option \<times> 'r" where
  "device_redis_UpsertSeen R s zone t c accountID fingerprint ts r =
     (case device_redis_Get R s t c accountID fingerprint r of
        (Inl e, r') \<Rightarrow> (Some e, r')
      | (Inr old, r') \<Rightarrow> device_redis_save R s zone t c accountID fingerprint (seenRecord fingerprint ts old) r')"

definition device_redis_MarkTrusted :: "'r redis \<Rightarrow> deviceRedis \<Rightarrow> (time \<Rightarrow> int) \<Rightarrow> int \<Rightarrow> ctx \<Rightarrow> string \<Rightarrow> string \<Rightarrow> time \<Rightarrow> 'r \<Rightarrow>
    go_error option \<times> 'r" where
  "device_redis_MarkTrusted R s zone t c accountID fingerprint ts r =
     (case device_redis_Get R s t c accountID fingerprint r of
        (Inl e, r') \<Rightarrow> (Some e, r')
      | (Inr old, r') \<Rightarrow>
          device_redis_save R s zone t c accountID fingerprint ((seenRecord fingerprint ts old)\<lparr>dr_Trusted := True\<rparr>) r')"

definition device_redis_Store :: "'r redis \<Rightarrow> deviceRedis \<Rightarrow> (time \<Rightarrow> int) \<Rightarrow> int \<Rightarrow> 'r deviceStore" where
  "device_redis_Store R s zone t =
     \<lparr>ds_Get = device_redis_Get R s t, ds_UpsertSeen = device_redis_UpsertSeen R s zone t,
      ds_MarkTrusted = device_redis_MarkTrusted R s zone t\<rparr>"

end
