(* ===== verification/Anomaly.thy ===== *)
theory Anomaly
  imports Float64 Redis_Ref
begin

text \<open>
  Package \<^verbatim>\<open>anomaly\<close>: minute counters in memory (\<^verbatim>\<open>memory.go\<close>) and in Redis (\<^verbatim>\<open>redis.go\<close>) and the spike detector
  (\<^verbatim>\<open>anomaly.go\<close>). The locale \<open>minute_counter\<close> is the contract of a \<^verbatim>\<open>Counter\<close>: what a window holds after increments.
  The in-memory counter keeps it, so the detector compares exactly the events of the current minute with those of
  the minutes before. The Redis counter does not: it selects minutes by their counts.
\<close>

section \<open>Counters\<close>

definition anomaly_ErrKeyRequired :: go_error where
  "anomaly_ErrKeyRequired = Sentinel ''anomaly: metric name is required''"

definition MetricWithdrawalAttempts :: string where
  "MetricWithdrawalAttempts = ''withdrawal_attempts''"

text \<open>\<^verbatim>\<open>Increment(ctx, metric, at, delta)\<close> and \<^verbatim>\<open>CountInWindow(ctx, metric, from, to)\<close>. The clock reading is the one of
  the server behind the counter, if there is one.\<close>

record 'w counter =
  ctr_Increment :: "ctx \<Rightarrow> time \<Rightarrow> string \<Rightarrow> time \<Rightarrow> int \<Rightarrow> 'w \<Rightarrow> go_error option \<times> 'w"
  ctr_CountInWindow :: "ctx \<Rightarrow> time \<Rightarrow> string \<Rightarrow> time \<Rightarrow> time \<Rightarrow> 'w \<Rightarrow> (go_error + int) \<times> 'w"

definition minuteKey :: "string \<Rightarrow> time \<Rightarrow> string" where
  "minuteKey metric t = metric @ '':'' @ FormatInt (quot (time_Unix t) 60)"

subsection \<open>In memory\<close>

record memoryCounter =
  buckets :: "string \<rightharpoonup> int"

definition anomaly_NewMemoryCounter :: memoryCounter where
  "anomaly_NewMemoryCounter = \<lparr>buckets = Map.empty\<rparr>"

text \<open>Reading a Go map: a missing key reads as zero.\<close>

definition bucket :: "memoryCounter \<Rightarrow> string \<Rightarrow> int" where
  "bucket s k = (case buckets s k of None \<Rightarrow> 0 | Some n \<Rightarrow> n)"

definition anomaly_memory_Increment :: "ctx \<Rightarrow> time \<Rightarrow> string \<Rightarrow> time \<Rightarrow> int \<Rightarrow> memoryCounter \<Rightarrow> go_error option \<times> memoryCounter" where
  "anomaly_memory_Increment c now metric ts delta s =
     (let key = minuteKey metric (time_Truncate ts minute)
      in (None, s\<lparr>buckets := (buckets s)(key \<mapsto> i64 (bucket s key + delta))\<rparr>))"

text \<open>The loop of \<^verbatim>\<open>CountInWindow\<close>.\<close>

function countLoop :: "memoryCounter \<Rightarrow> string \<Rightarrow> time \<Rightarrow> time \<Rightarrow> int \<Rightarrow> int" where
  "countLoop s metric t until tot =
     (if time_Before t until
      then countLoop s metric (time_Add t minute) until (i64 (tot + bucket s (minuteKey metric t)))
      else tot)"
  by pat_completeness auto
termination
  by (relation "measure (\<lambda>(s, metric, t, until, tot). nat (until - t))")
    (auto simp: time_Before_def time_Add_def minute_def)

declare countLoop.simps [simp del]

definition anomaly_memory_CountInWindow :: "ctx \<Rightarrow> time \<Rightarrow> string \<Rightarrow> time \<Rightarrow> time \<Rightarrow> memoryCounter \<Rightarrow> (go_error + int) \<times> memoryCounter" where
  "anomaly_memory_CountInWindow c now metric start until s =
     (Inr (countLoop s metric (time_Truncate start minute) until 0), s)"

definition anomaly_memory_Counter :: "memoryCounter counter" where
  "anomaly_memory_Counter =
     \<lparr>ctr_Increment = anomaly_memory_Increment, ctr_CountInWindow = anomaly_memory_CountInWindow\<rparr>"

subsection \<open>In Redis\<close>

text \<open>A sorted set per metric: the members are minute numbers, the scores their counts. A count is a \<^verbatim>\<open>float64\<close> on the
  server; counts below \<open>2 ^ 53\<close> are exact, so the model keeps them as integers.\<close>

record redisCounter =
  rc_prefix :: string

definition NewRedisCounter :: "string \<Rightarrow> redisCounter" where
  "NewRedisCounter prefix = \<lparr>rc_prefix = (if prefix = [] then ''anomaly'' else prefix)\<rparr>"

definition anomaly_redisKey :: "redisCounter \<Rightarrow> string \<Rightarrow> string" where
  "anomaly_redisKey s metric = rc_prefix s @ '':'' @ metric"

definition minuteOf :: "time \<Rightarrow> int" where
  "minuteOf t = quot (time_Unix (time_Truncate t minute)) 60"

text \<open>\<^verbatim>\<open>Pipeline\<close> sends both commands, not as a transaction; \<^verbatim>\<open>Exec\<close> returns the first error of the commands.\<close>

definition anomaly_redis_Increment :: "'r redis \<Rightarrow> redisCounter \<Rightarrow> ctx \<Rightarrow> time \<Rightarrow> string \<Rightarrow> time \<Rightarrow> int \<Rightarrow> 'r \<Rightarrow> go_error option \<times> 'r" where
  "anomaly_redis_Increment R s c now metric ts delta r =
     (let key = anomaly_redisKey s metric; member = FormatInt (minuteOf ts); t = time_UnixMilli now;
          (res1, r1) = rd_call R c (\<lambda>q. (RNil, rd_ZINCRBY R t key delta member q)) r;
          (res2, r2) = rd_call R c (\<lambda>q. (RNil, rd_PEXPIRE R t key (rd_px R (8 * 24 * hour)) q)) r1
      in (case res1 of Inl e \<Rightarrow> (Some e, r2)
          | Inr _ \<Rightarrow> (case res2 of Inl e \<Rightarrow> (Some e, r2) | Inr _ \<Rightarrow> (None, r2))))"

text \<open>The loop over the members: \<^verbatim>\<open>ZScore\<close> of a missing member is the error \<^verbatim>\<open>redis.Nil\<close>.\<close>

fun sumScores :: "'r redis \<Rightarrow> ctx \<Rightarrow> int \<Rightarrow> string \<Rightarrow> reply list \<Rightarrow> int \<Rightarrow> 'r \<Rightarrow> (go_error + int) \<times> 'r" where
  "sumScores R c t key [] tot r = (Inr tot, r)"
| "sumScores R c t key (m # ms) tot r =
     (let name = (case m of RBulk n \<Rightarrow> n | _ \<Rightarrow> []) in
      (case rd_call R c (\<lambda>q. (case rd_ZSCORE R t key name q of None \<Rightarrow> RNil | Some n \<Rightarrow> RInt n, q)) r of
         (Inl e, r') \<Rightarrow> (Inl e, r')
       | (Inr (RInt n), r') \<Rightarrow> sumScores R c t key ms (i64 (tot + n)) r'
       | (Inr _, r') \<Rightarrow> (Inl (Sentinel ''redis: nil''), r')))"

definition anomaly_redis_CountInWindow :: "'r redis \<Rightarrow> redisCounter \<Rightarrow> ctx \<Rightarrow> time \<Rightarrow> string \<Rightarrow> time \<Rightarrow> time \<Rightarrow> 'r \<Rightarrow> (go_error + int) \<times> 'r" where
  "anomaly_redis_CountInWindow R s c now metric start until r =
     (let key = anomaly_redisKey s metric; t = time_UnixMilli now;
          minFrom = minuteOf start; minTo = minuteOf until - 1 in
      if minTo < minFrom then (Inr 0, r)
      else
        (case rd_call R c (\<lambda>q. (RArr (map RBulk (rd_ZRANGEBYSCORE R t key minFrom minTo q)), q)) r of
           (Inl e, r') \<Rightarrow> (Inl e, r')
         | (Inr rep, r') \<Rightarrow>
             (case rd_asSlice R rep of
                Inl e \<Rightarrow> (Inl e, r')
              | Inr members \<Rightarrow> sumScores R c t key members 0 r')))"

definition anomaly_redis_Counter :: "'r redis \<Rightarrow> redisCounter \<Rightarrow> 'r counter" where
  "anomaly_redis_Counter R s =
     \<lparr>ctr_Increment = anomaly_redis_Increment R s, ctr_CountInWindow = anomaly_redis_CountInWindow R s\<rparr>"

section \<open>The detector\<close>

record 'w detector =
  det_counter :: "'w counter"
  det_multiplier :: float64

text \<open>The first argument is the fresh in-memory counter that replaces a nil one.\<close>

definition anomaly_New :: "'w counter \<Rightarrow> 'w counter option \<Rightarrow> float64 \<Rightarrow> 'w detector" where
  "anomaly_New dflt counter multiplier =
     \<lparr>det_counter = (case counter of None \<Rightarrow> dflt | Some k \<Rightarrow> k),
      det_multiplier = (if float_le multiplier (Fin 0) then Fin 5 else multiplier)\<rparr>"

definition anomaly_Record :: "'w detector \<Rightarrow> ctx \<Rightarrow> time \<Rightarrow> string \<Rightarrow> int \<Rightarrow> 'w \<Rightarrow> go_error option \<times> 'w" where
  "anomaly_Record d c now metric delta w =
     (if metric = [] then (Some anomaly_ErrKeyRequired, w)
      else ctr_Increment (det_counter d) c now metric now delta w)"

record spikeResult =
  sp_spike :: bool
  sp_current :: real
  sp_baseline :: real

definition DetectSpike :: "'w detector \<Rightarrow> ctx \<Rightarrow> time \<Rightarrow> string \<Rightarrow> int \<Rightarrow> 'w \<Rightarrow> (go_error + spikeResult) \<times> 'w" where
  "DetectSpike d c clock metric lookbackMinutes w =
     (if metric = [] then (Inl anomaly_ErrKeyRequired, w)
      else
        let lookback = (if lookbackMinutes < 1 then 60 else lookbackMinutes);
            now = time_Truncate clock minute; currentEnd = time_Add now minute in
        (case ctr_CountInWindow (det_counter d) c clock metric now currentEnd w of
           (Inl e, w1) \<Rightarrow> (Inl e, w1)
         | (Inr currentCount, w1) \<Rightarrow>
             let currentRate = fl64 (of_int currentCount);
                 start = time_Add now (i64 (i64 (- lookback) * minute)) in
             (case ctr_CountInWindow (det_counter d) c clock metric start now w1 of
                (Inl e, w2) \<Rightarrow> (Inl e, w2)
              | (Inr baselineCount, w2) \<Rightarrow>
                  let baselineRate = fl64 (fl64 (of_int baselineCount) / fl64 (of_int lookback)) in
                  if baselineRate \<le> 0
                  then (Inr \<lparr>sp_spike = float_le (det_multiplier d) (Fin currentRate), sp_current = currentRate, sp_baseline = baselineRate\<rparr>, w2)
                  else (Inr \<lparr>sp_spike = float_le (float_mul (Fin baselineRate) (det_multiplier d)) (Fin currentRate),
                             sp_current = currentRate, sp_baseline = baselineRate\<rparr>, w2))))"

text \<open>\<^verbatim>\<open>CheckAndAlert\<close> returns the calls it makes to the hook, none or one.\<close>

definition CheckAndAlert :: "'w detector \<Rightarrow> ctx \<Rightarrow> time \<Rightarrow> string \<Rightarrow> int \<Rightarrow> bool \<Rightarrow> 'w \<Rightarrow> go_error option \<times> (string \<times> real \<times> real) list \<times> 'w" where
  "CheckAndAlert d c now metric lookback hasHook w =
     (case DetectSpike d c now metric lookback w of
        (Inl e, w') \<Rightarrow> (Some e, [], w')
      | (Inr r, w') \<Rightarrow> (None, if sp_spike r \<and> hasHook then [(metric, sp_current r, sp_baseline r)] else [], w'))"

section \<open>The contract of a counter\<close>

lemma Truncate_minute: "time_Truncate t minute = (t div minute) * minute"
  by (simp add: time_Truncate_def minute_def minus_mod_eq_div_mult)

lemma Truncate_mult [simp]: "time_Truncate (a * minute) minute = a * minute"
  by (simp add: time_Truncate_def minute_def)

lemma i64_sum: "i64 (\<Sum>k\<in>A. i64 (f k)) = i64 (\<Sum>k\<in>A. f k)"
proof (induction A rule: infinite_finite_induct)
  case (insert x A)
  have "i64 (f x + (\<Sum>k\<in>A. i64 (f k))) = i64 (f x + i64 (\<Sum>k\<in>A. i64 (f k)))" by simp
  also have "\<dots> = i64 (f x + sum f A)" by (simp only: insert.IH i64_add_right)
  finally show ?case using insert.hyps by simp
qed simp_all

text \<open>The events of a metric between two minutes, from the history of recorded events.\<close>

type_synonym event = "time \<times> string \<times> int"

definition eventSum :: "string \<Rightarrow> int \<Rightarrow> int \<Rightarrow> event list \<Rightarrow> int" where
  "eventSum metric a b es =
     (\<Sum>(t, m, d) \<leftarrow> es. if m = metric \<and> a \<le> t div minute \<and> t div minute < b then d else 0)"

fun recordAll :: "'w detector \<Rightarrow> ctx \<Rightarrow> event list \<Rightarrow> 'w \<Rightarrow> 'w" where
  "recordAll d c [] w = w"
| "recordAll d c ((t, m, n) # es) w = recordAll d c es (snd (anomaly_Record d c t m n w))"

locale minute_counter =
  fixes C :: "'w counter"
    and inv :: "'w \<Rightarrow> bool"
    and cnt :: "'w \<Rightarrow> string \<Rightarrow> int \<Rightarrow> int"
  assumes cnt_range: "inv w \<Longrightarrow> in_i64 (cnt w m k)"
    and Increment: "inv w \<Longrightarrow> \<exists>w'. ctr_Increment C c now m ts n w = (None, w') \<and> inv w' \<and>
          (\<forall>m' k. cnt w' m' k = i64 (cnt w m' k + (if m' = m \<and> k = ts div minute then n else 0)))"
    and Count: "inv w \<Longrightarrow> a \<le> b \<Longrightarrow>
          \<exists>w'. ctr_CountInWindow C c now m (a * minute) (b * minute) w = (Inr (i64 (\<Sum>k\<in>{a..<b}. cnt w m k)), w') \<and>
            inv w' \<and> cnt w' = cnt w"
begin

definition windowSum :: "'w \<Rightarrow> string \<Rightarrow> int \<Rightarrow> int \<Rightarrow> int" where
  "windowSum w m a b = i64 (\<Sum>k\<in>{a..<b}. cnt w m k)"

lemma window_Increment:
  assumes "inv w"
  obtains w' where "ctr_Increment C c now m ts n w = (None, w')" and "inv w'"
    and "\<And>m' a b. windowSum w' m' a b =
           i64 (windowSum w m' a b + (if m = m' \<and> a \<le> ts div minute \<and> ts div minute < b then n else 0))"
proof -
  obtain w' where w': "ctr_Increment C c now m ts n w = (None, w')" "inv w'"
    and cnt: "\<And>m' k. cnt w' m' k = i64 (cnt w m' k + (if m' = m \<and> k = ts div minute then n else 0))"
    using Increment [OF assms] by metis
  have "windowSum w' m' a b =
      i64 (windowSum w m' a b + (if m = m' \<and> a \<le> ts div minute \<and> ts div minute < b then n else 0))" for m' a b
  proof -
    have "(\<Sum>k\<in>{a..<b}. if m' = m \<and> k = ts div minute then n else 0) =
        (if m = m' \<and> a \<le> ts div minute \<and> ts div minute < b then n else 0)"
      by (cases "m = m'") (auto simp: sum.delta)
    then show ?thesis by (simp add: windowSum_def cnt i64_sum sum.distrib)
  qed
  with w' that show ?thesis by blast
qed

lemma window_recordAll:
  assumes "inv w" and d: "det_counter d = C" and "metric \<noteq> []"
  shows "inv (recordAll d c es w) \<and>
    windowSum (recordAll d c es w) metric a b = i64 (windowSum w metric a b + eventSum metric a b es)"
  using assms(1)
proof (induction es arbitrary: w)
  case Nil
  then show ?case by (simp add: windowSum_def eventSum_def)
next
  case (Cons e es)
  obtain t m n where e: "e = (t, m, n)" by (cases e)
  show ?case
  proof (cases "m = []")
    case True
    with Cons e assms(3) show ?thesis by (simp add: anomaly_Record_def eventSum_def)
  next
    case False
    obtain w' where "ctr_Increment C c t m t n w = (None, w')" and "inv w'"
      and "\<And>m' a b. windowSum w' m' a b =
           i64 (windowSum w m' a b + (if m = m' \<and> a \<le> t div minute \<and> t div minute < b then n else 0))"
      using window_Increment [OF Cons.prems] by metis
    with Cons.IH [of w'] e d False show ?thesis
      by (simp add: anomaly_Record_def eventSum_def add.assoc)
  qed
qed

lemma DetectSpike_windows:
  fixes now :: time
  assumes "inv w" and "det_counter d = C" and "metric \<noteq> []" and "1 \<le> L" and "L \<le> 153722867"
  defines "k \<equiv> now div minute"
  defines "cur \<equiv> windowSum w metric k (k + 1)" and "base \<equiv> windowSum w metric (k - L) k"
  assumes "\<bar>cur\<bar> < 2 ^ 53" and "\<bar>base\<bar> < 2 ^ 53"
  shows "fst (DetectSpike d c now metric L w) =
    Inr \<lparr>sp_spike = (if base \<le> 0 then float_le (det_multiplier d) (Fin cur)
                     else float_le (float_mul (Fin (fl64 (base / L))) (det_multiplier d)) (Fin cur)),
         sp_current = cur, sp_baseline = fl64 (base / L)\<rparr>"
proof -
  have now: "time_Truncate now minute = k * minute"
    by (simp add: Truncate_minute k_def)
  have "in_i64 (- L)" and "in_i64 (- L * minute)" using assms(4,5) by (simp_all add: in_i64_def minute_def)
  then have start: "time_Add (k * minute) (i64 (i64 (- L) * minute)) = (k - L) * minute"
    by (simp add: time_Add_def algebra_simps)
  have stop: "time_Add (k * minute) minute = (k + 1) * minute" by (simp add: time_Add_def algebra_simps)
  obtain w1 where w1: "ctr_CountInWindow C c now metric (k * minute) ((k + 1) * minute) w = (Inr cur, w1)"
      "inv w1" "cnt w1 = cnt w"
    using Count [OF assms(1), of k "k + 1" c now metric] unfolding cur_def windowSum_def by auto
  obtain w2 where w2: "ctr_CountInWindow C c now metric ((k - L) * minute) (k * minute) w1 = (Inr base, w2)"
    using Count [OF w1(2), of "k - L" k c now metric] w1(3) assms(4) unfolding base_def windowSum_def by auto
  have "\<bar>L\<bar> < 2 ^ 53" using assms(4,5) by simp
  then have fl: "fl64 (of_int L) = of_int L" "fl64 (of_int cur) = of_int cur" "fl64 (of_int base) = of_int base"
    using assms(9,10) by simp_all
  have sgn: "(fl64 (real_of_int base / of_int L) \<le> 0) = (base \<le> 0)"
    using assms(4,5) by (intro fl64_quotient_le_0) simp_all
  show ?thesis
    using assms(2,3,4) by (simp add: DetectSpike_def now start stop w1(1) w2 fl sgn Let_def)
qed

end

section \<open>The in-memory counter keeps the contract\<close>

lemma quot_60_minutes: "quot (time_Unix (k * minute)) 60 = k"
proof -
  have "time_Unix (k * minute) = k * 60" by (simp add: time_Unix_def minute_def)
  moreover have "\<bar>k * 60\<bar> div 60 = \<bar>k\<bar>" by (simp add: abs_mult)
  ultimately show ?thesis by (simp add: quot_def sgn_mult abs_sgn mult.commute)
qed

lemma colon_not_FormatInt: "CHR '':'' \<notin> set (FormatInt i)"
  by (simp add: FormatInt_def not_natDigits)

lemma minuteKey_inj: "minuteKey m (k * minute) = minuteKey m' (k' * minute) \<longleftrightarrow> m = m' \<and> k = k'"
  by (simp add: minuteKey_def quot_60_minutes sep_append_inj_right colon_not_FormatInt FormatInt_inj)

lemma countLoop_sum:
  assumes "in_i64 n" and "a \<le> b"
  shows "countLoop s m (a * minute) (b * minute) n = i64 (n + (\<Sum>k\<in>{a..<b}. bucket s (minuteKey m (k * minute))))"
  using assms
proof (induction "nat (b - a)" arbitrary: a n)
  case 0
  then show ?case by (simp add: countLoop.simps time_Before_def)
next
  case (Suc i)
  then have lt: "a < b" and "{a..<b} = insert a {a + 1..<b}" by auto
  moreover have "time_Add (a * minute) minute = (a + 1) * minute" by (simp add: time_Add_def algebra_simps)
  ultimately show ?case
    using Suc.hyps(1) [of "a + 1"] Suc.hyps(2)
    by (subst countLoop.simps) (simp add: time_Before_def minute_def add.assoc)
qed

definition memory_cnt :: "memoryCounter \<Rightarrow> string \<Rightarrow> int \<Rightarrow> int" where
  "memory_cnt s m k = bucket s (minuteKey m (k * minute))"

definition memory_cnt_inv :: "memoryCounter \<Rightarrow> bool" where
  "memory_cnt_inv s \<longleftrightarrow> (\<forall>k. in_i64 (bucket s k))"

interpretation mem_counter: minute_counter anomaly_memory_Counter memory_cnt_inv memory_cnt
proof
  fix w :: memoryCounter and m k
  show "memory_cnt_inv w \<Longrightarrow> in_i64 (memory_cnt w m k)" by (simp add: memory_cnt_inv_def memory_cnt_def)
next
  fix w :: memoryCounter and c now m ts n
  assume w: "memory_cnt_inv w"
  show "\<exists>w'. ctr_Increment anomaly_memory_Counter c now m ts n w = (None, w') \<and> memory_cnt_inv w' \<and>
      (\<forall>m' k. memory_cnt w' m' k = i64 (memory_cnt w m' k + (if m' = m \<and> k = ts div minute then n else 0)))"
    using w by (auto simp: anomaly_memory_Counter_def anomaly_memory_Increment_def Truncate_minute memory_cnt_def
        memory_cnt_inv_def bucket_def minuteKey_inj split: option.splits)
next
  fix w :: memoryCounter and a b :: int and c now m
  assume "memory_cnt_inv w" and "a \<le> b"
  then show "\<exists>w'. ctr_CountInWindow anomaly_memory_Counter c now m (a * minute) (b * minute) w =
        (Inr (i64 (\<Sum>k\<in>{a..<b}. memory_cnt w m k)), w') \<and> memory_cnt_inv w' \<and> memory_cnt w' = memory_cnt w"
    using countLoop_sum [of 0 a b w m]
    by (simp add: anomaly_memory_Counter_def anomaly_memory_CountInWindow_def in_i64_def memory_cnt_def)
qed

section \<open>Properties\<close>

lemma memory_cnt_empty [simp]: "memory_cnt anomaly_NewMemoryCounter m k = 0"
  by (simp add: memory_cnt_def bucket_def anomaly_NewMemoryCounter_def)

lemma memory_cnt_inv_empty [simp]: "memory_cnt_inv anomaly_NewMemoryCounter"
  by (simp add: memory_cnt_inv_def bucket_def anomaly_NewMemoryCounter_def in_i64_def)

text \<open>C31: the detector over the in-memory counter, after any history of recorded events of any metrics, reports as
  current rate the events of the metric in the present minute and as baseline the average of exactly the preceding
  minutes of the lookback, rounded once; it raises a spike when the current rate reaches the multiple of the
  baseline, and without any history when it reaches the multiplier.\<close>

theorem DetectSpike_rates:
  fixes now :: time and es :: "event list" and multiplier :: float64
  assumes "metric \<noteq> []" and "1 \<le> L" and "L \<le> 153722867"
  defines "k \<equiv> now div minute"
  defines "cur \<equiv> eventSum metric k (k + 1) es" and "base \<equiv> eventSum metric (k - L) k es"
  defines "det \<equiv> anomaly_New anomaly_memory_Counter None multiplier"
  assumes "\<bar>cur\<bar> < 2 ^ 53" and "\<bar>base\<bar> < 2 ^ 53"
  shows "fst (DetectSpike det c now metric L (recordAll det c es anomaly_NewMemoryCounter)) =
    Inr \<lparr>sp_spike = (if base \<le> 0 then float_le (det_multiplier det) (Fin cur)
                     else float_le (float_mul (Fin (fl64 (base / L))) (det_multiplier det)) (Fin cur)),
         sp_current = cur, sp_baseline = fl64 (base / L)\<rparr>"
proof -
  let ?w = "recordAll det c es anomaly_NewMemoryCounter"
  have det: "det_counter det = anomaly_memory_Counter" by (simp add: det_def anomaly_New_def)
  have small: "in_i64 cur" "in_i64 base" using assms(8,9) by (auto simp: in_i64_def abs_less_iff)
  have rec: "memory_cnt_inv ?w" "mem_counter.windowSum ?w metric a b = i64 (eventSum metric a b es)" for a b
    using mem_counter.window_recordAll [OF memory_cnt_inv_empty det assms(1)]
    by (simp_all add: mem_counter.windowSum_def)
  then have "mem_counter.windowSum ?w metric k (k + 1) = cur" "mem_counter.windowSum ?w metric (k - L) k = base"
    using small by (simp_all add: cur_def base_def)
  then show ?thesis
    using mem_counter.DetectSpike_windows [OF rec(1) det assms(1,2,3), of now] assms(8,9) by (simp add: k_def)
qed

theorem DetectSpike_rates_witness:
  "fst (DetectSpike (anomaly_New anomaly_memory_Counter None (Fin 0)) None (2 * minute + 5) ''m'' 2
      (recordAll (anomaly_New anomaly_memory_Counter None (Fin 0)) None [(7, ''m'', 2), (minute, ''x'', 9), (2 * minute, ''m'', 5)]
        anomaly_NewMemoryCounter)) =
    Inr \<lparr>sp_spike = True, sp_current = 5, sp_baseline = 1\<rparr>"
proof -
  have one: "fl64 1 = 1" and five: "fl64 5 = 5" using fl64_of_int [of 1] fl64_of_int [of 5] by simp_all
  show ?thesis
    using DetectSpike_rates [of "''m''" 2 "2 * minute + 5" "[(7, ''m'', 2), (minute, ''x'', 9), (2 * minute, ''m'', 5)]" "Fin 0" None]
    by (simp add: eventSum_def minute_def anomaly_New_def one five round64_def)
qed

text \<open>The Redis counter selects buckets by their counts, not by their minutes: as long as the counts of a metric
  are below the number of the first minute of the window, \<^verbatim>\<open>CountInWindow\<close> returns zero, whatever was recorded in
  the window.\<close>

theorem anomaly_redis_blind:
  assumes "redis_up R" and "redis_decode_law R" and "redis_zset_law R zs ex"
    and "\<forall>m n. zs (time_UnixMilli now) (anomaly_redisKey s metric) r m = Some n \<longrightarrow> n < minuteOf start"
  shows "anomaly_redis_CountInWindow R s None now metric start until r = (Inr 0, r)"
proof -
  have "set (rd_ZRANGEBYSCORE R (time_UnixMilli now) (anomaly_redisKey s metric) a b r) = {}"
    if "minuteOf start \<le> a" for a b
    unfolding zset_simps(8) [OF assms(3)] using assms(4) that by fastforce
  then have "rd_ZRANGEBYSCORE R (time_UnixMilli now) (anomaly_redisKey s metric) (minuteOf start) b r = []" for b
    by simp
  then show ?thesis
    using assms(1) by (simp add: anomaly_redis_CountInWindow_def redis_up_def decode_simps(1) [OF assms(2)] Let_def)
qed

definition blindDemo :: "go_error option \<times> refServer" where
  "blindDemo = anomaly_redis_Increment refRedis (NewRedisCounter []) None (90 * minute) ''m'' (90 * minute) 7 refEmpty"

lemma minuteOf_90: "minuteOf (90 * minute) = 90"
  by (simp add: minuteOf_def time_Unix_def time_Truncate_def minute_def quot_def)

lemma FormatInt_90: "FormatInt 90 = ''90''"
  by code_simp

lemma blindDemo_key: "anomaly_redisKey (NewRedisCounter []) ''m'' = ''anomaly:m''"
  by (simp add: anomaly_redisKey_def NewRedisCounter_def)

lemma blindDemo_state:
  "fst blindDemo = None"
  "ref_zs (time_UnixMilli (90 * minute)) ''anomaly:m'' (snd blindDemo) = [''90'' \<mapsto> 7]"
proof -
  have px: "rd_px refRedis (192 * hour) = 691200000" by (simp add: refRedis_def hour_def quot_def)
  have up: "rd_call refRedis None body r = (Inr (fst (body r)), snd (body r))" for body r
    using refRedis_up by (simp add: redis_up_def)
  have empty: "ref_zs t k refEmpty = Map.empty" for t k by (simp add: ref_zs_def ref_entries_def refEmpty_def)
  show "fst blindDemo = None"
    by (simp add: blindDemo_def anomaly_redis_Increment_def up Let_def)
  show "ref_zs (time_UnixMilli (90 * minute)) ''anomaly:m'' (snd blindDemo) = [''90'' \<mapsto> 7]"
    by (simp add: blindDemo_def anomaly_redis_Increment_def up Let_def px minuteOf_90 FormatInt_90 blindDemo_key
        zset_simps [OF refRedis_zset_law] empty)
qed

theorem anomaly_redis_blind_witness:
  "fst blindDemo = None \<and> snd blindDemo \<noteq> refEmpty \<and>
   anomaly_redis_CountInWindow refRedis (NewRedisCounter []) None (90 * minute) ''m'' (90 * minute) (91 * minute) (snd blindDemo) =
     (Inr 0, snd blindDemo)"
proof -
  have "snd blindDemo \<noteq> refEmpty" using blindDemo_state(2) by (auto simp: refEmpty_def ref_zs_def ref_entries_def dest: fun_cong [where x = "''90''"])
  then show ?thesis
    using anomaly_redis_blind [of refRedis ref_zs ref_ex "90 * minute" "NewRedisCounter []" "''m''" "snd blindDemo" "90 * minute" "91 * minute"]
    by (simp add: blindDemo_key blindDemo_state minuteOf_90)
qed

end
