(* ===== verification/Notify.thy ===== *)
theory Notify
  imports Prelude
begin

text \<open>
  Package \<^verbatim>\<open>notify\<close>: a channel of at most 256 alerts, one worker goroutine that takes them in order and hands each to
  the sender, and request handlers that put alerts in without ever waiting. The channel with its worker is a step
  relation; a step is a call of \<^verbatim>\<open>AfterSensitiveAction\<close>, the worker receiving an alert, or the worker delivering
  the one it holds. The locale \<open>recording_sender\<close> is the contract of a sender that keeps what it was given. The
  log is the list of the lines printed; a panic of the sender, which would end the process, is not modelled.
\<close>

record alertEvent =
  ev_AccountID :: string
  ev_Action :: string
  ev_DeviceFingerprint :: string
  ev_IPAddress :: string
  ev_At :: time

type_synonym 'w sender = "ctx \<Rightarrow> alertEvent \<Rightarrow> 'w \<Rightarrow> go_error option \<times> 'w"

text \<open>The notifier, with the alert its worker has received and not yet delivered.\<close>

record 'w notifier =
  nt_sender :: "'w sender option"
  nt_ch :: "alertEvent list"
  nt_busy :: "alertEvent option"
  nt_log :: "string list"

definition channelCap :: nat where
  "channelCap = 256"

definition notify_New :: "'w sender option \<Rightarrow> 'w notifier" where
  "notify_New sender = \<lparr>nt_sender = sender, nt_ch = [], nt_busy = None, nt_log = []\<rparr>"

definition notify_deliver :: "alertEvent \<Rightarrow> 'w notifier \<times> 'w \<Rightarrow> 'w notifier \<times> 'w" where
  "notify_deliver e s =
     (case s of (n, w) \<Rightarrow>
       (case nt_sender n of
          None \<Rightarrow>
            (n\<lparr>nt_log := nt_log n @ [''[notify] account='' @ ev_AccountID e @ '' action='' @ ev_Action e @ '' ip='' @
                 ev_IPAddress e @ '' device='' @ ev_DeviceFingerprint e]\<rparr>, w)
        | Some Send \<Rightarrow>
            (case Send background e w of
               (None, w') \<Rightarrow> (n, w')
             | (Some err, w') \<Rightarrow>
                 (n\<lparr>nt_log := nt_log n @ [''[notify] delivery failed account='' @ ev_AccountID e @ '' action='' @
                      ev_Action e @ '': '' @ error_Error err]\<rparr>, w'))))"

text \<open>The loop \<^verbatim>\<open>for e := range n.ch\<close> of the worker, in two steps: taking an alert and delivering it.\<close>

definition worker_receive :: "'w notifier \<Rightarrow> 'w notifier option" where
  "worker_receive n =
     (case (nt_busy n, nt_ch n) of
        (None, e # es) \<Rightarrow> Some (n\<lparr>nt_busy := Some e, nt_ch := es\<rparr>)
      | _ \<Rightarrow> None)"

definition worker_deliver :: "'w notifier \<times> 'w \<Rightarrow> ('w notifier \<times> 'w) option" where
  "worker_deliver s =
     (case s of (n, w) \<Rightarrow>
       (case nt_busy n of
          None \<Rightarrow> None
        | Some e \<Rightarrow> Some (notify_deliver e (n\<lparr>nt_busy := None\<rparr>, w))))"

text \<open>\<^verbatim>\<open>select\<close> with a \<^verbatim>\<open>default\<close>: the alert goes in when the channel has room, otherwise it is dropped and logged. The
  result says which.\<close>

definition AfterSensitiveAction :: "time \<Rightarrow> string \<Rightarrow> string \<Rightarrow> string \<Rightarrow> string \<Rightarrow> 'w notifier \<Rightarrow> bool \<times> 'w notifier" where
  "AfterSensitiveAction now accountID action deviceFingerprint ipAddress n =
     (let e = \<lparr>ev_AccountID = accountID, ev_Action = action, ev_DeviceFingerprint = deviceFingerprint,
               ev_IPAddress = ipAddress, ev_At = now\<rparr> in
      if length (nt_ch n) < channelCap then (True, n\<lparr>nt_ch := nt_ch n @ [e]\<rparr>)
      else (False, n\<lparr>nt_log := nt_log n @ [''[notify] queue full, dropping alert account='' @ accountID @ '' action='' @ action]\<rparr>))"

section \<open>The stub sender\<close>

record StubSender =
  ss_Events :: "alertEvent list"
  ss_Err :: "go_error option"

definition StubSender_Send :: "StubSender sender" where
  "StubSender_Send c e s = (ss_Err s, s\<lparr>ss_Events := ss_Events s @ [e]\<rparr>)"

definition StubSender_Count :: "StubSender \<Rightarrow> int" where
  "StubSender_Count s = int (length (ss_Events s))"

section \<open>Handlers and worker together\<close>

text \<open>The label of a step: an alert offered by a handler and whether it was taken, or a step of the worker.\<close>

datatype notifyLabel = Offered alertEvent bool | Received | Delivered

inductive notifyStep :: "'w notifier \<times> 'w \<Rightarrow> notifyLabel \<Rightarrow> 'w notifier \<times> 'w \<Rightarrow> bool" where
  offer: "AfterSensitiveAction (ev_At e) (ev_AccountID e) (ev_Action e) (ev_DeviceFingerprint e) (ev_IPAddress e) n = (ok, n') \<Longrightarrow>
     notifyStep (n, w) (Offered e ok) (n', w)"
| receive: "worker_receive n = Some n' \<Longrightarrow> notifyStep (n, w) Received (n', w)"
| deliver: "worker_deliver s = Some s' \<Longrightarrow> notifyStep s Delivered s'"

inductive_cases notifyStepE: "notifyStep s l s'"

inductive notifyRun :: "'w notifier \<times> 'w \<Rightarrow> notifyLabel list \<Rightarrow> 'w notifier \<times> 'w \<Rightarrow> bool"
  for s0 :: "'w notifier \<times> 'w" where
  start: "notifyRun s0 [] s0"
| step: "notifyRun s0 ls s \<Longrightarrow> notifyStep s l s' \<Longrightarrow> notifyRun s0 (ls @ [l]) s'"

text \<open>The alerts a run has taken in, in order.\<close>

fun taken :: "notifyLabel list \<Rightarrow> alertEvent list" where
  "taken [] = []"
| "taken (Offered e True # ls) = e # taken ls"
| "taken (_ # ls) = taken ls"

lemma taken_append [simp]: "taken (xs @ ys) = taken xs @ taken ys"
  by (induction xs rule: taken.induct) simp_all

definition pending :: "'w notifier \<Rightarrow> alertEvent list" where
  "pending n = (case nt_busy n of None \<Rightarrow> [] | Some e \<Rightarrow> [e]) @ nt_ch n"

lemma notifyRun_trans: "notifyRun s' ys s'' \<Longrightarrow> notifyRun s xs s' \<Longrightarrow> notifyRun s (xs @ ys) s''"
proof (induction rule: notifyRun.induct)
  case (step ls t l t')
  then show ?case using notifyRun.step [of s "xs @ ls" t l t'] by simp
qed simp

text \<open>What the worker still has to do, and that it can always do some of it.\<close>

definition workLeft :: "'w notifier \<Rightarrow> nat" where
  "workLeft n = 2 * length (nt_ch n) + (if nt_busy n = None then 0 else 1)"

lemma worker_progress:
  assumes "pending (fst s) \<noteq> []"
  obtains l s' where "l \<in> {Received, Delivered}" and "notifyStep s l s'" and "workLeft (fst s') < workLeft (fst s)"
proof -
  obtain n w where s: "s = (n, w)" by (cases s)
  show thesis
  proof (cases "nt_busy n")
    case None
    with assms s obtain e es where "nt_ch n = e # es" by (cases "nt_ch n") (auto simp: pending_def)
    then have "notifyStep s Received (n\<lparr>nt_busy := Some e, nt_ch := es\<rparr>, w)"
      unfolding s using None by (intro notifyStep.receive) (simp add: worker_receive_def)
    with None s \<open>nt_ch n = e # es\<close> show thesis by (intro that) (auto simp: workLeft_def)
  next
    case (Some e)
    have "nt_busy (fst (notify_deliver e (n\<lparr>nt_busy := None\<rparr>, w))) = None \<and>
        nt_ch (fst (notify_deliver e (n\<lparr>nt_busy := None\<rparr>, w))) = nt_ch n"
      by (auto simp: notify_deliver_def split: option.splits prod.splits)
    moreover have "notifyStep s Delivered (notify_deliver e (n\<lparr>nt_busy := None\<rparr>, w))"
      unfolding s using Some by (intro notifyStep.deliver) (simp add: worker_deliver_def)
    ultimately show thesis using Some s by (intro that) (auto simp: workLeft_def)
  qed
qed

text \<open>A step of the worker takes one unit off what is left, whatever it is.\<close>

lemma worker_step:
  assumes "notifyStep s l s'" "l \<in> {Received, Delivered}"
  shows "Suc (workLeft (fst s')) = workLeft (fst s)"
  using assms
proof (cases rule: notifyStep.cases)
  case (receive n n' w)
  then show ?thesis by (auto simp: worker_receive_def workLeft_def split: option.splits list.splits)
next
  case deliver
  then show ?thesis
    by (cases s) (auto simp: worker_deliver_def notify_deliver_def workLeft_def split: option.splits prod.splits)
qed simp

lemma worker_run:
  assumes "notifyRun s ls s'" "set ls \<subseteq> {Received, Delivered}"
  shows "length ls + workLeft (fst s') = workLeft (fst s)"
  using assms
proof induction
  case (step ls t l t')
  then show ?case using worker_step [OF step.hyps(2)] by simp
qed simp

text \<open>A sender that keeps a record of what it was asked to send.\<close>

locale recording_sender =
  fixes Send :: "'w sender" and sent :: "'w \<Rightarrow> alertEvent list"
  assumes Send_records: "Send c e w = (r, w') \<Longrightarrow> sent w' = sent w @ [e]"
begin

definition notifyInv :: "alertEvent list \<Rightarrow> 'w notifier \<times> 'w \<Rightarrow> bool" where
  "notifyInv evs s \<longleftrightarrow> nt_sender (fst s) = Some Send \<and> length (nt_ch (fst s)) \<le> channelCap \<and>
     evs = sent (snd s) @ pending (fst s)"

lemma notifyInv_step:
  assumes "notifyInv evs s" and "notifyStep s l s'"
  shows "notifyInv (evs @ taken [l]) s'"
  using assms(2)
proof (cases rule: notifyStep.cases)
  case (offer e n ok n' w)
  with assms(1) show ?thesis
    by (cases ok) (auto simp: notifyInv_def AfterSensitiveAction_def pending_def Let_def split: if_splits)
next
  case (receive n n' w)
  with assms(1) show ?thesis
    by (auto simp: notifyInv_def worker_receive_def pending_def split: option.splits list.splits)
next
  case deliver
  with assms(1) show ?thesis
    by (cases s) (auto simp: notifyInv_def worker_deliver_def notify_deliver_def pending_def Send_records
        split: option.splits prod.splits)
qed

lemma notifyInv_run:
  assumes "notifyRun s ls s'" and "notifyInv evs s"
  shows "notifyInv (evs @ taken ls) s'"
  using assms(1)
proof induction
  case (step ls s l s')
  then show ?case using notifyInv_step by fastforce
qed (use assms(2) in simp)

text \<open>The worker alone empties the channel: two of its steps per alert.\<close>

lemma drain:
  assumes "notifyInv evs s"
  shows "\<exists>ls s'. notifyRun s ls s' \<and> set ls \<subseteq> {Received, Delivered} \<and> notifyInv evs s' \<and> pending (fst s') = []"
  using assms
proof (induction "workLeft (fst s)" arbitrary: s rule: less_induct)
  case less
  show ?case
  proof (cases "pending (fst s) = []")
    case True
    with less.prems show ?thesis using notifyRun.start [of s] by (intro exI [of _ "[]"] exI [of _ s]) simp
  next
    case False
    then obtain l s1 where l: "l \<in> {Received, Delivered}" "notifyStep s l s1" "workLeft (fst s1) < workLeft (fst s)"
      by (rule worker_progress)
    have "taken [l] = []" using l(1) by auto
    then have "notifyInv evs s1" using notifyInv_step [OF less.prems l(2)] by simp
    then obtain ls s' where ls: "notifyRun s1 ls s'" "set ls \<subseteq> {Received, Delivered}" "notifyInv evs s'"
        "pending (fst s') = []"
      using less.hyps [OF l(3)] by blast
    have "notifyRun s [l] s1" using notifyRun.step [OF notifyRun.start l(2)] by simp
    then have "notifyRun s ([l] @ ls) s'" by (rule notifyRun_trans [OF ls(1)])
    with ls l(1) show ?thesis by (intro exI [of _ "[l] @ ls"] exI [of _ s']) simp
  qed
qed

end

interpretation stub: recording_sender StubSender_Send ss_Events
  by unfold_locales (auto simp: StubSender_Send_def)

section \<open>Properties\<close>

lemma stub_inv_start: "stub.notifyInv [] (notify_New (Some StubSender_Send), \<lparr>ss_Events = [], ss_Err = err\<rparr>)"
  by (simp add: stub.notifyInv_def notify_New_def pending_def)

text \<open>C32: the notifier delivers in order and loses nothing it took. In every interleaving of handlers and worker the
  alerts that were taken in are, in order, those already sent followed by those pending, at most 256 wait in the
  channel, and the worker alone can bring the system to a state where every alert taken has been sent.\<close>

theorem notify_fifo:
  assumes "notifyRun (notify_New (Some StubSender_Send), \<lparr>ss_Events = [], ss_Err = err\<rparr>) ls (n, w)"
  shows "taken ls = ss_Events w @ pending n \<and> length (nt_ch n) \<le> 256 \<and>
    (\<exists>ls' n' w'. notifyRun (n, w) ls' (n', w') \<and> set ls' \<subseteq> {Received, Delivered} \<and> ss_Events w' = taken ls)"
proof -
  have inv: "stub.notifyInv (taken ls) (n, w)" using stub.notifyInv_run [OF assms stub_inv_start] by simp
  then obtain ls' s' where "notifyRun (n, w) ls' s'" "set ls' \<subseteq> {Received, Delivered}" "stub.notifyInv (taken ls) s'"
      "pending (fst s') = []"
    using stub.drain by blast
  with inv show ?thesis by (cases s') (auto simp: stub.notifyInv_def channelCap_def)
qed

theorem notify_fifo_witness:
  "\<exists>n w. notifyRun (notify_New (Some StubSender_Send), \<lparr>ss_Events = [], ss_Err = None\<rparr>)
       [Offered \<lparr>ev_AccountID = ''a'', ev_Action = ''w'', ev_DeviceFingerprint = ''f'', ev_IPAddress = ''i'', ev_At = 1\<rparr> True,
        Received, Delivered] (n, w) \<and>
     taken [Offered \<lparr>ev_AccountID = ''a'', ev_Action = ''w'', ev_DeviceFingerprint = ''f'', ev_IPAddress = ''i'', ev_At = 1\<rparr> True,
        Received, Delivered] = ss_Events w @ pending n"
proof -
  let ?e = "\<lparr>ev_AccountID = ''a'', ev_Action = ''w'', ev_DeviceFingerprint = ''f'', ev_IPAddress = ''i'', ev_At = 1\<rparr>"
  let ?n = "notify_New (Some StubSender_Send)" and ?w = "\<lparr>ss_Events = [], ss_Err = None\<rparr>"
  have "notifyStep (?n, ?w) (Offered ?e True) (?n\<lparr>nt_ch := [?e]\<rparr>, ?w)"
    by (rule offer) (simp add: AfterSensitiveAction_def notify_New_def channelCap_def)
  moreover have "notifyStep (?n\<lparr>nt_ch := [?e]\<rparr>, ?w) Received (?n\<lparr>nt_busy := Some ?e\<rparr>, ?w)"
    by (rule receive) (simp add: worker_receive_def notify_New_def)
  moreover have "notifyStep (?n\<lparr>nt_busy := Some ?e\<rparr>, ?w) Delivered (?n, ?w\<lparr>ss_Events := [?e]\<rparr>)"
    by (rule deliver) (simp add: worker_deliver_def notify_deliver_def notify_New_def StubSender_Send_def)
  ultimately have "notifyRun (?n, ?w) ((([] @ [Offered ?e True]) @ [Received]) @ [Delivered]) (?n, ?w\<lparr>ss_Events := [?e]\<rparr>)"
    by (intro notifyRun.step [OF notifyRun.step [OF notifyRun.step [OF notifyRun.start]]])
  then have run: "notifyRun (?n, ?w) [Offered ?e True, Received, Delivered] (?n, ?w\<lparr>ss_Events := [?e]\<rparr>)" by simp
  then show ?thesis using notify_fifo [OF run] by blast
qed

text \<open>C33: once no more alerts come in, the worker comes to rest. Every run of the worker alone is at most two steps per alert in
  the channel and one for the alert in its hands, whatever the sender does, and it can only come to a stop when nothing is
  pending: no order of its steps runs forever or leaves an alert behind.\<close>

theorem notify_worker_terminates:
  assumes "notifyRun (n, w) ls (n', w')" "set ls \<subseteq> {Received, Delivered}"
  shows "length ls \<le> 2 * length (nt_ch n) + (if nt_busy n = None then 0 else 1) \<and>
     ((\<nexists>l s. l \<in> {Received, Delivered} \<and> notifyStep (n', w') l s) \<longleftrightarrow> pending n' = [])"
proof -
  have "length ls \<le> 2 * length (nt_ch n) + (if nt_busy n = None then 0 else 1)"
    using worker_run [OF assms] by (simp add: workLeft_def)
  moreover have "pending n' = []" if "\<nexists>l s. l \<in> {Received, Delivered} \<and> notifyStep (n', w') l s"
    using that worker_progress [of "(n', w')"] by (metis fst_conv)
  moreover have "\<not> notifyStep (n', w') l s" if "pending n' = []" "l \<in> {Received, Delivered}" for l s
  proof
    assume "notifyStep (n', w') l s"
    then have "Suc (workLeft (fst s)) = workLeft n'" using worker_step that(2) by fastforce
    moreover have "workLeft n' = 0" using that(1) by (simp add: workLeft_def pending_def split: option.splits)
    ultimately show False by simp
  qed
  ultimately show ?thesis by blast
qed

theorem notify_worker_terminates_witness:
  "\<nexists>l s. l \<in> {Received, Delivered} \<and>
     notifyStep (notify_New (Some StubSender_Send),
       \<lparr>ss_Events = [\<lparr>ev_AccountID = ''a'', ev_Action = ''w'', ev_DeviceFingerprint = ''f'', ev_IPAddress = ''i'', ev_At = 1\<rparr>], ss_Err = None\<rparr>) l s"
proof -
  let ?e = "\<lparr>ev_AccountID = ''a'', ev_Action = ''w'', ev_DeviceFingerprint = ''f'', ev_IPAddress = ''i'', ev_At = 1\<rparr>"
  let ?n = "notify_New (Some StubSender_Send)" and ?w = "\<lparr>ss_Events = [], ss_Err = None\<rparr>"
  have "notifyStep (?n\<lparr>nt_busy := Some ?e\<rparr>, ?w) Delivered (?n, \<lparr>ss_Events = [?e], ss_Err = None\<rparr>)"
    by (rule deliver) (simp add: worker_deliver_def notify_deliver_def notify_New_def StubSender_Send_def)
  then have "notifyRun (?n\<lparr>nt_busy := Some ?e\<rparr>, ?w) ([] @ [Delivered]) (?n, \<lparr>ss_Events = [?e], ss_Err = None\<rparr>)"
    by (rule notifyRun.step [OF notifyRun.start])
  from notify_worker_terminates [OF this] show ?thesis by (simp add: pending_def notify_New_def)
qed

end
