(* ===== verification/Config.thy ===== *)
theory Config
  imports Strconv "HOL-Library.AList"
begin

text \<open>
  Package \<^verbatim>\<open>config\<close>: the settings of the example server, their defaults, and \<^verbatim>\<open>Load\<close>, which reads them from environment
  variables. The environment is a function from names to values, empty where a variable is not set. A Go map of
  balances is an association list without repeated keys. The theorems: loading succeeds exactly when every variable
  that is set can be parsed, what it returns is well formed, and settings survive being written to the environment and
  loaded again.
\<close>

section \<open>Settings\<close>

record cfgServer =
  cf_ListenAddr :: string

record cfgRedis =
  cf_Addr :: string
  cf_KeyPrefix :: string
  cf_PingTimeout :: duration

record cfgRateLimit =
  cf_IPLimit :: int
  cf_IPWindow :: duration
  cf_AccountLimit :: int
  cf_AccountWindow :: duration

record cfgIdempotency =
  cf_IdempotencyTTL :: duration

record cfgVelocity =
  cf_WithdrawMaxPerWindow :: int
  cf_VelocityWindow :: duration
  cf_MinInterval :: duration

record cfgLock =
  cf_LockTTL :: duration

record cfgMiddleware =
  cf_BlockOnVelocity :: bool
  cf_RequireIdempotencyKey :: bool
  cf_RequireLock :: bool

record cfgAnomaly =
  cf_SpikeMultiplier :: float64
  cf_LookbackMinutes :: int

record cfgChallenge =
  cf_NewAccountMaxAge :: duration

record cfgStepUp =
  cf_TokenTTL :: duration

record cfgDeviceTrust =
  cf_Store :: string

record cfgNotify =
  cf_Enabled :: bool

record cfgDemo =
  cf_AccountBalances :: "(string \<times> int) list"

record Config =
  c_Server :: cfgServer
  c_Redis :: cfgRedis
  c_RateLimit :: cfgRateLimit
  c_Idempotency :: cfgIdempotency
  c_Velocity :: cfgVelocity
  c_Lock :: cfgLock
  c_Middleware :: cfgMiddleware
  c_Anomaly :: cfgAnomaly
  c_Challenge :: cfgChallenge
  c_StepUp :: cfgStepUp
  c_DeviceTrust :: cfgDeviceTrust
  c_Notify :: cfgNotify
  c_Demo :: cfgDemo

definition Defaults :: Config where
  "Defaults =
     \<lparr>c_Server = \<lparr>cf_ListenAddr = '':8080''\<rparr>,
      c_Redis = \<lparr>cf_Addr = ''localhost:6379'', cf_KeyPrefix = ''floodguard'', cf_PingTimeout = 3 * second\<rparr>,
      c_RateLimit = \<lparr>cf_IPLimit = 30, cf_IPWindow = minute, cf_AccountLimit = 10, cf_AccountWindow = minute\<rparr>,
      c_Idempotency = \<lparr>cf_IdempotencyTTL = 24 * hour\<rparr>,
      c_Velocity = \<lparr>cf_WithdrawMaxPerWindow = 3, cf_VelocityWindow = minute, cf_MinInterval = 200 * millisecond\<rparr>,
      c_Lock = \<lparr>cf_LockTTL = 30 * second\<rparr>,
      c_Middleware = \<lparr>cf_BlockOnVelocity = False, cf_RequireIdempotencyKey = True, cf_RequireLock = True\<rparr>,
      c_Anomaly = \<lparr>cf_SpikeMultiplier = Fin 5, cf_LookbackMinutes = 60\<rparr>,
      c_Challenge = \<lparr>cf_NewAccountMaxAge = 24 * hour\<rparr>,
      c_StepUp = \<lparr>cf_TokenTTL = 10 * minute\<rparr>,
      c_DeviceTrust = \<lparr>cf_Store = ''memory''\<rparr>,
      c_Notify = \<lparr>cf_Enabled = True\<rparr>,
      c_Demo = \<lparr>cf_AccountBalances = [(''acct-1001'', 50000), (''acct-1002'', 10000)]\<rparr>\<rparr>"

section \<open>Reading variables\<close>

type_synonym environ = "string \<Rightarrow> string"

definition envString :: "environ \<Rightarrow> string \<Rightarrow> string \<Rightarrow> string" where
  "envString env key fallback = (if env key \<noteq> [] then env key else fallback)"

definition envInt :: "environ \<Rightarrow> string \<Rightarrow> int \<Rightarrow> go_error + int" where
  "envInt env key fallback = (if env key = [] then Inr fallback else Atoi (env key))"

definition envFloat :: "environ \<Rightarrow> string \<Rightarrow> float64 \<Rightarrow> go_error + float64" where
  "envFloat env key fallback = (if env key = [] then Inr fallback else ParseFloat (env key))"

definition envBool :: "environ \<Rightarrow> string \<Rightarrow> bool \<Rightarrow> go_error + bool" where
  "envBool env key fallback = (if env key = [] then Inr fallback else ParseBool (env key))"

definition envDuration :: "environ \<Rightarrow> string \<Rightarrow> duration \<Rightarrow> go_error + duration" where
  "envDuration env key fallback = (if env key = [] then Inr fallback else ParseDuration (env key))"

text \<open>The loop of \<^verbatim>\<open>parseAccountBalances\<close> over the parts between commas.\<close>

fun balancesLoop :: "string list \<Rightarrow> (string \<times> int) list \<Rightarrow> go_error + (string \<times> int) list" where
  "balancesLoop [] out = Inr out"
| "balancesLoop (p # ps) out =
     (let part = TrimSpace p in
      if part = [] then balancesLoop ps out
      else
        (case SplitN2 (CHR ''='') part of
           [k, v] \<Rightarrow>
             (case ParseInt (TrimSpace v) of
                Inl e \<Rightarrow> Inl (Wrapf (''invalid cents for '' @ Quote k @ '': '') e [])
              | Inr cents \<Rightarrow> balancesLoop ps (AList.update (TrimSpace k) cents out))
         | _ \<Rightarrow> Inl (Errorf (''expected account=cents pairs, got '' @ Quote part))))"

definition parseAccountBalances :: "string \<Rightarrow> go_error + (string \<times> int) list" where
  "parseAccountBalances raw =
     (case balancesLoop (Split (CHR '','') raw) [] of
        Inl e \<Rightarrow> Inl e
      | Inr out \<Rightarrow> if out = [] then Inl (Errorf ''no balances parsed'') else Inr out)"

section \<open>Loading\<close>

text \<open>\<^verbatim>\<open>x, err := ...; if err != nil { return Config{}, fmt.Errorf("NAME: %w", err) }\<close>.\<close>

definition named :: "string \<Rightarrow> go_error + 'a \<Rightarrow> ('a \<Rightarrow> go_error + 'b) \<Rightarrow> go_error + 'b" where
  "named name r k = (case r of Inl e \<Rightarrow> Inl (Wrapf (name @ '': '') e []) | Inr v \<Rightarrow> k v)"

definition loadRateLimit :: "environ \<Rightarrow> cfgRateLimit \<Rightarrow> go_error + cfgRateLimit" where
  "loadRateLimit env d =
     named ''IP_RATE_LIMIT'' (envInt env ''IP_RATE_LIMIT'' (cf_IPLimit d)) (\<lambda>ipLimit.
     named ''IP_RATE_WINDOW'' (envDuration env ''IP_RATE_WINDOW'' (cf_IPWindow d)) (\<lambda>ipWindow.
     named ''ACCOUNT_RATE_LIMIT'' (envInt env ''ACCOUNT_RATE_LIMIT'' (cf_AccountLimit d)) (\<lambda>acctLimit.
     named ''ACCOUNT_RATE_WINDOW'' (envDuration env ''ACCOUNT_RATE_WINDOW'' (cf_AccountWindow d)) (\<lambda>acctWindow.
       Inr \<lparr>cf_IPLimit = ipLimit, cf_IPWindow = ipWindow, cf_AccountLimit = acctLimit, cf_AccountWindow = acctWindow\<rparr>))))"

definition loadVelocity :: "environ \<Rightarrow> cfgVelocity \<Rightarrow> go_error + cfgVelocity" where
  "loadVelocity env d =
     named ''VELOCITY_WITHDRAW_MAX'' (envInt env ''VELOCITY_WITHDRAW_MAX'' (cf_WithdrawMaxPerWindow d)) (\<lambda>n.
     named ''VELOCITY_WINDOW'' (envDuration env ''VELOCITY_WINDOW'' (cf_VelocityWindow d)) (\<lambda>window.
     named ''VELOCITY_MIN_INTERVAL'' (envDuration env ''VELOCITY_MIN_INTERVAL'' (cf_MinInterval d)) (\<lambda>m.
       Inr \<lparr>cf_WithdrawMaxPerWindow = n, cf_VelocityWindow = window, cf_MinInterval = m\<rparr>)))"

definition loadMiddleware :: "environ \<Rightarrow> cfgMiddleware \<Rightarrow> go_error + cfgMiddleware" where
  "loadMiddleware env d =
     named ''BLOCK_ON_VELOCITY'' (envBool env ''BLOCK_ON_VELOCITY'' (cf_BlockOnVelocity d)) (\<lambda>b.
     named ''REQUIRE_IDEMPOTENCY_KEY'' (envBool env ''REQUIRE_IDEMPOTENCY_KEY'' (cf_RequireIdempotencyKey d)) (\<lambda>i.
     named ''REQUIRE_LOCK'' (envBool env ''REQUIRE_LOCK'' (cf_RequireLock d)) (\<lambda>l.
       Inr \<lparr>cf_BlockOnVelocity = b, cf_RequireIdempotencyKey = i, cf_RequireLock = l\<rparr>)))"

definition loadAnomaly :: "environ \<Rightarrow> cfgAnomaly \<Rightarrow> go_error + cfgAnomaly" where
  "loadAnomaly env d =
     named ''ANOMALY_SPIKE_MULTIPLIER'' (envFloat env ''ANOMALY_SPIKE_MULTIPLIER'' (cf_SpikeMultiplier d)) (\<lambda>m.
     named ''ANOMALY_LOOKBACK_MINUTES'' (envInt env ''ANOMALY_LOOKBACK_MINUTES'' (cf_LookbackMinutes d)) (\<lambda>l.
       Inr \<lparr>cf_SpikeMultiplier = m, cf_LookbackMinutes = l\<rparr>))"

definition loadStore :: "environ \<Rightarrow> cfgDeviceTrust \<Rightarrow> go_error + cfgDeviceTrust" where
  "loadStore env d =
     (let store = envString env ''DEVICE_TRUST_STORE'' (cf_Store d) in
      if store \<noteq> ''memory'' \<and> store \<noteq> ''redis''
      then Inl (Errorf (''DEVICE_TRUST_STORE: must be memory or redis, got '' @ Quote store))
      else Inr \<lparr>cf_Store = store\<rparr>)"

definition loadDemo :: "environ \<Rightarrow> cfgDemo \<Rightarrow> go_error + cfgDemo" where
  "loadDemo env d =
     (let raw = env ''DEMO_ACCOUNT_BALANCES'' in
      if raw = [] then Inr d
      else named ''DEMO_ACCOUNT_BALANCES'' (parseAccountBalances raw) (\<lambda>b. Inr \<lparr>cf_AccountBalances = b\<rparr>))"

text \<open>A group whose error already carries the name of its variable.\<close>

definition andThen :: "go_error + 'a \<Rightarrow> ('a \<Rightarrow> go_error + 'b) \<Rightarrow> go_error + 'b" where
  "andThen r k = (case r of Inl e \<Rightarrow> Inl e | Inr v \<Rightarrow> k v)"

definition Load :: "environ \<Rightarrow> go_error + Config" where
  "Load env =
     (let d = Defaults;
          addr = envString env ''LISTEN_ADDR'' (cf_ListenAddr (c_Server d));
          raddr = envString env ''REDIS_ADDR'' (cf_Addr (c_Redis d));
          prefix = envString env ''REDIS_KEY_PREFIX'' (cf_KeyPrefix (c_Redis d)) in
      named ''REDIS_PING_TIMEOUT'' (envDuration env ''REDIS_PING_TIMEOUT'' (cf_PingTimeout (c_Redis d))) (\<lambda>ping.
      andThen (loadRateLimit env (c_RateLimit d)) (\<lambda>rateLimit.
      named ''IDEMPOTENCY_TTL'' (envDuration env ''IDEMPOTENCY_TTL'' (cf_IdempotencyTTL (c_Idempotency d))) (\<lambda>idemTTL.
      andThen (loadVelocity env (c_Velocity d)) (\<lambda>velocity.
      named ''LOCK_TTL'' (envDuration env ''LOCK_TTL'' (cf_LockTTL (c_Lock d))) (\<lambda>lockTTL.
      andThen (loadMiddleware env (c_Middleware d)) (\<lambda>mw.
      andThen (loadAnomaly env (c_Anomaly d)) (\<lambda>anomaly.
      named ''CHALLENGE_NEW_ACCOUNT_MAX_AGE''
        (envDuration env ''CHALLENGE_NEW_ACCOUNT_MAX_AGE'' (cf_NewAccountMaxAge (c_Challenge d))) (\<lambda>maxAge.
      named ''STEPUP_TOKEN_TTL'' (envDuration env ''STEPUP_TOKEN_TTL'' (cf_TokenTTL (c_StepUp d))) (\<lambda>tokenTTL.
      andThen (loadStore env (c_DeviceTrust d)) (\<lambda>store.
      named ''NOTIFY_ENABLED'' (envBool env ''NOTIFY_ENABLED'' (cf_Enabled (c_Notify d))) (\<lambda>enabled.
      andThen (loadDemo env (c_Demo d)) (\<lambda>demo.
        Inr \<lparr>c_Server = \<lparr>cf_ListenAddr = addr\<rparr>,
             c_Redis = \<lparr>cf_Addr = raddr, cf_KeyPrefix = prefix, cf_PingTimeout = ping\<rparr>,
             c_RateLimit = rateLimit, c_Idempotency = \<lparr>cf_IdempotencyTTL = idemTTL\<rparr>, c_Velocity = velocity,
             c_Lock = \<lparr>cf_LockTTL = lockTTL\<rparr>, c_Middleware = mw, c_Anomaly = anomaly,
             c_Challenge = \<lparr>cf_NewAccountMaxAge = maxAge\<rparr>, c_StepUp = \<lparr>cf_TokenTTL = tokenTTL\<rparr>,
             c_DeviceTrust = store, c_Notify = \<lparr>cf_Enabled = enabled\<rparr>, c_Demo = demo\<rparr>)))))))))))))"

section \<open>What loading returns\<close>

lemma named_Inr [simp]: "named name r k = Inr y \<longleftrightarrow> (\<exists>v. r = Inr v \<and> k v = Inr y)"
  by (simp add: named_def split: sum.split)

lemma andThen_Inr [simp]: "andThen r k = Inr y \<longleftrightarrow> (\<exists>v. r = Inr v \<and> k v = Inr y)"
  by (simp add: andThen_def split: sum.split)

lemma parseInt64_range: "parseInt64 func s = Inr n \<Longrightarrow> in_i64 n"
  by (auto simp: parseInt64_def in_i64_def split: prod.splits sum.splits if_splits)

lemma envInt_range: "envInt env key d = Inr n \<Longrightarrow> in_i64 d \<Longrightarrow> in_i64 n"
  by (auto simp: envInt_def Atoi_def dest: parseInt64_range split: if_splits)

lemma ParseDuration_range: "ParseDuration s = Inr d \<Longrightarrow> in_i64 d"
  by (auto simp: ParseDuration_def in_i64_def [of 0] in_i64_def [of "int _"] split: prod.splits sum.splits if_splits)

lemma envDuration_range: "envDuration env key d = Inr n \<Longrightarrow> in_i64 d \<Longrightarrow> in_i64 n"
  by (auto simp: envDuration_def dest: ParseDuration_range split: if_splits)

text \<open>Balances: one value per account, each an \<^verbatim>\<open>int64\<close>.\<close>

definition wf_balances :: "(string \<times> int) list \<Rightarrow> bool" where
  "wf_balances b \<longleftrightarrow> distinct (map fst b) \<and> list_all (\<lambda>(k, v). in_i64 v) b"

lemma wf_balances_update: "wf_balances b \<Longrightarrow> in_i64 v \<Longrightarrow> wf_balances (AList.update k v b)"
proof (induction b)
  case (Cons p b)
  then show ?case by (cases p) (auto simp: wf_balances_def dom_update)
qed (simp add: wf_balances_def)

lemma balancesLoop_wf: "balancesLoop ps out = Inr b \<Longrightarrow> wf_balances out \<Longrightarrow> wf_balances b"
proof (induction ps arbitrary: out)
  case (Cons p ps)
  show ?case
  proof (cases "TrimSpace p = []")
    case True
    with Cons show ?thesis by simp
  next
    case False
    with Cons.prems obtain k v cents where "balancesLoop ps (AList.update (TrimSpace k) cents out) = Inr b" "ParseInt (TrimSpace v) = Inr cents"
      by (auto simp: Let_def split: list.splits sum.splits)
    with Cons.IH Cons.prems(2) wf_balances_update parseInt64_range show ?thesis
      unfolding ParseInt_def by blast
  qed
qed simp

definition wf_config :: "Config \<Rightarrow> bool" where
  "wf_config c \<longleftrightarrow>
     list_all in_i64
       [cf_PingTimeout (c_Redis c), cf_IPLimit (c_RateLimit c), cf_IPWindow (c_RateLimit c),
        cf_AccountLimit (c_RateLimit c), cf_AccountWindow (c_RateLimit c), cf_IdempotencyTTL (c_Idempotency c),
        cf_WithdrawMaxPerWindow (c_Velocity c), cf_VelocityWindow (c_Velocity c), cf_MinInterval (c_Velocity c),
        cf_LockTTL (c_Lock c), cf_LookbackMinutes (c_Anomaly c), cf_NewAccountMaxAge (c_Challenge c),
        cf_TokenTTL (c_StepUp c)] \<and>
     cf_ListenAddr (c_Server c) \<noteq> [] \<and> cf_Addr (c_Redis c) \<noteq> [] \<and> cf_KeyPrefix (c_Redis c) \<noteq> [] \<and>
     cf_Store (c_DeviceTrust c) \<in> {''memory'', ''redis''} \<and>
     cf_AccountBalances (c_Demo c) \<noteq> [] \<and> wf_balances (cf_AccountBalances (c_Demo c))"

lemma wf_Defaults: "wf_config Defaults"
  by (simp add: wf_config_def Defaults_def in_i64_def wf_balances_def second_def minute_def hour_def millisecond_def)

lemma envString_nonempty: "d \<noteq> [] \<Longrightarrow> envString env key d \<noteq> []"
  by (simp add: envString_def)

lemma loadRateLimit_range:
  "loadRateLimit env d = Inr r \<Longrightarrow> in_i64 (cf_IPLimit d) \<Longrightarrow> in_i64 (cf_IPWindow d) \<Longrightarrow> in_i64 (cf_AccountLimit d) \<Longrightarrow>
     in_i64 (cf_AccountWindow d) \<Longrightarrow>
   in_i64 (cf_IPLimit r) \<and> in_i64 (cf_IPWindow r) \<and> in_i64 (cf_AccountLimit r) \<and> in_i64 (cf_AccountWindow r)"
  by (auto simp: loadRateLimit_def dest: envInt_range envDuration_range)

lemma loadVelocity_range:
  "loadVelocity env d = Inr r \<Longrightarrow> in_i64 (cf_WithdrawMaxPerWindow d) \<Longrightarrow> in_i64 (cf_VelocityWindow d) \<Longrightarrow> in_i64 (cf_MinInterval d) \<Longrightarrow>
   in_i64 (cf_WithdrawMaxPerWindow r) \<and> in_i64 (cf_VelocityWindow r) \<and> in_i64 (cf_MinInterval r)"
  by (auto simp: loadVelocity_def dest: envInt_range envDuration_range)

lemma loadAnomaly_range: "loadAnomaly env d = Inr r \<Longrightarrow> in_i64 (cf_LookbackMinutes d) \<Longrightarrow> in_i64 (cf_LookbackMinutes r)"
  by (auto simp: loadAnomaly_def dest: envInt_range)

lemma loadStore_ok: "loadStore env d = Inr r \<Longrightarrow> cf_Store r \<in> {''memory'', ''redis''}"
  by (auto simp: loadStore_def Let_def split: if_splits)

lemma loadDemo_wf:
  "loadDemo env d = Inr r \<Longrightarrow> cf_AccountBalances d \<noteq> [] \<Longrightarrow> wf_balances (cf_AccountBalances d) \<Longrightarrow>
   cf_AccountBalances r \<noteq> [] \<and> wf_balances (cf_AccountBalances r)"
  by (auto simp: loadDemo_def parseAccountBalances_def wf_balances_def [of "[]"] Let_def
      dest!: balancesLoop_wf split: if_splits sum.splits)

text \<open>C40: whatever the environment, settings that load are well formed: every number and duration fits its width,
  addresses and the key prefix are not empty, the device store is one of the two that exist, and there is at least one
  account, each with one balance.\<close>

theorem Load_wf:
  assumes "Load env = Inr c"
  shows "wf_config c"
proof -
  have d: "wf_config Defaults" by (rule wf_Defaults)
  from assms obtain ping rl it vel lt mw an ma tt st en demo where
    r: "envDuration env ''REDIS_PING_TIMEOUT'' (cf_PingTimeout (c_Redis Defaults)) = Inr ping"
      "loadRateLimit env (c_RateLimit Defaults) = Inr rl"
      "envDuration env ''IDEMPOTENCY_TTL'' (cf_IdempotencyTTL (c_Idempotency Defaults)) = Inr it"
      "loadVelocity env (c_Velocity Defaults) = Inr vel"
      "envDuration env ''LOCK_TTL'' (cf_LockTTL (c_Lock Defaults)) = Inr lt"
      "loadAnomaly env (c_Anomaly Defaults) = Inr an"
      "envDuration env ''CHALLENGE_NEW_ACCOUNT_MAX_AGE'' (cf_NewAccountMaxAge (c_Challenge Defaults)) = Inr ma"
      "envDuration env ''STEPUP_TOKEN_TTL'' (cf_TokenTTL (c_StepUp Defaults)) = Inr tt"
      "loadStore env (c_DeviceTrust Defaults) = Inr st" "loadDemo env (c_Demo Defaults) = Inr demo"
    and c: "c = \<lparr>c_Server = \<lparr>cf_ListenAddr = envString env ''LISTEN_ADDR'' (cf_ListenAddr (c_Server Defaults))\<rparr>,
             c_Redis = \<lparr>cf_Addr = envString env ''REDIS_ADDR'' (cf_Addr (c_Redis Defaults)),
                        cf_KeyPrefix = envString env ''REDIS_KEY_PREFIX'' (cf_KeyPrefix (c_Redis Defaults)), cf_PingTimeout = ping\<rparr>,
             c_RateLimit = rl, c_Idempotency = \<lparr>cf_IdempotencyTTL = it\<rparr>, c_Velocity = vel,
             c_Lock = \<lparr>cf_LockTTL = lt\<rparr>, c_Middleware = mw, c_Anomaly = an,
             c_Challenge = \<lparr>cf_NewAccountMaxAge = ma\<rparr>, c_StepUp = \<lparr>cf_TokenTTL = tt\<rparr>,
             c_DeviceTrust = st, c_Notify = \<lparr>cf_Enabled = en\<rparr>, c_Demo = demo\<rparr>"
    unfolding Load_def Let_def by auto
  note dd = d [unfolded wf_config_def, simplified]
  show ?thesis
    using dd r(1,3,5,7,8) [THEN envDuration_range] loadRateLimit_range [OF r(2)] loadVelocity_range [OF r(4)]
      loadAnomaly_range [OF r(6)] loadStore_ok [OF r(9)] loadDemo_wf [OF r(10)]
    by (simp add: wf_config_def c envString_nonempty)
qed

lemma Load_unset: "Load (\<lambda>_. []) = Inr Defaults"
  by (simp add: Load_def envString_def envDuration_def envInt_def envBool_def envFloat_def named_def andThen_def
      loadRateLimit_def loadVelocity_def loadMiddleware_def loadAnomaly_def loadStore_def loadDemo_def Let_def)
    (simp add: Defaults_def)

theorem Load_wf_witness: "Load (\<lambda>_. []) = Inr Defaults \<and> wf_config Defaults"
  using Load_wf [OF Load_unset] Load_unset by simp

text \<open>The variables by the type of their values.\<close>

definition durationVars :: "string list" where
  "durationVars =
     [''REDIS_PING_TIMEOUT'', ''IP_RATE_WINDOW'', ''ACCOUNT_RATE_WINDOW'', ''IDEMPOTENCY_TTL'', ''VELOCITY_WINDOW'',
      ''VELOCITY_MIN_INTERVAL'', ''LOCK_TTL'', ''CHALLENGE_NEW_ACCOUNT_MAX_AGE'', ''STEPUP_TOKEN_TTL'']"

definition intVars :: "string list" where
  "intVars = [''IP_RATE_LIMIT'', ''ACCOUNT_RATE_LIMIT'', ''VELOCITY_WITHDRAW_MAX'', ''ANOMALY_LOOKBACK_MINUTES'']"

definition boolVars :: "string list" where
  "boolVars = [''BLOCK_ON_VELOCITY'', ''REQUIRE_IDEMPOTENCY_KEY'', ''REQUIRE_LOCK'', ''NOTIFY_ENABLED'']"

text \<open>A variable is fine when it is not set or its value parses.\<close>

definition parses :: "(string \<Rightarrow> go_error + 'a) \<Rightarrow> environ \<Rightarrow> string \<Rightarrow> bool" where
  "parses p env x \<longleftrightarrow> env x = [] \<or> (\<exists>v. p (env x) = Inr v)"

lemma env_ok:
  "(\<exists>v. envInt env x n = Inr v) \<longleftrightarrow> parses Atoi env x"
  "(\<exists>v. envDuration env x n = Inr v) \<longleftrightarrow> parses ParseDuration env x"
  "(\<exists>v. envBool env x b = Inr v) \<longleftrightarrow> parses ParseBool env x"
  "(\<exists>v. envFloat env x f = Inr v) \<longleftrightarrow> parses ParseFloat env x"
  by (auto simp: parses_def envInt_def envDuration_def envBool_def envFloat_def)

lemma ok_named: "(\<exists>y. named name r k = Inr y) \<longleftrightarrow> (\<exists>v. r = Inr v \<and> (\<exists>y. k v = Inr y))"
  by auto

lemma ok_andThen: "(\<exists>y. andThen r k = Inr y) \<longleftrightarrow> (\<exists>v. r = Inr v \<and> (\<exists>y. k v = Inr y))"
  by auto

lemma group_ok:
  "(\<exists>v. loadRateLimit env rl = Inr v) \<longleftrightarrow> parses Atoi env ''IP_RATE_LIMIT'' \<and> parses ParseDuration env ''IP_RATE_WINDOW'' \<and>
     parses Atoi env ''ACCOUNT_RATE_LIMIT'' \<and> parses ParseDuration env ''ACCOUNT_RATE_WINDOW''"
  "(\<exists>v. loadVelocity env vel = Inr v) \<longleftrightarrow> parses Atoi env ''VELOCITY_WITHDRAW_MAX'' \<and>
     parses ParseDuration env ''VELOCITY_WINDOW'' \<and> parses ParseDuration env ''VELOCITY_MIN_INTERVAL''"
  "(\<exists>v. loadMiddleware env mw = Inr v) \<longleftrightarrow> parses ParseBool env ''BLOCK_ON_VELOCITY'' \<and>
     parses ParseBool env ''REQUIRE_IDEMPOTENCY_KEY'' \<and> parses ParseBool env ''REQUIRE_LOCK''"
  "(\<exists>v. loadAnomaly env an = Inr v) \<longleftrightarrow> parses ParseFloat env ''ANOMALY_SPIKE_MULTIPLIER'' \<and>
     parses Atoi env ''ANOMALY_LOOKBACK_MINUTES''"
  "(\<exists>v. loadStore env \<lparr>cf_Store = ''memory''\<rparr> = Inr v) \<longleftrightarrow> env ''DEVICE_TRUST_STORE'' \<in> {[], ''memory'', ''redis''}"
  "(\<exists>v. loadDemo env demo = Inr v) \<longleftrightarrow> parses parseAccountBalances env ''DEMO_ACCOUNT_BALANCES''"
  by (simp_all add: loadRateLimit_def loadVelocity_def loadMiddleware_def loadAnomaly_def ok_named env_ok del: named_Inr)
    (auto simp: loadStore_def loadDemo_def envString_def parses_def Let_def)

text \<open>C39: loading fails only for a reason: it returns settings exactly when every variable that is set has a value
  its parser accepts and the device store, if set, is one that exists.\<close>

theorem Load_ok_iff:
  "(\<exists>c. Load env = Inr c) \<longleftrightarrow>
     list_all (parses ParseDuration env) durationVars \<and> list_all (parses Atoi env) intVars \<and>
     list_all (parses ParseBool env) boolVars \<and> parses ParseFloat env ''ANOMALY_SPIKE_MULTIPLIER'' \<and>
     env ''DEVICE_TRUST_STORE'' \<in> {[], ''memory'', ''redis''} \<and>
     parses parseAccountBalances env ''DEMO_ACCOUNT_BALANCES''"
proof -
  have store: "c_DeviceTrust Defaults = \<lparr>cf_Store = ''memory''\<rparr>" by (simp add: Defaults_def)
  show ?thesis
    unfolding durationVars_def intVars_def boolVars_def
    by (simp add: Load_def ok_named ok_andThen env_ok group_ok store conj_ac Let_def del: named_Inr andThen_Inr)
qed

section \<open>Writing settings to the environment\<close>

subsection \<open>Trimming and splitting\<close>

lemma stripAny_None: "list_all (\<lambda>e. e \<noteq> [] \<and> hd e \<noteq> c) ps \<Longrightarrow> stripAny ps (c # t) = None"
proof (induction ps)
  case (Cons e ps)
  then show ?case by (cases e) auto
qed simp

lemma spaceEncodings_bytes:
  "list_all (\<lambda>e. e \<noteq> [] \<and> \<not> byteIn 33 126 (hd e)) spaceEncodings"
  "list_all (\<lambda>e. e \<noteq> [] \<and> \<not> byteIn 33 126 (hd e)) (map rev spaceEncodings)"
  by code_simp+

lemma trimLeft_visible:
  assumes "list_all (\<lambda>e. e \<noteq> [] \<and> \<not> byteIn 33 126 (hd e)) ps" and "s = [] \<or> byteIn 33 126 (hd s)"
  shows "trimLeft (length s) ps s = s"
proof (cases s)
  case (Cons c t)
  then have "list_all (\<lambda>e. e \<noteq> [] \<and> hd e \<noteq> c) ps" using assms by (auto simp: list_all_iff)
  then show ?thesis using Cons stripAny_None by simp
qed simp

lemma TrimSpace_visible:
  assumes "s = [] \<or> byteIn 33 126 (hd s) \<and> byteIn 33 126 (last s)"
  shows "TrimSpace s = s"
proof -
  have l: "trimLeft (length s) spaceEncodings s = s" using assms by (intro trimLeft_visible spaceEncodings_bytes) auto
  have "trimLeft (length (rev s)) (map rev spaceEncodings) (rev s) = rev s"
    using assms by (intro trimLeft_visible spaceEncodings_bytes) (auto simp: hd_rev)
  with l show ?thesis by (simp add: TrimSpace_def Let_def)
qed

lemma Split_none: "c \<notin> set x \<Longrightarrow> Split c x = [x]"
  by (induction x) auto

lemma Split_append: "c \<notin> set x \<Longrightarrow> Split c (x @ c # y) = x # Split c y"
  by (induction x) (auto split: list.splits)

lemma Split_Join: "xs \<noteq> [] \<Longrightarrow> list_all (\<lambda>x. c \<notin> set x) xs \<Longrightarrow> Split c (Join xs [c]) = xs"
  by (induction xs "[c]" rule: Join.induct) (simp_all add: Split_none Split_append)

lemma SplitN2_append: "c \<notin> set k \<Longrightarrow> SplitN2 c (k @ c # v) = [k, v]"
proof -
  assume "c \<notin> set k"
  then have "takeWhile (\<lambda>x. x \<noteq> c) (k @ c # v) = k" by (auto simp: takeWhile_append)
  then show ?thesis by (simp add: SplitN2_def Let_def)
qed

subsection \<open>Balances\<close>

definition renderBalances :: "(string \<times> int) list \<Rightarrow> string" where
  "renderBalances b = Join (map (\<lambda>(k, v). k @ ''='' @ FormatInt v) b) '',''"

text \<open>Account names of visible characters other than the separators.\<close>

definition cleanKey :: "string \<Rightarrow> bool" where
  "cleanKey = list_all (\<lambda>c. byteIn 33 126 c \<and> c \<noteq> CHR '','' \<and> c \<noteq> CHR ''='')"

lemma FormatInt_bytes: "c \<in> set (FormatInt n) \<Longrightarrow> isDigit c \<or> c = CHR ''-''"
  by (auto simp: FormatInt_def isDigit_natDigits split: if_splits)

lemma FormatInt_nonempty [simp]: "FormatInt n \<noteq> []"
  by (simp add: FormatInt_def)

lemma digit_visible: "isDigit c \<or> c = CHR ''-'' \<Longrightarrow> byteIn 33 126 c \<and> c \<noteq> CHR '','' \<and> c \<noteq> CHR ''=''"
  by (auto simp: isDigit_def byteIn_def)

lemma TrimSpace_FormatInt: "TrimSpace (FormatInt n) = FormatInt n"
proof -
  have "byteIn 33 126 (hd (FormatInt n))" "byteIn 33 126 (last (FormatInt n))"
    using digit_visible [OF FormatInt_bytes [of _ n]] hd_in_set [of "FormatInt n"] last_in_set [of "FormatInt n"] by simp_all
  then show ?thesis by (intro TrimSpace_visible) simp
qed

lemma TrimSpace_cleanKey: "cleanKey k \<Longrightarrow> TrimSpace k = k"
  by (rule TrimSpace_visible) (cases k; auto simp: cleanKey_def list_all_iff)

lemma update_fresh: "k \<notin> fst ` set b \<Longrightarrow> AList.update k v b = b @ [(k, v)]"
  by (induction b) auto

lemma balancesLoop_render:
  assumes "list_all (\<lambda>(k, v). cleanKey k \<and> in_i64 v) b" and "distinct (map fst (out @ b))"
  shows "balancesLoop (map (\<lambda>(k, v). k @ ''='' @ FormatInt v) b) out = Inr (out @ b)"
  using assms
proof (induction b arbitrary: out)
  case (Cons p b)
  obtain k v where p: "p = (k, v)" by (cases p)
  have k: "cleanKey k" and v: "in_i64 v" and fresh: "k \<notin> fst ` set out" using Cons.prems p by auto
  have eq: "CHR ''='' \<notin> set k" using k by (auto simp: cleanKey_def list_all_iff)
  have "byteIn 33 126 (last (FormatInt v))" using FormatInt_bytes digit_visible last_in_set FormatInt_nonempty by blast
  moreover have "byteIn 33 126 (hd (k @ CHR ''='' # FormatInt v))"
    using k by (cases k) (auto simp: cleanKey_def byteIn_def)
  ultimately have t: "TrimSpace (k @ CHR ''='' # FormatInt v) = k @ CHR ''='' # FormatInt v"
    by (intro TrimSpace_visible) simp
  show ?case
    using Cons.IH [of "out @ [(k, v)]"] Cons.prems p
    by (simp add: t SplitN2_append [OF eq] TrimSpace_FormatInt TrimSpace_cleanKey [OF k] ParseInt_def
        parseInt64_FormatInt [OF v] update_fresh [OF fresh] Let_def)
qed simp

lemma parseAccountBalances_render:
  assumes "list_all (\<lambda>(k, v). cleanKey k) b" and "wf_balances b" and "b \<noteq> []"
  shows "parseAccountBalances (renderBalances b) = Inr b"
proof -
  have "list_all (\<lambda>x. CHR '','' \<notin> set x) (map (\<lambda>(k, v). k @ ''='' @ FormatInt v) b)"
    using assms(1) FormatInt_bytes digit_visible by (fastforce simp: list_all_iff cleanKey_def)
  then have "Split (CHR '','') (renderBalances b) = map (\<lambda>(k, v). k @ ''='' @ FormatInt v) b"
    unfolding renderBalances_def using assms(3) by (intro Split_Join) simp_all
  moreover have "list_all (\<lambda>(k, v). cleanKey k \<and> in_i64 v) b"
    using assms(1,2) by (auto simp: list_all_iff wf_balances_def)
  ultimately show ?thesis
    using balancesLoop_render [of b "[]"] assms(2,3) by (simp add: parseAccountBalances_def wf_balances_def)
qed

subsection \<open>Numbers\<close>

lemma lowerChar_digit: "isDigit c \<or> c = CHR ''-'' \<Longrightarrow> lowerChar c = c"
  by (auto simp: lowerChar_def isUpperAZ_def isDigit_def byteIn_def)

lemma signOf_FormatInt: "signOf (FormatInt n) = (n < 0, natDigits (nat \<bar>n\<bar>))"
  by (simp add: FormatInt_def signOf_digits signOf_def [of "CHR ''-'' # _"])

lemma map_lowerChar_digits: "list_all isDigit s \<Longrightarrow> map lowerChar s = s"
  by (induction s) (simp_all add: lowerChar_digit)

lemma specialFloat_FormatInt: "specialFloat (FormatInt n) = None"
proof -
  have low: "map lowerChar (natDigits m) = natDigits m" for m by (simp add: map_lowerChar_digits)
  have "map lowerChar (FormatInt n) = FormatInt n" using low by (simp add: FormatInt_def lowerChar_digit)
  moreover have "CHR ''n'' \<notin> set (natDigits m)" for m by (rule not_natDigits) simp
  moreover from this have "CHR ''n'' \<notin> set (FormatInt n)" by (simp add: FormatInt_def)
  moreover from calculation(2) have "natDigits m \<noteq> ''inf''" "natDigits m \<noteq> ''infinity''" for m
    by (metis list.set_intros(1) list.set_intros(2))+
  ultimately have "natDigits (nat \<bar>n\<bar>) \<noteq> ''inf'' \<and> natDigits (nat \<bar>n\<bar>) \<noteq> ''infinity'' \<and> map lowerChar (FormatInt n) \<noteq> ''nan''"
    by auto
  then show ?thesis by (simp add: specialFloat_def signOf_FormatInt low)
qed

lemma mantissaLoop_digits:
  "list_all isDigit s \<Longrightarrow> \<not> mt_dot m \<Longrightarrow> s \<noteq> [] \<or> mt_digits m \<Longrightarrow>
     mantissaLoop False s m = (m\<lparr>mt_value := readDigits (mt_value m) s, mt_digits := True\<rparr>, [])"
proof (induction s arbitrary: m)
  case (Cons c s)
  have c: "c \<noteq> CHR ''_''" "c \<noteq> CHR ''.''" "hexVal c = digitVal c"
    using Cons.prems(1) by (auto simp: isDigit_def byteIn_def hexVal_def)
  show ?case using Cons c by simp
qed simp

lemma readFloat_FormatInt: "readFloat (FormatInt n) = Some (of_int n)"
proof -
  let ?d = "natDigits (nat \<bar>n\<bar>)"
  have "isDigit b" if "?d = z # b # r" for z b r using digits_natDigits [of "nat \<bar>n\<bar>"] that by simp
  then have hex: "(case ?d of z # b # r \<Rightarrow> z = CHR ''0'' \<and> lowerChar b = CHR ''x'' \<and> r \<noteq> [] | _ \<Rightarrow> False) = False"
    using lowerChar_digit by (auto simp: isDigit_def byteIn_def split: list.splits)
  show ?thesis
    by (simp add: readFloat_def signOf_FormatInt hex mantissaLoop_digits readExponent_def Let_def)
qed

lemma ParseFloat_FormatInt: "\<bar>n\<bar> < 2 ^ 53 \<Longrightarrow> ParseFloat (FormatInt n) = Inr (Fin (of_int n))"
proof -
  assume n: "\<bar>n\<bar> < 2 ^ 53"
  then have "\<bar>real_of_int n\<bar> < 2 ^ 53" by (metis of_int_abs of_int_less_iff of_int_numeral of_int_power)
  also have "(2 :: real) ^ 53 \<le> 2 ^ 1024" by (rule power_increasing) simp_all
  finally have "round64 (of_int n) = Fin (of_int n)" using n by (simp add: round64_def Let_def)
  then show ?thesis by (simp add: ParseFloat_def specialFloat_FormatInt readFloat_FormatInt)
qed

subsection \<open>The environment of some settings\<close>

definition renderBool :: "bool \<Rightarrow> string" where
  "renderBool b = (if b then ''true'' else ''false'')"

definition renderFloat :: "float64 \<Rightarrow> string" where
  "renderFloat f = (case f of Fin x \<Rightarrow> FormatInt \<lfloor>x\<rfloor> | Inf n \<Rightarrow> (if n then ''-Inf'' else ''+Inf'') | NaN \<Rightarrow> ''NaN'')"

definition renderEnv :: "Config \<Rightarrow> environ" where
  "renderEnv c x = (case map_of
     [(''LISTEN_ADDR'', cf_ListenAddr (c_Server c)), (''REDIS_ADDR'', cf_Addr (c_Redis c)),
      (''REDIS_KEY_PREFIX'', cf_KeyPrefix (c_Redis c)), (''REDIS_PING_TIMEOUT'', dur_String (cf_PingTimeout (c_Redis c))),
      (''IP_RATE_LIMIT'', FormatInt (cf_IPLimit (c_RateLimit c))), (''IP_RATE_WINDOW'', dur_String (cf_IPWindow (c_RateLimit c))),
      (''ACCOUNT_RATE_LIMIT'', FormatInt (cf_AccountLimit (c_RateLimit c))),
      (''ACCOUNT_RATE_WINDOW'', dur_String (cf_AccountWindow (c_RateLimit c))),
      (''IDEMPOTENCY_TTL'', dur_String (cf_IdempotencyTTL (c_Idempotency c))),
      (''VELOCITY_WITHDRAW_MAX'', FormatInt (cf_WithdrawMaxPerWindow (c_Velocity c))),
      (''VELOCITY_WINDOW'', dur_String (cf_VelocityWindow (c_Velocity c))),
      (''VELOCITY_MIN_INTERVAL'', dur_String (cf_MinInterval (c_Velocity c))),
      (''LOCK_TTL'', dur_String (cf_LockTTL (c_Lock c))),
      (''BLOCK_ON_VELOCITY'', renderBool (cf_BlockOnVelocity (c_Middleware c))),
      (''REQUIRE_IDEMPOTENCY_KEY'', renderBool (cf_RequireIdempotencyKey (c_Middleware c))),
      (''REQUIRE_LOCK'', renderBool (cf_RequireLock (c_Middleware c))),
      (''ANOMALY_SPIKE_MULTIPLIER'', renderFloat (cf_SpikeMultiplier (c_Anomaly c))),
      (''ANOMALY_LOOKBACK_MINUTES'', FormatInt (cf_LookbackMinutes (c_Anomaly c))),
      (''CHALLENGE_NEW_ACCOUNT_MAX_AGE'', dur_String (cf_NewAccountMaxAge (c_Challenge c))),
      (''STEPUP_TOKEN_TTL'', dur_String (cf_TokenTTL (c_StepUp c))), (''DEVICE_TRUST_STORE'', cf_Store (c_DeviceTrust c)),
      (''NOTIFY_ENABLED'', renderBool (cf_Enabled (c_Notify c))),
      (''DEMO_ACCOUNT_BALANCES'', renderBalances (cf_AccountBalances (c_Demo c)))] x of None \<Rightarrow> [] | Some v \<Rightarrow> v)"

lemma env_render:
  "env x = FormatInt n \<Longrightarrow> in_i64 n \<Longrightarrow> envInt env x d = Inr n"
  "env x = dur_String n \<Longrightarrow> in_i64 n \<Longrightarrow> envDuration env x d = Inr n"
  "env x = renderBool b \<Longrightarrow> envBool env x fb = Inr b"
  "env x = renderFloat f \<Longrightarrow> f = Fin (of_int m) \<Longrightarrow> \<bar>m\<bar> < 2 ^ 53 \<Longrightarrow> envFloat env x ff = Inr f"
  "env x = s \<Longrightarrow> s \<noteq> [] \<Longrightarrow> envString env x fs = s"
proof -
  have "dur_String n \<noteq> []" using dur_digits_start by (simp add: dur_String_digits)
  then show "env x = dur_String n \<Longrightarrow> in_i64 n \<Longrightarrow> envDuration env x d = Inr n"
    by (simp add: envDuration_def ParseDuration_String)
qed (simp_all add: envInt_def Atoi_def parseInt64_FormatInt envBool_def renderBool_def ParseBool_def envFloat_def
    renderFloat_def ParseFloat_FormatInt envString_def)

lemma renderBalances_nonempty: "b \<noteq> [] \<Longrightarrow> renderBalances b \<noteq> []"
  by (cases b; cases "tl b") (auto simp: renderBalances_def split: prod.splits)

text \<open>C38: settings survive the environment. For well-formed settings whose account names contain no separator or
  white space and whose multiplier is a whole number, writing every field to its variable the way Go prints it and
  loading the environment gives the same settings back.\<close>

theorem Load_roundtrip:
  assumes "wf_config c" and "cf_SpikeMultiplier (c_Anomaly c) = Fin (of_int m)" and "\<bar>m\<bar> < 2 ^ 53"
    and "list_all (\<lambda>(k, v). cleanKey k) (cf_AccountBalances (c_Demo c))"
  shows "Load (renderEnv c) = Inr c"
proof -
  let ?env = "renderEnv c"
  have wf: "list_all in_i64 [cf_PingTimeout (c_Redis c), cf_IPLimit (c_RateLimit c), cf_IPWindow (c_RateLimit c),
        cf_AccountLimit (c_RateLimit c), cf_AccountWindow (c_RateLimit c), cf_IdempotencyTTL (c_Idempotency c),
        cf_WithdrawMaxPerWindow (c_Velocity c), cf_VelocityWindow (c_Velocity c), cf_MinInterval (c_Velocity c),
        cf_LockTTL (c_Lock c), cf_LookbackMinutes (c_Anomaly c), cf_NewAccountMaxAge (c_Challenge c),
        cf_TokenTTL (c_StepUp c)]"
    and strs: "cf_ListenAddr (c_Server c) \<noteq> []" "cf_Addr (c_Redis c) \<noteq> []" "cf_KeyPrefix (c_Redis c) \<noteq> []"
      "cf_Store (c_DeviceTrust c) \<in> {''memory'', ''redis''}"
    and bal: "cf_AccountBalances (c_Demo c) \<noteq> []" "wf_balances (cf_AccountBalances (c_Demo c))"
    using assms(1) by (simp_all add: wf_config_def)
  have rl: "loadRateLimit ?env d = Inr (c_RateLimit c)" for d
    using wf by (simp add: loadRateLimit_def named_def env_render renderEnv_def)
  have vel: "loadVelocity ?env d = Inr (c_Velocity c)" for d
    using wf by (simp add: loadVelocity_def named_def env_render renderEnv_def)
  have mw: "loadMiddleware ?env d = Inr (c_Middleware c)" for d
    by (simp add: loadMiddleware_def named_def env_render renderEnv_def)
  have an: "loadAnomaly ?env d = Inr (c_Anomaly c)" for d
    using wf env_render(4) [OF _ assms(2,3)] by (simp add: loadAnomaly_def named_def env_render(1) renderEnv_def)
  have st: "loadStore ?env d = Inr (c_DeviceTrust c)" for d
    using strs(4) by (auto simp: loadStore_def envString_def renderEnv_def)
  have demo: "loadDemo ?env d = Inr (c_Demo c)" for d
    using parseAccountBalances_render [OF assms(4) bal(2,1)] renderBalances_nonempty [OF bal(1)]
    by (simp add: loadDemo_def named_def renderEnv_def)
  show ?thesis
    using wf strs
    by (simp add: Load_def rl vel mw an st demo andThen_def named_def env_render renderEnv_def Let_def)
qed

theorem Load_roundtrip_witness: "Load (renderEnv Defaults) = Inr Defaults"
proof -
  have "list_all (\<lambda>(k, v). cleanKey k) (cf_AccountBalances (c_Demo Defaults))" by code_simp
  moreover have "cf_SpikeMultiplier (c_Anomaly Defaults) = Fin (of_int 5)" by (simp add: Defaults_def)
  ultimately show ?thesis using Load_roundtrip [OF wf_Defaults] by simp
qed

end
