(* ===== verification/App.thy ===== *)
theory App
  imports Middleware Wallet Stepup Challenge Devicetrust_Redis Anomaly Notify Config
begin

text \<open>
  Package \<^verbatim>\<open>example/app\<close>: the demo service with its HTTP handlers (\<^verbatim>\<open>service.go\<close>) and the server that wires every other
  package around it (\<^verbatim>\<open>app.go\<close>). The state of the process is one record, \<open>appWorld\<close>: the Redis server, the sequence
  numbers of the two sliding windows, and the in-memory stores and maps. A request runs as one step; the clock readings
  and random bytes it uses are a \<open>requestEnv\<close>. Log lines are left out.
\<close>

section \<open>State\<close>

record ('l, 'r) appWorld = "'l memWorld" +
  aw_redis :: 'r
  aw_ipSeq :: int
  aw_acctSeq :: int
  aw_challenges :: challengeMemory
  aw_tokens :: tokenMemory
  aw_devices :: deviceMemory
  aw_ledger :: ledgerMemory
  aw_accounts :: "string \<rightharpoonup> Account"
  aw_created :: "string \<rightharpoonup> time"
  aw_notifier :: "unit notifier option"

text \<open>What one request reads from clocks and the random source; \<open>re_device\<close> is the clock of the Redis server when the
  device store is asked by the step-up check (0) and by the handler (1).\<close>

record requestEnv =
  re_call :: callEnv
  re_stepup :: "nat \<Rightarrow> time"
  re_stepupRnd :: "go_error + bytes"
  re_spike :: time
  re_age :: time
  re_challenge :: "nat \<Rightarrow> time"
  re_challengeRnd :: "go_error + bytes"
  re_record :: time
  re_created :: time
  re_ledger :: time
  re_device :: "nat \<Rightarrow> int"
  re_trust :: time
  re_notify :: time

subsection \<open>The stores as parts of the state\<close>

definition onRedis :: "('r \<Rightarrow> 'a \<times> 'r) \<Rightarrow> ('l, 'r) appWorld \<Rightarrow> 'a \<times> ('l, 'r) appWorld" where
  "onRedis = onPart aw_redis (\<lambda>s w. w\<lparr>aw_redis := s\<rparr>)"

definition app_ipLimiter :: "'r redis \<Rightarrow> redisSlidingWindow \<Rightarrow> ('l, 'r) appWorld limiter" where
  "app_ipLimiter R s c now key =
     onPart (\<lambda>w. (aw_ipSeq w, aw_redis w)) (\<lambda>(n, r) w. w\<lparr>aw_ipSeq := n, aw_redis := r\<rparr>) (slidingWindow_Allow R s c now key)"

definition app_acctLimiter :: "'r redis \<Rightarrow> redisSlidingWindow \<Rightarrow> ('l, 'r) appWorld limiter" where
  "app_acctLimiter R s c now key =
     onPart (\<lambda>w. (aw_acctSeq w, aw_redis w)) (\<lambda>(n, r) w. w\<lparr>aw_acctSeq := n, aw_redis := r\<rparr>) (slidingWindow_Allow R s c now key)"

definition app_idemStore :: "'r redis \<Rightarrow> idemRedis \<Rightarrow> ('l, 'r) appWorld idemStore" where
  "app_idemStore R s =
     \<lparr>store_Claim = (\<lambda>c now key d. onRedis (idem_redis_Claim R s c now key d)),
      store_Complete = (\<lambda>c now key b d. onRedis (idem_redis_Complete R s c now key b d))\<rparr>"

definition app_velStore :: "'r redis \<Rightarrow> velRedis \<Rightarrow> ('l, 'r) appWorld velStore" where
  "app_velStore R s =
     \<lparr>vs_Record = (\<lambda>c now key ts. onRedis (vel_redis_Record R s c now key ts)),
      vs_Count = (\<lambda>c now key d. onRedis (vel_redis_Count R s c now key d)),
      vs_Last = (\<lambda>c now key. onRedis (vel_redis_Last R s c now key))\<rparr>"

definition app_lockClient :: "'r redis \<Rightarrow> lockRedis \<Rightarrow> ('l, 'r) appWorld lockClient" where
  "app_lockClient R s =
     \<lparr>client_Acquire = (\<lambda>c now rnd key d. onRedis (lock_redis_Acquire R s c now rnd key d)),
      client_Release = (\<lambda>h c now. onRedis (lock_redis_Release R h c now))\<rparr>"

definition app_counter :: "'r redis \<Rightarrow> redisCounter \<Rightarrow> ('l, 'r) appWorld counter" where
  "app_counter R s =
     \<lparr>ctr_Increment = (\<lambda>c now metric ts delta. onRedis (anomaly_redis_Increment R s c now metric ts delta)),
      ctr_CountInWindow = (\<lambda>c now metric a b. onRedis (anomaly_redis_CountInWindow R s c now metric a b))\<rparr>"

definition app_challengeStore :: "('l, 'r) appWorld challengeStore" where
  "app_challengeStore =
     \<lparr>cs_Issue = (\<lambda>c now rnd a x level ttl. onPart aw_challenges (\<lambda>s w. w\<lparr>aw_challenges := s\<rparr>) (challenge_memory_Issue c now rnd a x level ttl)),
      cs_Verify = (\<lambda>c now a x t. onPart aw_challenges (\<lambda>s w. w\<lparr>aw_challenges := s\<rparr>) (challenge_memory_Verify c now a x t)),
      cs_Consume = (\<lambda>c a x t. onPart aw_challenges (\<lambda>s w. w\<lparr>aw_challenges := s\<rparr>) (challenge_memory_Consume c a x t))\<rparr>"

definition app_tokenStore :: "('l, 'r) appWorld tokenStore" where
  "app_tokenStore =
     \<lparr>ts_Issue = (\<lambda>c now rnd a x ttl. onPart aw_tokens (\<lambda>s w. w\<lparr>aw_tokens := s\<rparr>) (token_memory_Issue c now rnd a x ttl)),
      ts_MarkSolved = (\<lambda>c a x t. onPart aw_tokens (\<lambda>s w. w\<lparr>aw_tokens := s\<rparr>) (token_memory_MarkSolved c a x t)),
      ts_IsSolved = (\<lambda>c now a x t. onPart aw_tokens (\<lambda>s w. w\<lparr>aw_tokens := s\<rparr>) (token_memory_IsSolved c now a x t))\<rparr>"

definition app_deviceMemory :: "('l, 'r) appWorld deviceStore" where
  "app_deviceMemory =
     \<lparr>ds_Get = (\<lambda>c a f. onPart aw_devices (\<lambda>s w. w\<lparr>aw_devices := s\<rparr>) (device_memory_Get c a f)),
      ds_UpsertSeen = (\<lambda>c a f ts. onPart aw_devices (\<lambda>s w. w\<lparr>aw_devices := s\<rparr>) (device_memory_UpsertSeen c a f ts)),
      ds_MarkTrusted = (\<lambda>c a f ts. onPart aw_devices (\<lambda>s w. w\<lparr>aw_devices := s\<rparr>) (device_memory_MarkTrusted c a f ts))\<rparr>"

definition app_deviceRedis :: "'r redis \<Rightarrow> deviceRedis \<Rightarrow> (time \<Rightarrow> int) \<Rightarrow> int \<Rightarrow> ('l, 'r) appWorld deviceStore" where
  "app_deviceRedis R s zone t =
     \<lparr>ds_Get = (\<lambda>c a f. onRedis (device_redis_Get R s t c a f)),
      ds_UpsertSeen = (\<lambda>c a f ts. onRedis (device_redis_UpsertSeen R s zone t c a f ts)),
      ds_MarkTrusted = (\<lambda>c a f ts. onRedis (device_redis_MarkTrusted R s zone t c a f ts))\<rparr>"

definition app_ledgerStore :: "('l, 'r) appWorld ledgerStore" where
  "app_ledgerStore =
     \<lparr>lst_Append = (\<lambda>c rec. onPart aw_ledger (\<lambda>s w. w\<lparr>aw_ledger := s\<rparr>) (ledger_memory_Append c rec)),
      lst_ListByAccount = (\<lambda>c a. onPart aw_ledger (\<lambda>s w. w\<lparr>aw_ledger := s\<rparr>) (ledger_memory_ListByAccount c a)),
      lst_SetRecordHashForTest = (\<lambda>c a i h. onPart aw_ledger (\<lambda>s w. w\<lparr>aw_ledger := s\<rparr>) (ledger_memory_SetRecordHashForTest c a i h))\<rparr>"

lemmas app_store_defs [store_simps] =
  onRedis_def app_ipLimiter_def app_acctLimiter_def app_idemStore_def app_velStore_def app_lockClient_def app_counter_def
  app_challengeStore_def app_tokenStore_def app_deviceMemory_def app_deviceRedis_def app_ledgerStore_def

section \<open>The service\<close>

text \<open>The notifier is part of the state; it is nil when alerts are switched off. A device client is given the clock of
  the Redis server at its call.\<close>

record ('l, 'r) Service =
  svc_ledger :: "('l, 'r) appWorld Ledger"
  svc_anomaly :: "('l, 'r) appWorld detector"
  svc_devices :: "int \<Rightarrow> ('l, 'r) appWorld deviceClient"

text \<open>\<open>now\<close> is the clock reading taken for each account.\<close>

definition NewService :: "(string \<times> int) list \<Rightarrow> (int \<Rightarrow> ('l, 'r) appWorld deviceClient) \<Rightarrow> unit notifier option \<Rightarrow>
    ('l, 'r) appWorld detector \<Rightarrow> (string \<Rightarrow> time) \<Rightarrow> ('l, 'r) appWorld \<Rightarrow> ('l, 'r) Service \<times> ('l, 'r) appWorld" where
  "NewService seed clients notifier anomalyDet now w =
     (\<lparr>svc_ledger = ledger_New app_ledgerStore (Some app_ledgerStore), svc_anomaly = anomalyDet, svc_devices = clients\<rparr>,
      w\<lparr>aw_ledger := ledger_NewMemoryStore,
        aw_accounts := map_of (map (\<lambda>(id, bal). (id, NewAccount bal)) seed),
        aw_created := map_of (map (\<lambda>(id, bal). (id, time_Add (now id) (- 30 * 24 * hour))) seed),
        aw_notifier := notifier\<rparr>)"

definition AccountAge :: "time \<Rightarrow> string \<Rightarrow> ('l, 'r) appWorld \<Rightarrow> duration" where
  "AccountAge now accountID w = (case aw_created w accountID of Some t \<Rightarrow> time_Sub now t | None \<Rightarrow> 0)"

text \<open>\<^verbatim>\<open>json.NewDecoder(r.Body).Decode(&req)\<close> into \<^verbatim>\<open>withdrawRequest\<close>: the amount, or \<open>None\<close> for an error.\<close>

fun storeAmount :: "(string \<times> json) list \<Rightarrow> int \<Rightarrow> int option" where
  "storeAmount [] amount = Some amount"
| "storeAmount ((key, v) # ms) amount =
     (if nameMatches ''amount_cents'' key
      then (case storeInt v amount of None \<Rightarrow> None | Some n \<Rightarrow> storeAmount ms n)
      else storeAmount ms amount)"

definition decodeWithdraw :: "httpBody \<Rightarrow> int option" where
  "decodeWithdraw body =
     (case decodeFirst body of
        None \<Rightarrow> None
      | Some JsonNull \<Rightarrow> Some 0
      | Some (JsonObject ms) \<Rightarrow> storeAmount ms 0
      | Some _ \<Rightarrow> None)"

definition errorBody :: "string \<Rightarrow> string" where
  "errorBody msg = ''{'' @ quoted ''error'' @ '':'' @ quoted msg @ ''}''"

text \<open>\<^verbatim>\<open>if _, ok := s.accounts[accountID]; !ok\<close>: a new account is opened with nothing in it.\<close>

definition ensureAccount :: "time \<Rightarrow> string \<Rightarrow> ('l, 'r) appWorld \<Rightarrow> ('l, 'r) appWorld" where
  "ensureAccount now accountID w =
     (case aw_accounts w accountID of
        Some _ \<Rightarrow> w
      | None \<Rightarrow> w\<lparr>aw_accounts := (aw_accounts w)(accountID \<mapsto> NewAccount 0), aw_created := (aw_created w)(accountID \<mapsto> now)\<rparr>)"

definition accountIn :: "('l, 'r) appWorld \<Rightarrow> string \<Rightarrow> Account" where
  "accountIn w accountID = (case aw_accounts w accountID of Some a \<Rightarrow> a | None \<Rightarrow> NewAccount 0)"

definition alertUnknown :: "requestEnv \<Rightarrow> bool \<Rightarrow> string \<Rightarrow> string \<Rightarrow> string \<Rightarrow> ('l, 'r) appWorld \<Rightarrow> ('l, 'r) appWorld" where
  "alertUnknown env known accountID fp remote w =
     (case aw_notifier w of
        Some n \<Rightarrow>
          if \<not> known then w\<lparr>aw_notifier := Some (snd (AfterSensitiveAction (re_notify env) accountID ''withdraw'' fp remote n))\<rparr>
          else w
      | None \<Rightarrow> w)"

definition Service_Withdraw :: "('l, 'r) Service \<Rightarrow> requestEnv \<Rightarrow> ('l, 'r) appWorld handler" where
  "Service_Withdraw s env r w =
     (let accountID = header_Get r ''X-Account-ID''; fp = FingerprintFromRequest r [] in
      case decodeWithdraw (rq_body r) of
        None \<Rightarrow> (http_Error (errorBody ''invalid json'') 400, Returned (), w)
      | Some amount \<Rightarrow>
          let w1 = snd (anomaly_Record (svc_anomaly s) (rq_ctx r) (re_record env) MetricWithdrawalAttempts 1 w);
              w2 = ensureAccount (re_created env) accountID w1 in
          (case Withdraw (svc_ledger s) (rq_ctx r) (re_ledger env) amount accountID ''api'' (accountIn w2 accountID, w2) of
             (err, acct, w3) \<Rightarrow>
               let w4 = w3\<lparr>aw_accounts := (aw_accounts w3)(accountID \<mapsto> acct)\<rparr> in
               (case err of
                  Some e \<Rightarrow>
                    ([SetHeader ''Content-Type'' ''application/json'',
                      WriteHeader (if e = ErrInvalidAmount \<or> e = ErrOverflow then 400 else 402),
                      Encode [(''error'', JStr (error_Error e))]], Returned (), w4)
                | None \<Rightarrow>
                    (case IsKnownDevice (svc_devices s (re_device env 1)) (rq_ctx r) accountID fp w4 of (res, w5) \<Rightarrow>
                       let known = (case res of Inl _ \<Rightarrow> False | Inr b \<Rightarrow> b);
                           w6 = alertUnknown env known accountID fp (rq_RemoteAddr r) w5 in
                       ([SetHeader ''Content-Type'' ''application/json'',
                         Encode [(''account_id'', JStr accountID), (''amount_cents'', JNum amount),
                                 (''available_cents'', JNum (AvailableCents acct)), (''balance_cents'', JNum (TotalCents acct)),
                                 (''status'', JStr ''completed'')]], Returned (), w6)))))"

definition TrustDevice :: "('l, 'r) Service \<Rightarrow> requestEnv \<Rightarrow> ('l, 'r) appWorld handler" where
  "TrustDevice s env r w =
     (let accountID = header_Get r ''X-Account-ID''; fp = FingerprintFromRequest r [] in
      if accountID = [] \<or> fp = [] then
        (http_Error (errorBody ''X-Account-ID and X-Device-ID required'') 400, Returned (), w)
      else
        (case MarkDeviceTrusted (svc_devices s (re_device env 0)) (rq_ctx r) (re_trust env) accountID fp
                (ensureAccount (re_created env) accountID w) of
           (Some e, w') \<Rightarrow> (http_Error (errorBody ''trust failed'') 500, Returned (), w')
         | (None, w') \<Rightarrow>
             ([SetHeader ''Content-Type'' ''application/json'',
               Encode [(''account_id'', JStr accountID), (''fingerprint'', JStr fp), (''status'', JStr ''trusted'')]],
              Returned (), w')))"

definition Service_Balance :: "('l, 'r) Service \<Rightarrow> ('l, 'r) appWorld handler" where
  "Service_Balance s r w =
     (let accountID = header_Get r ''X-Account-ID'' in
      if accountID = [] then (http_Error (errorBody ''X-Account-ID required'') 400, Returned (), w)
      else
        (case aw_accounts w accountID of
           None \<Rightarrow>
             ([SetHeader ''Content-Type'' ''application/json'',
               Encode [(''account_id'', JStr accountID), (''available_cents'', JNum 0), (''balance_cents'', JNum 0)]],
              Returned (), w)
         | Some acct \<Rightarrow>
             ([SetHeader ''Content-Type'' ''application/json'',
               Encode [(''account_id'', JStr accountID), (''available_cents'', JNum (AvailableCents acct)),
                       (''balance_cents'', JNum (TotalCents acct))]],
              Returned (), w)))"

section \<open>The server\<close>

text \<open>The fields of \<^verbatim>\<open>Server\<close>; the mux takes the clock readings of the request and the path of its URL. A path that is
  not in clean form is redirected by \<^verbatim>\<open>net/http\<close> before it gets here.\<close>

record ('l, 'r) Server =
  sv_Mux :: "requestEnv \<Rightarrow> string \<Rightarrow> ('l, 'r) appWorld handler"
  sv_DeviceTrust :: "int \<Rightarrow> ('l, 'r) appWorld deviceClient"
  sv_StepUp :: "('l, 'r) appWorld stepupManager"
  sv_Challenge :: "('l, 'r) appWorld challengeManager"
  sv_Anomaly :: "('l, 'r) appWorld detector"
  sv_Service :: "('l, 'r) Service"

text \<open>The client given the clock of the Redis server; \<open>zone\<close> is the local time zone.\<close>

definition newDeviceTrust :: "'r redis \<Rightarrow> (time \<Rightarrow> int) \<Rightarrow> Config \<Rightarrow> int \<Rightarrow> ('l, 'r) appWorld deviceClient" where
  "newDeviceTrust R zone cfg t =
     devicetrust_New app_deviceMemory
       (if cf_Store (c_DeviceTrust cfg) = ''redis''
        then Some (app_deviceRedis R (devicetrust_NewRedisStore (cf_KeyPrefix (c_Redis cfg) @ '':devicetrust'')) zone t)
        else Some app_deviceMemory)"

definition appConfig :: "'r redis \<Rightarrow> Config \<Rightarrow> redisSlidingWindow \<Rightarrow> redisSlidingWindow \<Rightarrow> ('l, 'r) appWorld guardConfig" where
  "appConfig R cfg ipRateLimiter accountRateLimiter =
     (let prefix = cf_KeyPrefix (c_Redis cfg) in
      \<lparr>cfg_IPRateLimiter = Some (app_ipLimiter R ipRateLimiter),
       cfg_RateLimiter = Some (app_acctLimiter R accountRateLimiter),
       cfg_IdemStore = Some (app_idemStore R (idempotency_NewRedisStore prefix)),
       cfg_IdemTTL = cf_IdempotencyTTL (c_Idempotency cfg),
       cfg_LockClient = Some (app_lockClient R (lock_NewRedis prefix)),
       cfg_LockTTL = cf_LockTTL (c_Lock cfg),
       cfg_VelStore = Some (app_velStore R (velocity_NewRedisStore prefix)),
       cfg_VelRules =
         [RateOverWindow_Check \<lparr>row_N = cf_WithdrawMaxPerWindow (c_Velocity cfg), row_Window = cf_VelocityWindow (c_Velocity cfg),
                                row_Label = ''withdrawal attempts''\<rparr>,
          MinInterval_Check \<lparr>mi_Min = cf_MinInterval (c_Velocity cfg), mi_Label = ''withdrawal''\<rparr>]\<rparr>)"

definition velocityFlagged :: "httpRequest \<Rightarrow> string \<Rightarrow> bool" where
  "velocityFlagged r accountID = rq_velocityFlag r"

definition challengeSignals :: "('l, 'r) appWorld detector \<Rightarrow> Config \<Rightarrow> requestEnv \<Rightarrow> httpRequest \<Rightarrow> string \<Rightarrow> ('l, 'r) appWorld \<Rightarrow>
    RiskSignals \<times> ('l, 'r) appWorld" where
  "challengeSignals det cfg env r accountID w =
     (case DetectSpike det (rq_ctx r) (re_spike env) MetricWithdrawalAttempts (cf_LookbackMinutes (c_Anomaly cfg)) w of
        (res, w') \<Rightarrow>
          (\<lparr>rs_AccountAge = AccountAge (re_age env) accountID w',
            rs_PlatformSpike = (case res of Inl _ \<Rightarrow> False | Inr sp \<Rightarrow> sp_spike sp),
            rs_VelocityFlagged = velocityFlagged r accountID,
            rs_NewAccountMaxAge = cf_NewAccountMaxAge (c_Challenge cfg)\<rparr>, w'))"

definition withdrawOptions :: "Config \<Rightarrow> ('l, 'r) appWorld Options" where
  "withdrawOptions cfg =
     \<lparr>o_IPKeyFunc = None, o_KeyFunc = None, o_LockKeyFunc = None, o_IdempotencyKeyFunc = None, o_Action = ''withdraw'',
      o_RequireLock = cf_RequireLock (c_Middleware cfg),
      o_RequireIdempotencyKey = cf_RequireIdempotencyKey (c_Middleware cfg),
      o_FailClosed = None, o_BlockOnVelocity = Some (cf_BlockOnVelocity (c_Middleware cfg)), o_Audit = None,
      o_OnVelocityFlag = Some (\<lambda>r reason w. ([], r\<lparr>rq_velocityFlag := True\<rparr>, w)), o_OnBlocked = None\<rparr>"

definition challengeOpts :: "('l, 'r) appWorld detector \<Rightarrow> Config \<Rightarrow> requestEnv \<Rightarrow> ('l, 'r) appWorld challengeOptions" where
  "challengeOpts det cfg env =
     \<lparr>co_AccountKey = None, co_Action = ''withdraw'', co_Signals = Some (challengeSignals det cfg env)\<rparr>"

definition stepupOpts :: "(int \<Rightarrow> ('l, 'r) appWorld deviceClient) \<Rightarrow> requestEnv \<Rightarrow> ('l, 'r) appWorld stepupOptions" where
  "stepupOpts clients env =
     \<lparr>so_AccountKey = None, so_DeviceFP = Some (\<lambda>r. FingerprintFromRequest r []), so_Action = ''withdraw'',
      so_KnownDevice = Some (\<lambda>r accountID. IsKnownDevice (clients (re_device env 0)) (rq_ctx r) accountID (FingerprintFromRequest r [])),
      so_VelocityFlagged = Some velocityFlagged\<rparr>"

text \<open>The chain behind \<^verbatim>\<open>/withdraw\<close>: the guard's layers, then step-up, then the captcha challenge, then the handler.\<close>

definition withdrawChain :: "('l, 'r) appWorld guard \<Rightarrow> Config \<Rightarrow> ('l, 'r) appWorld stepupManager \<Rightarrow>
    ('l, 'r) appWorld challengeManager \<Rightarrow> ('l, 'r) Service \<Rightarrow> requestEnv \<Rightarrow> ('l, 'r) appWorld handler" where
  "withdrawChain g cfg stepUp challengeMgr svc env =
     Handler g (withdrawOptions cfg) (re_call env)
       (stepup_Middleware stepUp (stepupOpts (svc_devices svc) env) (re_stepup env) (re_stepupRnd env)
         (challenge_Middleware challengeMgr (challengeOpts (svc_anomaly svc) cfg env) (re_challenge env) (re_challengeRnd env)
           (Service_Withdraw svc env)))"

definition healthHandler :: "'w handler" where
  "healthHandler r w = ([WriteHeader 200, Write ''ok''], Returned (), w)"

definition serveMux :: "(string \<times> 'w handler) list \<Rightarrow> string \<Rightarrow> 'w handler" where
  "serveMux routes path =
     (case map_of routes path of
        Some h \<Rightarrow> h
      | None \<Rightarrow> (\<lambda>r w. (http_Error ''404 page not found'' 404, Returned (), w)))"

text \<open>\<^verbatim>\<open>New(cfg, client)\<close>, on the state the process starts with; \<open>client\<close> is \<open>False\<close> for a nil client.\<close>

definition New :: "'l rateLib \<Rightarrow> 'r redis \<Rightarrow> (time \<Rightarrow> int) \<Rightarrow> bool \<Rightarrow> Config \<Rightarrow> (string \<Rightarrow> time) \<Rightarrow> ('l, 'r) appWorld \<Rightarrow>
    go_error + ('l, 'r) Server \<times> ('l, 'r) appWorld" where
  "New L R zone client cfg now w =
     (let prefix = cf_KeyPrefix (c_Redis cfg); rl = c_RateLimit cfg in
      case NewRedisSlidingWindow client (prefix @ '':ip'') \<lparr>swc_Limit = cf_IPLimit rl, swc_Window = cf_IPWindow rl\<rparr> of
        Inl e \<Rightarrow> Inl e
      | Inr ipRateLimiter \<Rightarrow>
     (case NewRedisSlidingWindow client (prefix @ '':acct'') \<lparr>swc_Limit = cf_AccountLimit rl, swc_Window = cf_AccountWindow rl\<rparr> of
        Inl e \<Rightarrow> Inl e
      | Inr accountRateLimiter \<Rightarrow>
          (case floodguard_New L (appConfig R cfg ipRateLimiter accountRateLimiter)
                  (w\<lparr>aw_ipSeq := 0, aw_acctSeq := 0, aw_challenges := NewMemoryChallengeStore, aw_tokens := NewMemoryTokenStore,
                     aw_devices := devicetrust_NewMemoryStore\<rparr>) of
             (guard, w1) \<Rightarrow>
               let clients = newDeviceTrust R zone cfg;
                   stepUp = stepup_NewManager app_challengeStore (Some DefaultAssessor_Assess) (Some app_challengeStore)
                              [stepup_WithTokenTTL (cf_TokenTTL (c_StepUp cfg))];
                   notifier = (if cf_Enabled (c_Notify cfg) then Some (notify_New None) else None);
                   counter = app_counter R (NewRedisCounter (prefix @ '':anomaly''));
                   anomalyDet = anomaly_New counter (Some counter) (cf_SpikeMultiplier (c_Anomaly cfg));
                   challengeMgr = challenge_NewManager app_tokenStore (Some StubVerifier_Verify) (Some app_tokenStore) [];
                   (svc, w2) = NewService (cf_AccountBalances (c_Demo cfg)) clients notifier anomalyDet now w1
               in Inr (\<lparr>sv_Mux = (\<lambda>env.
                          serveMux [(''/withdraw'', withdrawChain guard cfg stepUp challengeMgr svc env),
                                    (''/health'', healthHandler),
                                    (''/demo/trust-device'', TrustDevice svc env),
                                    (''/demo/balance'', Service_Balance svc)]),
                        sv_DeviceTrust = clients, sv_StepUp = stepUp, sv_Challenge = challengeMgr,
                        sv_Anomaly = anomalyDet, sv_Service = svc\<rparr>, w2))))"

end
