(* ===== verification/Frame.thy ===== *)
theory Frame
  imports Middleware
begin

text \<open>
  What the layers in front of a handler cannot change. The locale \<open>handler_frame\<close> states that the backends of a guard and
  the hooks of the options keep a property \<open>P\<close> of the state; then the whole pipeline of \<^verbatim>\<open>middleware.Handler\<close> keeps \<open>P\<close> as soon
  as the handler it wraps does, on every path: refusals, replays, store errors, panics and the deferred release.
\<close>

text \<open>The rules of a velocity engine reach the state through the store alone.\<close>

locale velocity_frame =
  fixes e :: "'w velEngine" and rules :: "builtinRule list" and P :: "'w \<Rightarrow> bool"
  assumes rules_builtin: "ve_rules e = map ruleOf rules"
    and record_frame: "P w \<Longrightarrow> P (snd (vs_Record (ve_store e) c now key ts w))"
    and count_frame: "P w \<Longrightarrow> P (snd (vs_Count (ve_store e) c now key d w))"
    and last_frame: "P w \<Longrightarrow> P (snd (vs_Last (ve_store e) c now key w))"
begin

lemma rule_P: "P w \<Longrightarrow> P (snd (ruleOf b c now key (ve_store e) w))"
proof (cases b)
  case (Rate r)
  then show "P w \<Longrightarrow> ?thesis" using count_frame [of w c now key "row_Window r"]
    by (auto simp: RateOverWindow_Check_def Let_def split: prod.splits sum.splits)
next
  case (Interval m)
  then show "P w \<Longrightarrow> ?thesis" using last_frame [of w c now key]
    by (auto simp: MinInterval_Check_def Let_def split: prod.splits sum.splits option.splits)
qed

lemma runRules_P: "P w \<Longrightarrow> P (snd (runRules (map ruleOf bs) c nows key (ve_store e) w))"
proof (induction bs arbitrary: nows w)
  case (Cons b bs)
  then show ?case using rule_P [of w b c "nows 0" key]
    by (auto split: prod.splits sum.splits)
qed simp

lemma velocity_Check_P:
  assumes "P w"
  shows "P (snd (velocity_Check e c nows key w))"
proof -
  obtain y u where y: "runRules (ve_rules e) c nows key (ve_store e) w = (y, u)" by fastforce
  then have "P u" using runRules_P [OF assms, of rules c nows key] by (simp add: rules_builtin)
  with record_frame [of u c "nows (length (ve_rules e))" key "nows (length (ve_rules e))"] y assms
  show ?thesis by (auto simp: velocity_Check_def Let_def split: prod.splits sum.splits option.splits)
qed

end

locale handler_frame = velocity_frame "g_velocity g" rules P
  for g :: "'w guard" and rules and P +
  fixes opt :: "'w Options"
  assumes rate_frame: "P w \<Longrightarrow> P (snd (g_rate g c now key w))"
    and ip_frame: "g_ipRate g = Some ip \<Longrightarrow> P w \<Longrightarrow> P (snd (ip c now key w))"
    and claim_frame: "P w \<Longrightarrow> P (snd (store_Claim (im_store (g_idempotency g)) c now key d w))"
    and complete_frame: "P w \<Longrightarrow> P (snd (store_Complete (im_store (g_idempotency g)) c now key b d w))"
    and acquire_frame: "P w \<Longrightarrow> P (snd (client_Acquire (lm_client (g_lock g)) c now rnd key d w))"
    and release_frame: "P w \<Longrightarrow> P (snd (client_Release (lm_client (g_lock g)) h c now w))"
    and audit_frame: "o_Audit opt = Some f \<Longrightarrow> P w \<Longrightarrow> P (f ev w)"
    and blocked_frame: "o_OnBlocked opt = Some bh \<Longrightarrow> P w \<Longrightarrow> P (snd (bh r reason w))"
    and flag_frame: "o_OnVelocityFlag opt = Some v \<Longrightarrow> P w \<Longrightarrow> P (snd (snd (v r reason w)))"
begin

lemma audit_P: "P w \<Longrightarrow> P (Options_audit opt layer d why k w)"
  by (simp add: Options_audit_def audit_frame split: option.split)

lemma reject_P: "P w \<Longrightarrow> P (snd (rejectWith opt r reason detail w))"
  using blocked_frame [of _ w r reason]
  by (auto simp: rejectWith_def Options_block_def split: option.splits prod.splits)

lemma storeError_P: "P w \<Longrightarrow> P (snd (storeError opt layer e k w))"
  by (simp add: storeError_def audit_P)

lemma required_P: "P w \<Longrightarrow> P (snd (layer_required opt k w))"
  by (simp add: layer_required_def audit_P)

lemma ip_P: "P w \<Longrightarrow> P (snd (layer_ip g opt env r k w))"
  using ip_frame [of _ w "rq_ctx r" "env_ip env" "rk_ip k"]
  by (auto simp: layer_ip_def storeError_P reject_P audit_P split: option.splits prod.splits sum.splits)

lemma account_P: "P w \<Longrightarrow> P (snd (layer_account g opt env r k w))"
  using rate_frame [of w "rq_ctx r" "env_account env" "rk_account k"]
  by (auto simp: layer_account_def storeError_P reject_P audit_P split: prod.splits sum.splits)

lemma Begin_P: "P w \<Longrightarrow> P (snd (Begin (g_idempotency g) c now key w))"
  using claim_frame [of w c now key "im_ttl (g_idempotency g)"]
  by (auto simp: Begin_def split: prod.splits sum.splits)

lemma idempotency_P: "P w \<Longrightarrow> P (snd (layer_idempotency g opt env r k w))"
  using Begin_P [of w "rq_ctx r" "env_begin env" "rk_idem k"]
  by (auto simp: layer_idempotency_def storeError_P audit_P split: prod.splits sum.splits)

lemma velocity_P:
  assumes "P w"
  shows "P (snd (layer_velocity g opt env r k w))"
proof -
  obtain y u where y: "velocity_Check (g_velocity g) (rq_ctx r) (env_velocity env) (VelocityKey (rk_account k) (o_Action opt)) w = (y, u)"
    by fastforce
  then have u: "P u" using velocity_Check_P [OF assms, of "rq_ctx r" "env_velocity env" "VelocityKey (rk_account k) (o_Action opt)"]
    by simp
  have f: "P (snd (snd (v r why (Options_audit opt ''velocity'' ''flag'' why k u))))" if "o_OnVelocityFlag opt = Some v" for v why
    using flag_frame [OF that audit_P [OF u]] .
  show ?thesis
  proof (cases "o_OnVelocityFlag opt")
    case None
    with y u show ?thesis
      by (auto simp: layer_velocity_def Let_def storeError_P reject_P audit_P split: sum.splits)
  next
    case (Some v)
    with y u f [OF Some] show ?thesis
      by (auto simp: layer_velocity_def Let_def storeError_P reject_P audit_P split: sum.splits prod.splits) (metis snd_conv)
  qed
qed

lemma lock_P: "P w \<Longrightarrow> P (snd (layer_lock g opt env c r k w))"
  using acquire_frame [of w c "env_lock env" "env_rnd env" "rk_lock k" "lm_ttl (g_lock g)"]
  by (auto simp: layer_lock_def TryLock_def lock_TryAcquire_def storeError_P reject_P split: prod.splits sum.splits)

lemma layers_P:
  assumes "P w"
  shows "P (snd (Handler_layers g opt env r w))"
proof -
  let ?k = "requestKeys opt r"
  obtain v1 w1 where 1: "layer_required opt ?k w = (v1, w1)" by fastforce
  obtain v2 w2 where 2: "layer_ip g opt env r ?k w1 = (v2, w2)" by fastforce
  obtain v3 w3 where 3: "layer_account g opt env r ?k w2 = (v3, w3)" by fastforce
  obtain v4 w4 where 4: "layer_idempotency g opt env r ?k w3 = (v4, w4)" by fastforce
  obtain v5 w5 where 5: "layer_velocity g opt env r ?k w4 = (v5, w5)" by fastforce
  have "P w1" "P w2" "P w3" "P w4" "P w5"
    using required_P [OF assms, of ?k] ip_P [of w1 env r ?k] account_P [of w2 env r ?k] idempotency_P [of w3 env r ?k]
      velocity_P [of w4 env r ?k] by (simp_all add: 1 2 3 4 5)
  moreover have "P (snd (layer_lock g opt env (rq_ctx r) r' ?k w5))" for r' using \<open>P w5\<close> by (rule lock_P)
  ultimately show ?thesis
    by (auto simp: Handler_layers_def 1 2 3 4 5 Let_def split: verdict.splits prod.splits) (metis snd_conv)+
qed

lemma Complete_P: "P w \<Longrightarrow> P (snd (CompleteIdempotency g c now key b w))"
  using complete_frame [of w c now key b "im_ttl (g_idempotency g)"]
  by (auto simp: CompleteIdempotency_def idempotency_Complete_def split: prod.splits option.splits)

lemma runHandler_P:
  assumes "P w" and "\<And>w. P w \<Longrightarrow> P (snd (snd (h r w)))"
  shows "P (snd (snd (runHandler g env c key h r w)))"
  using assms(2) [OF assms(1)] Complete_P
  by (auto simp: runHandler_def Let_def split: prod.splits outcome.splits)

lemma Handler_P:
  assumes "P w" and "\<And>r w. P w \<Longrightarrow> P (snd (snd (h r w)))" and "opt = Options_withDefaults opts"
  shows "P (snd (snd (Handler g opts env h r w)))"
proof -
  obtain v u where v: "Handler_layers g opt env r w = (v, u)" by fastforce
  then have u: "P u" using layers_P [OF assms(1), of env r] by simp
  show ?thesis
  proof (cases v)
    case (Stop a)
    with v u show ?thesis by (simp add: Handler_def flip: assms(3))
  next
    case (Pass p)
    obtain acts r' l where p: "p = (acts, r', l)" by (cases p) auto
    obtain a res x where run: "runHandler g env (rq_ctx r) (rk_idem (requestKeys opt r)) h r' u = (a, res, x)"
      by (meson prod_cases3)
    have "P (snd (snd (runHandler g env (rq_ctx r) (rk_idem (requestKeys opt r)) h r' u)))"
      using u assms(2) by (rule runHandler_P)
    then have "P x" using run by simp
    then show ?thesis using v Pass p run release_frame
      by (simp add: Handler_def lock_releaseFn_def flip: assms(3) split: option.split)
  qed
qed

end

end
