(* ===== verification/App_Facts.thy ===== *)
theory App_Facts
  imports App Frame
begin

text \<open>
  The library under the theorems about the running server: what \<^verbatim>\<open>New\<close> builds, written out (\<open>New_Inr\<close>); the interpretation
  of \<open>handler_frame\<close> on that guard, so that whatever only depends on accounts and ledger passes through the layers; the
  invariant \<open>moneyInv\<close> and that every route keeps it; and how the limiters behave while Redis is out of reach.
\<close>

section \<open>The server that comes out\<close>

text \<open>The parts \<^verbatim>\<open>New\<close> builds, written out.\<close>

definition appRules :: "Config \<Rightarrow> builtinRule list" where
  "appRules cfg =
     [Rate \<lparr>row_N = cf_WithdrawMaxPerWindow (c_Velocity cfg), row_Window = cf_VelocityWindow (c_Velocity cfg),
            row_Label = ''withdrawal attempts''\<rparr>,
      Interval \<lparr>mi_Min = cf_MinInterval (c_Velocity cfg), mi_Label = ''withdrawal''\<rparr>]"

definition appGuard :: "'r redis \<Rightarrow> Config \<Rightarrow> ('l, 'r) appWorld guard" where
  "appGuard R cfg =
     (let prefix = cf_KeyPrefix (c_Redis cfg); rl = c_RateLimit cfg;
          store = app_idemStore R (idempotency_NewRedisStore prefix);
          client = app_lockClient R (lock_NewRedis prefix) in
      \<lparr>g_ipRate = Some (app_ipLimiter R \<lparr>sw_prefix = prefix @ '':ip'', sw_cfg = \<lparr>swc_Limit = cf_IPLimit rl, swc_Window = cf_IPWindow rl\<rparr>\<rparr>),
       g_rate = app_acctLimiter R \<lparr>sw_prefix = prefix @ '':acct'', sw_cfg = \<lparr>swc_Limit = cf_AccountLimit rl, swc_Window = cf_AccountWindow rl\<rparr>\<rparr>,
       g_idempotency = idempotency_New store (Some store) (cf_IdempotencyTTL (c_Idempotency cfg)),
       g_lock = lock_New client (Some client) (cf_LockTTL (c_Lock cfg)),
       g_velocity = \<lparr>ve_store = app_velStore R (velocity_NewRedisStore prefix), ve_rules = map ruleOf (appRules cfg)\<rparr>\<rparr>)"

definition appStepUp :: "Config \<Rightarrow> ('l, 'r) appWorld stepupManager" where
  "appStepUp cfg =
     \<lparr>sm_assessor = DefaultAssessor_Assess, sm_store = app_challengeStore,
      sm_ttl = (if 0 < cf_TokenTTL (c_StepUp cfg) then cf_TokenTTL (c_StepUp cfg) else 10 * minute)\<rparr>"

definition appChallenge :: "('l, 'r) appWorld challengeManager" where
  "appChallenge = \<lparr>cm_verifier = StubVerifier_Verify, cm_store = app_tokenStore, cm_ttl = 15 * minute\<rparr>"

definition appService :: "'r redis \<Rightarrow> (time \<Rightarrow> int) \<Rightarrow> Config \<Rightarrow> ('l, 'r) Service" where
  "appService R zone cfg =
     (let counter = app_counter R (NewRedisCounter (cf_KeyPrefix (c_Redis cfg) @ '':anomaly'')) in
      \<lparr>svc_ledger = \<lparr>lg_store = app_ledgerStore\<rparr>,
       svc_anomaly = anomaly_New counter (Some counter) (cf_SpikeMultiplier (c_Anomaly cfg)),
       svc_devices = newDeviceTrust R zone cfg\<rparr>)"

definition appMux :: "'r redis \<Rightarrow> (time \<Rightarrow> int) \<Rightarrow> Config \<Rightarrow> requestEnv \<Rightarrow> string \<Rightarrow> ('l, 'r) appWorld handler" where
  "appMux R zone cfg env =
     serveMux [(''/withdraw'', withdrawChain (appGuard R cfg) cfg (appStepUp cfg) appChallenge (appService R zone cfg) env),
               (''/health'', healthHandler),
               (''/demo/trust-device'', TrustDevice (appService R zone cfg) env),
               (''/demo/balance'', Service_Balance (appService R zone cfg))]"

definition limitsPositive :: "Config \<Rightarrow> bool" where
  "limitsPositive cfg \<longleftrightarrow> 0 < cf_IPLimit (c_RateLimit cfg) \<and> 0 < cf_IPWindow (c_RateLimit cfg) \<and>
     0 < cf_AccountLimit (c_RateLimit cfg) \<and> 0 < cf_AccountWindow (c_RateLimit cfg)"

lemma NewRedisSlidingWindow_Inr:
  "NewRedisSlidingWindow client prefix cfg = Inr s \<longleftrightarrow>
     client \<and> 0 < swc_Limit cfg \<and> 0 < swc_Window cfg \<and>
     s = \<lparr>sw_prefix = (if prefix = [] then ''floodguard:ratelimit'' else prefix), sw_cfg = cfg\<rparr>"
  by (auto simp: NewRedisSlidingWindow_def SlidingWindowConfig_validate_def split: option.splits if_splits)

lemma guard_built:
  "fst (floodguard_New L (appConfig R cfg
      \<lparr>sw_prefix = cf_KeyPrefix (c_Redis cfg) @ '':ip'', sw_cfg = \<lparr>swc_Limit = cf_IPLimit (c_RateLimit cfg), swc_Window = cf_IPWindow (c_RateLimit cfg)\<rparr>\<rparr>
      \<lparr>sw_prefix = cf_KeyPrefix (c_Redis cfg) @ '':acct'', sw_cfg = \<lparr>swc_Limit = cf_AccountLimit (c_RateLimit cfg), swc_Window = cf_AccountWindow (c_RateLimit cfg)\<rparr>\<rparr>) w) =
   appGuard R cfg"
  by (simp add: floodguard_New_def appConfig_def appGuard_def appRules_def Let_def idempotency_New_def lock_New_def velocity_New_def)

lemma world_built: "snd (floodguard_New L (appConfig R cfg a b) w) = w"
  by (simp add: floodguard_New_def appConfig_def Let_def)

lemma New_Inr:
  assumes "New L R zone client cfg now w0 = Inr (sv, w)"
  shows "sv_Mux sv = appMux R zone cfg" and "sv_Service sv = appService R zone cfg"
    and "client" and "limitsPositive cfg"
    and "aw_ledger w = ledger_NewMemoryStore"
    and "aw_accounts w = map_of (map (\<lambda>(id, bal). (id, NewAccount bal)) (cf_AccountBalances (c_Demo cfg)))"
proof -
  obtain g w1 where g: "floodguard_New L (appConfig R cfg
      \<lparr>sw_prefix = cf_KeyPrefix (c_Redis cfg) @ '':ip'', sw_cfg = \<lparr>swc_Limit = cf_IPLimit (c_RateLimit cfg), swc_Window = cf_IPWindow (c_RateLimit cfg)\<rparr>\<rparr>
      \<lparr>sw_prefix = cf_KeyPrefix (c_Redis cfg) @ '':acct'', sw_cfg = \<lparr>swc_Limit = cf_AccountLimit (c_RateLimit cfg), swc_Window = cf_AccountWindow (c_RateLimit cfg)\<rparr>\<rparr>)
      (w0\<lparr>aw_ipSeq := 0, aw_acctSeq := 0, aw_challenges := NewMemoryChallengeStore, aw_tokens := NewMemoryTokenStore,
          aw_devices := devicetrust_NewMemoryStore\<rparr>) = (g, w1)" by fastforce
  then have "g = appGuard R cfg" using guard_built by (metis fst_conv)
  with g assms show "sv_Mux sv = appMux R zone cfg" "sv_Service sv = appService R zone cfg" "client" "limitsPositive cfg"
    "aw_ledger w = ledger_NewMemoryStore"
    "aw_accounts w = map_of (map (\<lambda>(id, bal). (id, NewAccount bal)) (cf_AccountBalances (c_Demo cfg)))"
    by (auto simp: New_def Let_def NewRedisSlidingWindow_Inr NewService_def appMux_def appService_def appStepUp_def
        appChallenge_def stepup_NewManager_def stepup_WithTokenTTL_def challenge_NewManager_def ledger_New_def limitsPositive_def
        split: sum.splits)
qed

lemma New_ok_iff: "(\<exists>x. New L R zone client cfg now w0 = Inr x) \<longleftrightarrow> client \<and> limitsPositive cfg"
proof
  assume "\<exists>x. New L R zone client cfg now w0 = Inr x"
  then obtain sv w where "New L R zone client cfg now w0 = Inr (sv, w)" by (metis surj_pair)
  then show "client \<and> limitsPositive cfg" using New_Inr(3,4) by blast
next
  assume "client \<and> limitsPositive cfg"
  then show "\<exists>x. New L R zone client cfg now w0 = Inr x"
    by (auto simp: New_def Let_def NewRedisSlidingWindow_Inr limitsPositive_def NewRedisSlidingWindow_def
        SlidingWindowConfig_validate_def split: prod.splits)
qed


section \<open>Money\<close>

text \<open>A property of accounts and ledger only: no layer in front of the handler can break it.\<close>

abbreviation onMoney :: "((string \<rightharpoonup> Account) \<Rightarrow> ledgerMemory \<Rightarrow> bool) \<Rightarrow> ('l, 'r) appWorld \<Rightarrow> bool" where
  "onMoney Q w \<equiv> Q (aw_accounts w) (aw_ledger w)"

lemma onRedis_money [simp]: "aw_accounts (snd (onRedis f w)) = aw_accounts w" "aw_ledger (snd (onRedis f w)) = aw_ledger w"
  by (simp_all add: onRedis_def onPart_def split: prod.split)

lemma limiter_money [simp]:
  "aw_accounts (snd (app_ipLimiter R s c now key w)) = aw_accounts w" "aw_ledger (snd (app_ipLimiter R s c now key w)) = aw_ledger w"
  "aw_accounts (snd (app_acctLimiter R s c now key w)) = aw_accounts w" "aw_ledger (snd (app_acctLimiter R s c now key w)) = aw_ledger w"
  by (simp_all add: app_ipLimiter_def app_acctLimiter_def onPart_def split: prod.split)

interpretation app_frame: handler_frame "appGuard R cfg" "appRules cfg" "onMoney Q" "Options_withDefaults (withdrawOptions cfg)"
  for R :: "'r redis" and cfg and Q
  by unfold_locales
    (auto simp: appGuard_def idempotency_New_def lock_New_def app_idemStore_def app_velStore_def app_lockClient_def
      Options_withDefaults_def withdrawOptions_def Let_def)

lemma stepup_Middleware_P:
  assumes "P w" and "\<And>r w. P w \<Longrightarrow> P (snd (snd (h r w)))"
    and "\<And>f r a w. so_KnownDevice opt = Some f \<Longrightarrow> P w \<Longrightarrow> P (snd (f r a w))"
    and "\<And>c now rnd a x l d w. P w \<Longrightarrow> P (snd (cs_Issue (sm_store m) c now rnd a x l d w))"
    and "\<And>c now a x t w. P w \<Longrightarrow> P (snd (cs_Verify (sm_store m) c now a x t w))"
    and "\<And>c a x t w. P w \<Longrightarrow> P (snd (cs_Consume (sm_store m) c a x t w))"
  shows "P (snd (snd (stepup_Middleware m opt nows rnd h r w)))"
proof -
  let ?a = "case so_AccountKey opt of None \<Rightarrow> header_Get r ''X-Account-ID'' | Some f \<Rightarrow> f r"
  obtain known u where k: "(case so_KnownDevice opt of None \<Rightarrow> (Inr False, w) | Some f \<Rightarrow> f r ?a w) = (known, u)" by fastforce
  have u: "P u"
  proof (cases "so_KnownDevice opt")
    case None
    with k assms(1) show ?thesis by simp
  next
    case (Some f)
    with k assms(3) [OF Some assms(1), of r ?a] show ?thesis by simp
  qed
  have check: "P (snd (stepup_Check m c nows rnd sg t v))" if "P v" for c sg t v
    using that assms(4,6) assms(5) [OF that]
    by (auto simp: stepup_Check_def Let_def split: sum.splits prod.splits) (metis snd_conv)+
  show ?thesis
    using k u check [OF u] assms(2)
    by (auto simp: stepup_Middleware_def Let_def split: sum.splits prod.splits option.splits) (metis snd_conv)+
qed

lemma challenge_Middleware_P:
  assumes "P w" and "\<And>r w. P w \<Longrightarrow> P (snd (snd (h r w)))"
    and "\<And>f r a w. co_Signals opt = Some f \<Longrightarrow> P w \<Longrightarrow> P (snd (f r a w))"
    and "\<And>c now rnd a x d w. P w \<Longrightarrow> P (snd (ts_Issue (cm_store m) c now rnd a x d w))"
    and "\<And>c now a x t w. P w \<Longrightarrow> P (snd (ts_IsSolved (cm_store m) c now a x t w))"
    and "\<And>c a x t w. P w \<Longrightarrow> P (snd (ts_MarkSolved (cm_store m) c a x t w))"
  shows "P (snd (snd (challenge_Middleware m opt nows rnd h r w)))"
proof -
  let ?a = "case co_AccountKey opt of None \<Rightarrow> header_Get r ''X-Account-ID'' | Some f \<Rightarrow> f r"
  obtain sig u where k: "(case co_Signals opt of None \<Rightarrow> (zeroSignals, w) | Some f \<Rightarrow> f r ?a w) = (sig, u)" by fastforce
  have u: "P u"
  proof (cases "co_Signals opt")
    case None
    with k assms(1) show ?thesis by simp
  next
    case (Some f)
    with k assms(3) [OF Some assms(1), of r ?a] show ?thesis by simp
  qed
  have issue: "P (snd (challenge_issue m c nows rnd a x v))" if "P v" for c a x v
    using assms(4) [OF that, of c "nows 1" rnd a x "cm_ttl m"]
    by (auto simp: challenge_issue_def split: sum.splits prod.splits)
  have captcha: "P (snd (challenge_captcha m c nows rnd a x t cr v))" if "P v" for c a x t cr v
    using that issue [OF that] assms(6) [OF that] by (simp add: challenge_captcha_def split: sum.split)
  have check: "P (snd (challenge_Check m c nows rnd a x sg t cr v))" if "P v" for c a x sg t cr v
    using that captcha assms(5) [OF that, of c "nows 0" a x t]
    by (auto simp: challenge_Check_def split: sum.splits prod.splits)
  show ?thesis
    using k check [OF u, of "rq_ctx r" ?a "co_Action opt" sig "challenge_HeaderToken r" "CaptchaResponse r"] assms(2)
    by (auto simp: challenge_Middleware_def Let_def split: prod.splits option.splits)
qed


text \<open>The balance an account opened with, and what the ledger says was moved on its behalf: records name the account as
  their actor.\<close>

definition seedOf :: "Config \<Rightarrow> string \<Rightarrow> int" where
  "seedOf cfg a = (case map_of (cf_AccountBalances (c_Demo cfg)) a of None \<Rightarrow> 0 | Some b \<Rightarrow> b)"

definition movedFor :: "ledgerMemory \<Rightarrow> string \<Rightarrow> int" where
  "movedFor s a = sum_list (map lr_Amount (filter (\<lambda>r. lr_ActorID r = a) (recordsOf s ''acct'')))"

definition balanced :: "Config \<Rightarrow> ledgerMemory \<Rightarrow> string \<Rightarrow> Account \<Rightarrow> bool" where
  "balanced cfg s a acct \<longleftrightarrow> pendingWithdraw acct = 0 \<and> totalCents acct = seedOf cfg a + movedFor s a \<and>
     in_i64 (totalCents acct) \<and> min 0 (seedOf cfg a) \<le> totalCents acct \<and> totalCents acct \<le> seedOf cfg a"

definition moneyInv :: "Config \<Rightarrow> (string \<rightharpoonup> Account) \<Rightarrow> ledgerMemory \<Rightarrow> bool" where
  "moneyInv cfg accts s \<longleftrightarrow>
     (\<forall>a. balanced cfg s a (case accts a of Some x \<Rightarrow> x | None \<Rightarrow> NewAccount 0)) \<and> (\<forall>b. intact (recordsOf s b))"

lemma ledger_read: "lst_ListByAccount app_ledgerStore c a w = (Inr (recordsOf (aw_ledger w) a), w)"
  by (simp add: app_ledgerStore_def onPart_def ledger_memory_ListByAccount_def)

lemma app_Record:
  obtains rec s where
    "RecordTransaction \<lparr>lg_store = app_ledgerStore\<rparr> c now ''acct'' amount ty actor src w = (Inr rec, w\<lparr>aw_ledger := s\<rparr>)"
    "recordsOf s = (recordsOf (aw_ledger w))(''acct'' := recordsOf (aw_ledger w) ''acct'' @ [rec])"
    "lr_Amount rec = amount" "lr_ActorID rec = actor"
    "lr_PrevHash rec = lastHash genesisHash (recordsOf (aw_ledger w) ''acct'')" "lr_RecordHash rec = hashRecord rec"
proof -
  define old where "old = recordsOf (aw_ledger w) ''acct''"
  define draft where "draft = \<lparr>lr_ID = int (length old) + 1, lr_AccountID = ''acct'', lr_Amount = amount, lr_TxType = ty, lr_ActorID = actor,
     lr_Source = src, lr_PrevHash = (if old \<noteq> [] then lr_RecordHash (last old) else genesisHash), lr_RecordHash = [], lr_CreatedAt = now\<rparr>"
  define rec where "rec = draft\<lparr>lr_RecordHash := hashRecord draft\<rparr>"
  define s where "s = aw_ledger w\<lparr>lm_records := (lm_records (aw_ledger w))(''acct'' \<mapsto> old @ [rec])\<rparr>"
  have acc: "lr_AccountID rec = ''acct''" by (simp add: rec_def draft_def)
  have "hashRecord rec = hashRecord draft" unfolding rec_def by (rule hashRecord_update)
  then have "lr_RecordHash rec = hashRecord rec" by (simp add: rec_def)
  moreover have "recordsOf s = (recordsOf (aw_ledger w))(''acct'' := old @ [rec])" by (auto simp: recordsOf_def s_def fun_eq_iff)
  moreover have "RecordTransaction \<lparr>lg_store = app_ledgerStore\<rparr> c now ''acct'' amount ty actor src w =
      lst_Append app_ledgerStore c rec w"
    unfolding RecordTransaction_def Let_def by (simp add: ledger_read flip: old_def) (simp add: draft_def rec_def)
  moreover have "lst_Append app_ledgerStore c rec w = (Inr rec, w\<lparr>aw_ledger := s\<rparr>)"
    by (simp add: app_ledgerStore_def onPart_def ledger_memory_Append_def acc s_def old_def)
  moreover have "lr_Amount rec = amount" "lr_ActorID rec = actor" "lr_PrevHash rec = lastHash genesisHash old"
    by (auto simp: rec_def draft_def lastHash_def)
  ultimately show thesis using that [of rec s] unfolding old_def by simp
qed

text \<open>A withdrawal over the process state changes the account and appends one record, or changes nothing.\<close>

lemma app_Withdraw_cases:
  assumes "Withdraw \<lparr>lg_store = app_ledgerStore\<rparr> c now amount actor src (acct, w) = (err, acct', w')"
    and "pendingWithdraw acct = 0" "in_i64 (totalCents acct)"
  shows "err \<noteq> None \<and> acct' = acct \<and> w' = w \<or>
     (\<exists>rec s. err = None \<and> 0 < amount \<and> amount \<le> totalCents acct \<and> acct' = acct\<lparr>totalCents := totalCents acct - amount\<rparr> \<and>
        w' = w\<lparr>aw_ledger := s\<rparr> \<and> recordsOf s = (recordsOf (aw_ledger w))(''acct'' := recordsOf (aw_ledger w) ''acct'' @ [rec]) \<and>
        lr_Amount rec = - amount \<and> lr_ActorID rec = actor \<and>
        lr_PrevHash rec = lastHash genesisHash (recordsOf (aw_ledger w) ''acct'') \<and> lr_RecordHash rec = hashRecord rec)"
proof -
  obtain rec s where rec:
    "RecordTransaction \<lparr>lg_store = app_ledgerStore\<rparr> c now ''acct'' (i64 (- amount)) TxWithdrawal actor src w = (Inr rec, w\<lparr>aw_ledger := s\<rparr>)"
    "recordsOf s = (recordsOf (aw_ledger w))(''acct'' := recordsOf (aw_ledger w) ''acct'' @ [rec])"
    "lr_Amount rec = i64 (- amount)" "lr_ActorID rec = actor"
    "lr_PrevHash rec = lastHash genesisHash (recordsOf (aw_ledger w) ''acct'')" "lr_RecordHash rec = hashRecord rec"
    by (rule app_Record)
  let ?ok = "0 < amount \<and> amount \<le> 4611686018427387903 \<and> amount \<le> totalCents acct"
  have total: "i64 (totalCents acct) = totalCents acct" using assms(3) by simp
  show ?thesis
  proof (cases ?ok)
    case True
    then have "i64 (totalCents acct - amount) = totalCents acct - amount" "i64 (- amount) = - amount" "i64 amount = amount" "i64 0 = 0"
      using assms(3) by (simp_all add: in_i64_def)
    note ids = this
    then have "Withdraw \<lparr>lg_store = app_ledgerStore\<rparr> c now amount actor src (acct, w) =
        (None, acct\<lparr>totalCents := totalCents acct - amount\<rparr>, w\<lparr>aw_ledger := s\<rparr>)"
      using True assms(2) rec(1) total
      by (cases acct) (simp add: Withdraw_def validateAmount_def quot_def maxInt64_def Let_def)
    with assms(1) True rec ids show ?thesis by (intro disjI2 exI [of _ rec] exI [of _ s]) simp
  next
    case False
    then consider "amount \<le> 0" | "0 < amount" "4611686018427387903 < amount" | "0 < amount" "totalCents acct < amount" by linarith
    then have "\<exists>e. Withdraw \<lparr>lg_store = app_ledgerStore\<rparr> c now amount actor src (acct, w) = (Some e, acct, w)"
      by cases (use assms(2) total in \<open>simp_all add: Withdraw_def validateAmount_def quot_def maxInt64_def Let_def\<close>)
    with assms(1) show ?thesis by auto
  qed
qed


lemma app_Withdraw_error:
  assumes "pendingWithdraw acct = 0" "in_i64 (totalCents acct)"
  shows "fst (Withdraw \<lparr>lg_store = app_ledgerStore\<rparr> c now amount actor src (acct, w)) =
     (if amount \<le> 0 then Some ErrInvalidAmount else if 4611686018427387903 < amount then Some ErrOverflow
      else if totalCents acct < amount then Some ErrInsufficientFunds else None)"
proof -
  obtain rec s where "RecordTransaction \<lparr>lg_store = app_ledgerStore\<rparr> c now ''acct'' (i64 (- amount)) TxWithdrawal actor src w =
      (Inr rec, w\<lparr>aw_ledger := s\<rparr>)" by (rule app_Record)
  then show ?thesis using assms by (simp add: Withdraw_def validateAmount_def quot_def maxInt64_def Let_def)
qed

lemma moneyInv_ensure: "onMoney (moneyInv cfg) w \<Longrightarrow> onMoney (moneyInv cfg) (ensureAccount now a w)"
proof -
  assume inv: "onMoney (moneyInv cfg) w"
  have "(case aw_accounts (ensureAccount now a w) b of Some x \<Rightarrow> x | None \<Rightarrow> NewAccount 0) =
      (case aw_accounts w b of Some x \<Rightarrow> x | None \<Rightarrow> NewAccount 0)" for b
    by (simp add: ensureAccount_def split: option.split)
  moreover have "aw_ledger (ensureAccount now a w) = aw_ledger w" by (simp add: ensureAccount_def split: option.split)
  ultimately show ?thesis using inv by (simp add: moneyInv_def)
qed

lemma moneyInv_Withdraw:
  assumes inv: "onMoney (moneyInv cfg) w"
    and wd: "Withdraw \<lparr>lg_store = app_ledgerStore\<rparr> c now amount a src (accountIn w a, w) = (err, acct, w')"
  shows "onMoney (moneyInv cfg) (w'\<lparr>aw_accounts := (aw_accounts w')(a \<mapsto> acct)\<rparr>)"
proof -
  have here: "pendingWithdraw (accountIn w a) = 0" "in_i64 (totalCents (accountIn w a))"
    "totalCents (accountIn w a) = seedOf cfg a + movedFor (aw_ledger w) a" "totalCents (accountIn w a) \<le> seedOf cfg a"
    using inv unfolding moneyInv_def accountIn_def balanced_def by blast+
  consider "acct = accountIn w a" "w' = w"
    | rec s where "0 < amount" "amount \<le> totalCents (accountIn w a)"
      "acct = (accountIn w a)\<lparr>totalCents := totalCents (accountIn w a) - amount\<rparr>" "w' = w\<lparr>aw_ledger := s\<rparr>"
      "recordsOf s = (recordsOf (aw_ledger w))(''acct'' := recordsOf (aw_ledger w) ''acct'' @ [rec])"
      "lr_Amount rec = - amount" "lr_ActorID rec = a"
      "lr_PrevHash rec = lastHash genesisHash (recordsOf (aw_ledger w) ''acct'')" "lr_RecordHash rec = hashRecord rec"
    using app_Withdraw_cases [OF wd here(1,2)] by blast
  then show ?thesis
  proof cases
    case 1
    with inv show ?thesis by (auto simp: moneyInv_def accountIn_def)
  next
    case (2 rec s)
    have moved: "movedFor s b = movedFor (aw_ledger w) b + (if b = a then - amount else 0)" for b
      by (simp add: movedFor_def 2)
    have "balanced cfg s a acct"
      using here 2(1-3) moved [of a] by (auto simp: balanced_def in_i64_def)
    moreover have "balanced cfg s b (case aw_accounts w b of Some x \<Rightarrow> x | None \<Rightarrow> NewAccount 0)" if "b \<noteq> a" for b
    proof -
      have "movedFor s b = movedFor (aw_ledger w) b" using moved [of b] that by simp
      moreover have "balanced cfg (aw_ledger w) b (case aw_accounts w b of Some x \<Rightarrow> x | None \<Rightarrow> NewAccount 0)"
        using inv by (simp add: moneyInv_def)
      ultimately show ?thesis unfolding balanced_def by metis
    qed
    moreover have "intact (recordsOf s b)" for b
      using inv 2 by (auto simp: moneyInv_def intact_snoc)
    ultimately show ?thesis using 2(4) by (simp add: moneyInv_def)
  qed
qed

text \<open>The other steps of the handlers leave accounts and ledger alone.\<close>

lemma service_money:
  fixes R :: "'r redis" and w :: "('l, 'r) appWorld"
  shows "aw_accounts (snd (anomaly_Record (svc_anomaly (appService R zone cfg)) c now metric d w)) = aw_accounts w"
    and "aw_ledger (snd (anomaly_Record (svc_anomaly (appService R zone cfg)) c now metric d w)) = aw_ledger w"
    and "aw_accounts (snd (DetectSpike (svc_anomaly (appService R zone cfg)) c now metric lb w)) = aw_accounts w"
    and "aw_ledger (snd (DetectSpike (svc_anomaly (appService R zone cfg)) c now metric lb w)) = aw_ledger w"
    and "aw_accounts (snd (IsKnownDevice (newDeviceTrust R zone cfg t) c a f w)) = aw_accounts w"
    and "aw_ledger (snd (IsKnownDevice (newDeviceTrust R zone cfg t) c a f w)) = aw_ledger w"
    and "aw_accounts (snd (MarkDeviceTrusted (newDeviceTrust R zone cfg t) c now a f w)) = aw_accounts w"
    and "aw_ledger (snd (MarkDeviceTrusted (newDeviceTrust R zone cfg t) c now a f w)) = aw_ledger w"
    and "aw_accounts (alertUnknown env known a f ip w) = aw_accounts w"
    and "aw_ledger (alertUnknown env known a f ip w) = aw_ledger w"
proof -
  define k where "k = NewRedisCounter (cf_KeyPrefix (c_Redis cfg) @ '':anomaly'')"
  have det: "det_counter (svc_anomaly (appService R zone cfg)) = app_counter R k"
    by (simp add: appService_def anomaly_New_def Let_def k_def)
  have count: "aw_accounts (snd (ctr_CountInWindow (app_counter R k) c now metric x y v)) = aw_accounts v"
      "aw_ledger (snd (ctr_CountInWindow (app_counter R k) c now metric x y v)) = aw_ledger v"
    for c now metric x y and v :: "('l, 'r) appWorld" by (simp_all add: app_counter_def)
  show "aw_accounts (snd (anomaly_Record (svc_anomaly (appService R zone cfg)) c now metric d w)) = aw_accounts w"
    "aw_ledger (snd (anomaly_Record (svc_anomaly (appService R zone cfg)) c now metric d w)) = aw_ledger w"
    by (simp_all add: anomaly_Record_def det app_counter_def)
  have "aw_accounts (snd (DetectSpike (svc_anomaly (appService R zone cfg)) c now metric lb w)) = aw_accounts w \<and>
    aw_ledger (snd (DetectSpike (svc_anomaly (appService R zone cfg)) c now metric lb w)) = aw_ledger w"
    unfolding DetectSpike_def det Let_def
    by (auto split: sum.splits prod.splits) (metis count snd_conv)+
  then show "aw_accounts (snd (DetectSpike (svc_anomaly (appService R zone cfg)) c now metric lb w)) = aw_accounts w"
    "aw_ledger (snd (DetectSpike (svc_anomaly (appService R zone cfg)) c now metric lb w)) = aw_ledger w" by simp_all
  have store: "dc_store (newDeviceTrust R zone cfg t) = (app_deviceMemory :: ('l, 'r) appWorld deviceStore) \<or>
      (\<exists>s. dc_store (newDeviceTrust R zone cfg t) = (app_deviceRedis R s zone t :: ('l, 'r) appWorld deviceStore))"
    by (auto simp: newDeviceTrust_def devicetrust_New_def)
  have get: "aw_accounts (snd (ds_Get (dc_store (newDeviceTrust R zone cfg t)) c a f v)) = aw_accounts v \<and>
      aw_ledger (snd (ds_Get (dc_store (newDeviceTrust R zone cfg t)) c a f v)) = aw_ledger v"
    for v :: "('l, 'r) appWorld"
    using store by (elim disjE exE) (simp_all add: app_deviceMemory_def app_deviceRedis_def onPart_def split: prod.split)
  have mark: "aw_accounts (snd (ds_MarkTrusted (dc_store (newDeviceTrust R zone cfg t)) c a f ts v)) = aw_accounts v \<and>
      aw_ledger (snd (ds_MarkTrusted (dc_store (newDeviceTrust R zone cfg t)) c a f ts v)) = aw_ledger v"
    for ts and v :: "('l, 'r) appWorld"
    using store by (elim disjE exE) (simp_all add: app_deviceMemory_def app_deviceRedis_def onPart_def split: prod.split)
  show "aw_accounts (snd (IsKnownDevice (newDeviceTrust R zone cfg t) c a f w)) = aw_accounts w"
    "aw_ledger (snd (IsKnownDevice (newDeviceTrust R zone cfg t) c a f w)) = aw_ledger w"
    "aw_accounts (snd (MarkDeviceTrusted (newDeviceTrust R zone cfg t) c now a f w)) = aw_accounts w"
    "aw_ledger (snd (MarkDeviceTrusted (newDeviceTrust R zone cfg t) c now a f w)) = aw_ledger w"
    using get [of w] mark [of now w]
    by (auto simp: IsKnownDevice_def MarkDeviceTrusted_def split: sum.splits prod.splits)
  show "aw_accounts (alertUnknown env known a f ip w) = aw_accounts w" "aw_ledger (alertUnknown env known a f ip w) = aw_ledger w"
    by (simp_all add: alertUnknown_def split: option.split)
qed

lemma Service_Withdraw_money:
  assumes "onMoney (moneyInv cfg) w"
  shows "onMoney (moneyInv cfg) (snd (snd (Service_Withdraw (appService R zone cfg) env r w)))"
proof (cases "decodeWithdraw (rq_body r)")
  case None
  with assms show ?thesis by (simp add: Service_Withdraw_def)
next
  case (Some amount)
  let ?s = "appService R zone cfg" and ?a = "header_Get r ''X-Account-ID''"
  let ?w1 = "snd (anomaly_Record (svc_anomaly ?s) (rq_ctx r) (re_record env) MetricWithdrawalAttempts 1 w)"
  let ?w2 = "ensureAccount (re_created env) ?a ?w1"
  obtain err acct w3 where wd: "Withdraw \<lparr>lg_store = app_ledgerStore\<rparr> (rq_ctx r) (re_ledger env) amount ?a ''api''
      (accountIn ?w2 ?a, ?w2) = (err, acct, w3)" by (meson prod_cases3)
  let ?w4 = "w3\<lparr>aw_accounts := (aw_accounts w3)(?a \<mapsto> acct)\<rparr>"
  have "onMoney (moneyInv cfg) ?w2" using assms by (intro moneyInv_ensure) (simp add: service_money)
  then have w4: "onMoney (moneyInv cfg) ?w4" using wd by (rule moneyInv_Withdraw)
  have svc: "svc_ledger ?s = \<lparr>lg_store = app_ledgerStore\<rparr>" "svc_devices ?s = newDeviceTrust R zone cfg"
    by (simp_all add: appService_def Let_def)
  obtain res w5 where known: "IsKnownDevice (newDeviceTrust R zone cfg (re_device env 1)) (rq_ctx r) ?a (FingerprintFromRequest r []) ?w4 = (res, w5)"
    by fastforce
  then have "onMoney (moneyInv cfg) w5"
    using w4 service_money(5,6) [of R zone cfg "re_device env 1" "rq_ctx r" ?a "FingerprintFromRequest r []" ?w4] by simp
  with w4 show ?thesis
    by (cases err) (simp_all add: Service_Withdraw_def Some Let_def svc wd known service_money(9,10) del: One_nat_def)
qed

text \<open>The handler on every branch.\<close>

definition withdrawOutcome :: "string \<Rightarrow> int option \<Rightarrow> ('l, 'r) appWorld \<Rightarrow> rw_act list \<Rightarrow> ('l, 'r) appWorld \<Rightarrow> bool" where
  "withdrawOutcome a amount w acts v \<longleftrightarrow>
     (case amount of
        None \<Rightarrow> rp_status (respond acts) = 400 \<and> v = w
      | Some n \<Rightarrow>
          let valid = 0 < n \<and> n \<le> 4611686018427387903; ok = valid \<and> n \<le> totalCents (accountIn w a) in
          rp_status (respond acts) = (if ok then 200 else if valid then 402 else 400) \<and>
          (\<forall>b. totalCents (accountIn v b) = totalCents (accountIn w b) - (if ok \<and> b = a then n else 0)) \<and>
          (\<forall>b. movedFor (aw_ledger v) b = movedFor (aw_ledger w) b - (if ok \<and> b = a then n else 0)))"

lemma status_json:
  "rp_status (respond [SetHeader k x, WriteHeader st, Encode fs]) = st" "rp_status (respond [SetHeader k x, Encode fs]) = 200"
  "rp_status (respond (http_Error m st)) = st"
  by (simp_all add: respond_def rp_status_def sendHeader_def noResponse_def Encode_def http_Error_def Let_def)

lemma accountIn_ensure: "accountIn (ensureAccount now a w) b = accountIn w b" "aw_ledger (ensureAccount now a w) = aw_ledger w"
  by (simp_all add: accountIn_def ensureAccount_def split: option.split)

lemma Service_Withdraw_exact:
  assumes inv: "onMoney (moneyInv cfg) w"
    and run: "Service_Withdraw (appService R zone cfg) env r w = (acts, res, v)" and a: "a = header_Get r ''X-Account-ID''"
  shows "res = Returned () \<and> withdrawOutcome a (decodeWithdraw (rq_body r)) w acts v"
proof (cases "decodeWithdraw (rq_body r)")
  case None
  with run show ?thesis by (auto simp: Service_Withdraw_def withdrawOutcome_def status_json)
next
  case (Some n)
  let ?s = "appService R zone cfg"
  define w2 where "w2 = ensureAccount (re_created env) a
    (snd (anomaly_Record (svc_anomaly ?s) (rq_ctx r) (re_record env) MetricWithdrawalAttempts 1 w))"
  have same: "accountIn w2 b = accountIn w b" "aw_ledger w2 = aw_ledger w" for b
    by (simp_all add: w2_def accountIn_ensure) (simp_all add: accountIn_def service_money(1,2))
  have "pendingWithdraw (accountIn w a) = 0" "in_i64 (totalCents (accountIn w a))"
    using inv unfolding moneyInv_def accountIn_def balanced_def by blast+
  then have acct: "pendingWithdraw (accountIn w2 a) = 0" "in_i64 (totalCents (accountIn w2 a))" by (simp_all add: same)
  obtain err acct w3 where wd: "Withdraw \<lparr>lg_store = app_ledgerStore\<rparr> (rq_ctx r) (re_ledger env) n a ''api'' (accountIn w2 a, w2) = (err, acct, w3)"
    by (meson prod_cases3)
  define w4 where "w4 = w3\<lparr>aw_accounts := (aw_accounts w3)(a \<mapsto> acct)\<rparr>"
  obtain known w5 where known: "IsKnownDevice (newDeviceTrust R zone cfg (re_device env 1)) (rq_ctx r) a (FingerprintFromRequest r []) w4 = (known, w5)"
    by fastforce
  have svc: "svc_ledger ?s = \<lparr>lg_store = app_ledgerStore\<rparr>" "svc_devices ?s = newDeviceTrust R zone cfg"
    by (simp_all add: appService_def Let_def)
  have err: "err = (if n \<le> 0 then Some ErrInvalidAmount else if 4611686018427387903 < n then Some ErrOverflow
      else if totalCents (accountIn w a) < n then Some ErrInsufficientFunds else None)"
    using app_Withdraw_error [OF acct, of "rq_ctx r" "re_ledger env" n a "''api''" w2] wd same by simp
  have v: "res = Returned () \<and> aw_accounts v = aw_accounts w4 \<and> aw_ledger v = aw_ledger w4 \<and>
      rp_status (respond acts) = (case err of None \<Rightarrow> 200 | Some e \<Rightarrow> if e = ErrInvalidAmount \<or> e = ErrOverflow then 400 else 402)"
    using run wd known service_money(5,6) [of R zone cfg "re_device env 1" "rq_ctx r" a "FingerprintFromRequest r []" w4]
    by (cases err) (auto simp: Service_Withdraw_def Some Let_def svc a [symmetric] w2_def [symmetric] w4_def [symmetric]
        service_money(9,10) status_json simp del: One_nat_def)
  have st: "rp_status (respond acts) = (if 0 < n \<and> n \<le> 4611686018427387903 \<and> n \<le> totalCents (accountIn w a) then 200
      else if 0 < n \<and> n \<le> 4611686018427387903 then 402 else 400)"
    using v err by (auto simp: ErrInsufficientFunds_def ErrInvalidAmount_def ErrOverflow_def)
  have in4: "accountIn v b = (if b = a then acct else accountIn w3 b)" for b using v by (simp add: accountIn_def w4_def)
  have led: "aw_ledger v = aw_ledger w3" using v by (simp add: w4_def)
  consider "err \<noteq> None" "acct = accountIn w a" "w3 = w2"
    | rec s where "err = None" "acct = (accountIn w a)\<lparr>totalCents := totalCents (accountIn w a) - n\<rparr>" "w3 = w2\<lparr>aw_ledger := s\<rparr>"
      "recordsOf s = (recordsOf (aw_ledger w))(''acct'' := recordsOf (aw_ledger w) ''acct'' @ [rec])"
      "lr_Amount rec = - n" "lr_ActorID rec = a"
    using app_Withdraw_cases [OF wd acct] unfolding same by blast
  then show ?thesis
  proof cases
    case 1
    with err have "\<not> (0 < n \<and> n \<le> 4611686018427387903 \<and> n \<le> totalCents (accountIn w a))" by auto
    with 1 v st in4 led same show ?thesis by (auto simp: withdrawOutcome_def Some Let_def)
  next
    case (2 rec s)
    have "accountIn w3 b = accountIn w b" for b using same(1) [of b] 2(3) by (simp add: accountIn_def)
    moreover have "movedFor s b = movedFor (aw_ledger w) b - (if b = a then n else 0)" for b
      using 2(4-6) by (simp add: movedFor_def)
    moreover from 2(1) err have "0 < n \<and> n \<le> 4611686018427387903 \<and> n \<le> totalCents (accountIn w a)" by (auto split: if_splits)
    ultimately show ?thesis using 2(2,3) v st in4 led by (simp add: withdrawOutcome_def Some Let_def)
  qed
qed

text \<open>What the two inner middlewares and the handler keep.\<close>

lemma chain_P:
  fixes P :: "('l, 'r) appWorld \<Rightarrow> bool"
  assumes withdraw: "\<And>r w. P w \<Longrightarrow> P (snd (snd (Service_Withdraw (appService R zone cfg) env r w)))"
    and spike: "\<And>c now metric lb w. P w \<Longrightarrow> P (snd (DetectSpike (svc_anomaly (appService R zone cfg)) c now metric lb w))"
    and known: "\<And>t c a f w. P w \<Longrightarrow> P (snd (IsKnownDevice (newDeviceTrust R zone cfg t) c a f w))"
    and stores: "\<And>x w. P w \<Longrightarrow> P (w\<lparr>aw_tokens := x\<rparr>)" "\<And>x w. P w \<Longrightarrow> P (w\<lparr>aw_challenges := x\<rparr>)"
    and "P w"
  shows "P (snd (snd (stepup_Middleware (appStepUp cfg) (stepupOpts (svc_devices (appService R zone cfg)) env) (re_stepup env) (re_stepupRnd env)
      (challenge_Middleware appChallenge (challengeOpts (svc_anomaly (appService R zone cfg)) cfg env) (re_challenge env) (re_challengeRnd env)
      (Service_Withdraw (appService R zone cfg) env)) r w)))"
proof -
  let ?s = "appService R zone cfg"
  have svc: "svc_devices ?s = newDeviceTrust R zone cfg" by (simp add: appService_def Let_def)
  have signals: "P (snd (challengeSignals (svc_anomaly ?s) cfg env r a v))" if "P v" for r a v
    using spike [OF that] by (simp add: challengeSignals_def case_prod_unfold)
  have challenge: "P (snd (snd (challenge_Middleware appChallenge (challengeOpts (svc_anomaly ?s) cfg env) nows rnd
      (Service_Withdraw ?s env) r v)))" if "P v" for nows rnd r v
    using that
    by (rule challenge_Middleware_P)
      (auto simp: withdraw challengeOpts_def signals appChallenge_def app_tokenStore_def onPart_def stores split: prod.splits)
  show ?thesis
    using assms(6)
    by (rule stepup_Middleware_P)
      (auto simp: challenge stepupOpts_def svc known appStepUp_def app_challengeStore_def onPart_def stores split: prod.splits)
qed

lemma appMux_money:
  assumes "onMoney (moneyInv cfg) w"
  shows "onMoney (moneyInv cfg) (snd (snd (appMux R zone cfg env path r w)))"
proof -
  let ?s = "appService R zone cfg" and ?P = "onMoney (moneyInv cfg)"
  have svc: "svc_devices ?s = newDeviceTrust R zone cfg" by (simp add: appService_def Let_def)
  have stepup: "?P (snd (snd (stepup_Middleware (appStepUp cfg) (stepupOpts (svc_devices ?s) env) (re_stepup env) (re_stepupRnd env)
      (challenge_Middleware appChallenge (challengeOpts (svc_anomaly ?s) cfg env) (re_challenge env) (re_challengeRnd env)
      (Service_Withdraw ?s env)) r v)))" if "?P v" for r v
    using that by (intro chain_P [where P = ?P]) (simp_all add: Service_Withdraw_money service_money)
  have "?P (snd (snd (withdrawChain (appGuard R cfg) cfg (appStepUp cfg) appChallenge ?s env r w)))"
    unfolding withdrawChain_def using assms stepup refl by (rule app_frame.Handler_P)
  moreover have "?P (snd (snd (TrustDevice ?s env r w)))"
    using moneyInv_ensure [OF assms, of "re_created env" "header_Get r ''X-Account-ID''"] assms
      service_money(7,8) [of R zone cfg "re_device env 0" "rq_ctx r" "re_trust env" "header_Get r ''X-Account-ID''"
        "FingerprintFromRequest r []" "ensureAccount (re_created env) (header_Get r ''X-Account-ID'') w"]
    by (auto simp: TrustDevice_def svc Let_def split: prod.splits option.splits)
  moreover have "?P (snd (snd (Service_Balance ?s r w)))" using assms by (simp add: Service_Balance_def Let_def split: option.split)
  ultimately show ?thesis
    using assms by (auto simp: appMux_def serveMux_def healthHandler_def split: option.splits if_splits)
qed

fun appRun :: "('l, 'r) Server \<Rightarrow> (requestEnv \<times> string \<times> httpRequest) list \<Rightarrow> ('l, 'r) appWorld \<Rightarrow> ('l, 'r) appWorld" where
  "appRun sv [] w = w"
| "appRun sv ((env, path, r) # reqs) w = appRun sv reqs (snd (snd (sv_Mux sv env path r w)))"

lemma moneyInv_start:
  assumes "New L R zone client cfg now w0 = Inr (sv, w)" and "wf_config cfg"
  shows "onMoney (moneyInv cfg) w"
proof -
  have "balanced cfg ledger_NewMemoryStore a
      (case map_of (map (\<lambda>(id, bal). (id, NewAccount bal)) (cf_AccountBalances (c_Demo cfg))) a of Some x \<Rightarrow> x | None \<Rightarrow> NewAccount 0)" for a
  proof -
    have "map_of (map (\<lambda>(id, bal). (id, NewAccount bal)) bs) a = map_option NewAccount (map_of bs a)" for bs :: "(string \<times> int) list"
      by (induction bs) auto
    moreover have "in_i64 b" if "map_of (cf_AccountBalances (c_Demo cfg)) a = Some b" for b
      using assms(2) map_of_SomeD [OF that] by (auto simp: wf_config_def wf_balances_def list_all_iff)
    ultimately show ?thesis
      by (auto simp: balanced_def seedOf_def movedFor_def recordsOf_new NewAccount_def in_i64_def [of 0] split: option.split)
  qed
  then show ?thesis using New_Inr(5,6) [OF assms(1)] by (simp add: moneyInv_def recordsOf_new)
qed

lemma appRun_money: "sv_Mux sv = appMux R zone cfg \<Longrightarrow> onMoney (moneyInv cfg) w \<Longrightarrow> onMoney (moneyInv cfg) (appRun sv reqs w)"
  by (induction sv reqs w rule: appRun.induct) (simp_all add: appMux_money)

section \<open>Redis out of reach\<close>

definition redis_down :: "'r redis \<Rightarrow> bool" where
  "redis_down R \<longleftrightarrow> (\<forall>c body r. \<exists>e. rd_call R c body r = (Inl e, r))"

lemma down_limiter:
  assumes "redis_down R"
  shows "\<exists>e n. app_ipLimiter R s c now key w = (Inl e, w\<lparr>aw_ipSeq := n\<rparr>)"
    and "\<exists>e n. app_acctLimiter R s c now key w = (Inl e, w\<lparr>aw_acctSeq := n\<rparr>)"
proof -
  have "\<exists>e n. slidingWindow_Allow R s c now key (m, r) = (Inl e, n, r)" for m r
  proof (cases "key = [] \<or> c \<noteq> None")
    case True
    then show ?thesis by (auto simp: slidingWindow_Allow_def)
  next
    case False
    define body where "body = slidingWindowScript R (time_UnixMilli now) (sw_rkey s key) (time_UnixMilli now)
      (time_UnixMilli (time_Add now (dur_neg (swc_Window (sw_cfg s))))) (swc_Limit (sw_cfg s)) (sw_member now (u64 (m + 1)))
      (dur_Milliseconds (i64 (swc_Window (sw_cfg s) + second)))"
    obtain e where "rd_call R c body r = (Inl e, r)" using assms unfolding redis_down_def by blast
    with False show ?thesis by (simp add: slidingWindow_Allow_def Let_def flip: body_def)
  qed
  then obtain e n e' n' where "slidingWindow_Allow R s c now key (aw_ipSeq w, aw_redis w) = (Inl e, n, aw_redis w)"
    "slidingWindow_Allow R s c now key (aw_acctSeq w, aw_redis w) = (Inl e', n', aw_redis w)" by meson
  then show "\<exists>e n. app_ipLimiter R s c now key w = (Inl e, w\<lparr>aw_ipSeq := n\<rparr>)"
    "\<exists>e n. app_acctLimiter R s c now key w = (Inl e, w\<lparr>aw_acctSeq := n\<rparr>)"
    by (auto simp: app_ipLimiter_def app_acctLimiter_def onPart_def)
qed

lemma status_writeError: "rp_status (respond (middleware_writeError st m d)) = st"
  by (simp add: middleware_writeError_def respond_def rp_status_def sendHeader_def noResponse_def Encode_def Let_def)

section \<open>Settings that refuse everything\<close>

lemma bad_velocity_layer:
  fixes R :: "'r redis" and w :: "('l, 'r) appWorld"
  assumes "cf_WithdrawMaxPerWindow (c_Velocity cfg) \<le> 0"
  obtains a w' where "layer_velocity (appGuard R cfg) opt env r k w = (Stop a, w')"
proof -
  let ?key = "VelocityKey (rk_account k) (o_Action opt)"
  have "\<exists>e w'. velocity_Check (g_velocity (appGuard R cfg)) (rq_ctx r) (env_velocity env) ?key w = (Inl e, w')"
    using assms by (simp add: velocity_Check_def appGuard_def appRules_def RateOverWindow_Check_def Let_def)
  then show thesis using that by (auto simp: layer_velocity_def storeError_def)
qed

lemma bad_velocity_stops:
  fixes R :: "'r redis" and w :: "('l, 'r) appWorld"
  assumes "cf_WithdrawMaxPerWindow (c_Velocity cfg) \<le> 0"
  obtains a w' where "Handler_layers (appGuard R cfg) opt env r w = (Stop a, w')"
proof -
  obtain v u where v: "Handler_layers (appGuard R cfg) opt env r w = (v, u)" by fastforce
  have "\<exists>a. v = Stop a"
  proof (cases v)
    case (Pass p)
    with v obtain x u4 u5 where "layer_velocity (appGuard R cfg) opt env r (requestKeys opt r) u4 = (Pass x, u5)"
      by (auto simp: Handler_layers_def Let_def split: prod.splits verdict.splits)
    then show ?thesis using bad_velocity_layer [OF assms, of R opt env r "requestKeys opt r" u4] by auto
  qed simp
  then show thesis using v that by blast
qed

text \<open>\<^verbatim>\<open>Load\<close> and \<^verbatim>\<open>New\<close> accept a velocity threshold that is not positive, and then no withdrawal ever goes
  through.\<close>

theorem app_bad_velocity_refuses:
  fixes R :: "'r redis" and v :: "('l, 'r) appWorld"
  assumes "New L R zone client cfg now w0 = Inr (sv, w)" and "cf_WithdrawMaxPerWindow (c_Velocity cfg) \<le> 0"
    and "sv_Mux sv env ''/withdraw'' r v = (acts, res, v')"
  shows "aw_accounts v' = aw_accounts v \<and> aw_ledger v' = aw_ledger v"
proof -
  let ?opt = "Options_withDefaults (withdrawOptions cfg) :: ('l, 'r) appWorld Options" and ?g = "appGuard R cfg :: ('l, 'r) appWorld guard"
    and ?e = "re_call env"
  obtain a u where u: "Handler_layers ?g ?opt ?e r v = (Stop a, u)" using bad_velocity_stops [OF assms(2)] by blast
  have "aw_accounts (snd (Handler_layers ?g ?opt ?e r v)) = aw_accounts v \<and> aw_ledger (snd (Handler_layers ?g ?opt ?e r v)) = aw_ledger v"
    by (rule app_frame.layers_P [where Q = "\<lambda>x y. x = aw_accounts v \<and> y = aw_ledger v"]) simp
  with u assms(3) show ?thesis
    by (auto simp: New_Inr(1) [OF assms(1)] appMux_def serveMux_def withdrawChain_def Handler_def Let_def)
qed

section \<open>Witnesses\<close>

definition demoState :: "(refBucket, refServer) appWorld" where
  "demoState =
     \<lparr>mw_rate = mw_rate demoFresh, mw_idem = mw_idem demoFresh, mw_lock = mw_lock demoFresh, mw_vel = mw_vel demoFresh,
      aw_redis = refEmpty, aw_ipSeq = 0, aw_acctSeq = 0, aw_challenges = NewMemoryChallengeStore, aw_tokens = NewMemoryTokenStore,
      aw_devices = devicetrust_NewMemoryStore, aw_ledger = ledger_NewMemoryStore, aw_accounts = Map.empty, aw_created = Map.empty,
      aw_notifier = None\<rparr>"

definition demoRequestEnv :: requestEnv where
  "demoRequestEnv =
     \<lparr>re_call = demoEnv 0, re_stepup = (\<lambda>i. 0), re_stepupRnd = Inr ''s'', re_spike = 0, re_age = 0, re_challenge = (\<lambda>i. 0),
      re_challengeRnd = Inr ''c'', re_record = 0, re_created = 0, re_ledger = 0, re_device = (\<lambda>i. 0), re_trust = 0, re_notify = 0\<rparr>"

definition deadRedis :: "refServer redis" where
  "deadRedis = refRedis\<lparr>rd_call := (\<lambda>c body r. (Inl (Errorf ''connection refused''), r))\<rparr>"

lemma demo_New:
  obtains sv w where "New L R zone True (Defaults\<lparr>c_Velocity := vel\<rparr>) now w0 = Inr (sv, w)"
proof -
  have "limitsPositive (Defaults\<lparr>c_Velocity := vel\<rparr>)" by (simp add: limitsPositive_def Defaults_def minute_def)
  then show thesis using that New_ok_iff [of L R zone True "Defaults\<lparr>c_Velocity := vel\<rparr>" now w0] by (metis surj_pair)
qed

lemma demo_New_Defaults: obtains sv w where "New L R zone True Defaults now w0 = Inr (sv, w)"
proof -
  have "Defaults\<lparr>c_Velocity := c_Velocity Defaults\<rparr> = Defaults" by (simp add: Defaults_def)
  then show thesis using demo_New [of L R zone "c_Velocity Defaults" now w0] that by metis
qed

end
