(* ===== verification/App_Once.thy ===== *)
theory App_Once
  imports App_Facts
begin

text \<open>
  Retries against the server: the keys of its stores in Redis do not meet as long as accounts avoid two names, so the
  contract \<open>guarded_http\<close> holds of its guard and a request that is repeated with its idempotency key moves money at most
  once.
\<close>

section \<open>Keys that do not meet\<close>

text \<open>The Redis keys of the idempotency store start with \<^verbatim>\<open>prefix:inflight:\<close> and \<^verbatim>\<open>prefix:result:\<close>. Locks and velocity counters live
  under \<^verbatim>\<open>prefix:\<close> followed by the account, so an account named \<^verbatim>\<open>inflight\<close> or \<^verbatim>\<open>result\<close>, or whose name starts with one of the
  two and a colon, shares keys with the idempotency store.\<close>

definition reserved :: "string \<Rightarrow> bool" where
  "reserved key \<longleftrightarrow> takeWhile (\<lambda>c. c \<noteq> CHR '':'') key \<in> {''inflight'', ''result''}"

lemma reserved_action: "reserved (a @ '':'' @ x) \<longleftrightarrow> reserved a"
proof -
  have "takeWhile (\<lambda>c. c \<noteq> CHR '':'') (a @ '':'' @ x) = takeWhile (\<lambda>c. c \<noteq> CHR '':'') a" by (induction a) simp_all
  then show ?thesis by (simp only: reserved_def)
qed

definition otherKey :: "idemRedis \<Rightarrow> string \<Rightarrow> bool" where
  "otherKey s k \<longleftrightarrow> (\<forall>j. k \<noteq> inflightKey s j \<and> k \<noteq> resultKey s j)"

lemma otherKey_prefixed: "\<not> reserved key \<Longrightarrow> otherKey s (ir_prefix s @ '':'' @ key)"
  by (auto simp: otherKey_def inflightKey_def resultKey_def reserved_def)

lemma reserved_simps [simp]: "\<not> reserved (''ip:'' @ x)" "\<not> reserved (''acct:'' @ x)" "\<not> reserved (''anomaly:'' @ x)" "\<not> reserved (''devicetrust:'' @ x)"
  by (simp_all add: reserved_def)

definition sameIdem :: "'r redis \<Rightarrow> idemRedis \<Rightarrow> 'r \<Rightarrow> 'r \<Rightarrow> bool" where
  "sameIdem R s r r' \<longleftrightarrow> (\<forall>t k. \<not> otherKey s k \<longrightarrow> rd_GET R t k r' = rd_GET R t k r)"

lemma sameIdem_refl [simp]: "sameIdem R s r r"
  by (simp add: sameIdem_def)

lemma sameIdem_trans: "sameIdem R s r r' \<Longrightarrow> sameIdem R s r' r'' \<Longrightarrow> sameIdem R s r r''"
  by (simp add: sameIdem_def)

lemma sameIdem_slot: "sameIdem R s r r' \<Longrightarrow> redisSlot R s t k r' = redisSlot R s t k r"
  unfolding sameIdem_def redisSlot_def otherKey_def by (metis (no_types, lifting))

lemma sameIdem_commands:
  assumes "redis_frame_law R" "otherKey s k"
  shows "sameIdem R s r (rd_SET R t k v r)" "sameIdem R s r (snd (rd_SETNXPX R t k v px r))" "sameIdem R s r (snd (rd_DEL R t k r))"
    "sameIdem R s r (rd_ZADD R t k x m r)" "sameIdem R s r (rd_ZREM R t k m r)" "sameIdem R s r (rd_ZREMRANGEBYSCORE R t k a b r)"
    "sameIdem R s r (rd_ZINCRBY R t k x m r)" "sameIdem R s r (rd_PEXPIRE R t k px r)"
  using frame_simps [OF assms(1)] assms(2) unfolding sameIdem_def by metis+

lemma sameIdem_call:
  assumes "redis_call_law R" "sameIdem R s r (snd (body r))"
  shows "sameIdem R s r (snd (rd_call R c body r))"
  using call_state [OF assms(1), of c body r] assms(2) by (cases "rd_call R c body r") auto

section \<open>The other users of the server\<close>

lemma slidingWindow_sameIdem:
  assumes "redis_call_law R" "redis_frame_law R" "otherKey s (sw_rkey sw key)"
  shows "sameIdem R s (snd st) (snd (snd (slidingWindow_Allow R sw c now key st)))"
proof -
  note cmd = sameIdem_commands [OF assms(2,3)]
  have body: "sameIdem R s r (snd (slidingWindowScript R t (sw_rkey sw key) n ws lim m ttl r))" for t n ws lim m ttl r
    unfolding slidingWindowScript_def Let_def
    using sameIdem_trans [OF sameIdem_trans [OF cmd(6) cmd(4)] cmd(5)] sameIdem_trans [OF sameIdem_trans [OF cmd(6) cmd(4)] cmd(8)]
    by simp
  let ?b = "slidingWindowScript R (time_UnixMilli now) (sw_rkey sw key) (time_UnixMilli now)
      (time_UnixMilli (time_Add now (dur_neg (swc_Window (sw_cfg sw))))) (swc_Limit (sw_cfg sw)) (sw_member now (u64 (fst st + 1)))
      (dur_Milliseconds (i64 (swc_Window (sw_cfg sw) + second)))"
  have "sameIdem R s (snd st) (snd (rd_call R None ?b (snd st)))" by (rule sameIdem_call [OF assms(1) body])
  then show ?thesis
    by (auto simp: slidingWindow_Allow_def Let_def split: option.splits prod.splits sum.splits)
qed

lemma velocity_sameIdem:
  assumes "redis_call_law R" "redis_frame_law R" "otherKey s (velocity_rkey v key)"
  shows "sameIdem R s r (snd (vel_redis_Record R v c now key ts r))" "sameIdem R s r (snd (vel_redis_Count R v c now key d r))"
    "sameIdem R s r (snd (vel_redis_Last R v c now key r))"
proof -
  note cmd = sameIdem_commands [OF assms(2,3)] and call = sameIdem_call [OF assms(1)]
  let ?rec = "\<lambda>q. (RNil, rd_PEXPIRE R (time_UnixMilli now) (velocity_rkey v key) (rd_px R (24 * hour))
      (rd_ZADD R (time_UnixMilli now) (velocity_rkey v key) (time_UnixMilli ts) (FormatInt (time_UnixNano ts)) q))"
  have "sameIdem R s r (snd (rd_call R c ?rec r))"
    by (rule call) (use sameIdem_trans [OF cmd(4) cmd(8)] in simp)
  then show "sameIdem R s r (snd (vel_redis_Record R v c now key ts r))"
    unfolding vel_redis_Record_def Let_def by (auto split: prod.splits sum.splits)
  let ?rem = "rd_ZREMRANGEBYSCORE R (time_UnixMilli now) (velocity_rkey v key) 0 (time_UnixMilli (time_Add now (dur_neg d)))"
  have "sameIdem R s r (snd (rd_call R c (\<lambda>q. (RInt (rd_ZCARD R (time_UnixMilli now) (velocity_rkey v key) (?rem q)), ?rem q)) r))"
    by (rule call) (simp add: cmd(6))
  then show "sameIdem R s r (snd (vel_redis_Count R v c now key d r))"
    unfolding vel_redis_Count_def Let_def by (auto split: prod.splits sum.splits)
  let ?last = "\<lambda>q. (case rd_ZMAX R (time_UnixMilli now) (velocity_rkey v key) q of
      None \<Rightarrow> RArr [] | Some (m, x) \<Rightarrow> RArr [RBulk m, RInt x], q)"
  have "sameIdem R s r (snd (rd_call R c ?last r))" by (rule call) simp
  then show "sameIdem R s r (snd (vel_redis_Last R v c now key r))"
    unfolding vel_redis_Last_def Let_def by (auto split: prod.splits sum.splits list.splits reply.splits)
qed

lemma lock_sameIdem:
  assumes "redis_call_law R" "redis_frame_law R"
  shows "otherKey s (lock_rkey l key) \<Longrightarrow> sameIdem R s r (snd (lock_redis_Acquire R l c now rnd key d r))"
    "otherKey s (hl_key h) \<Longrightarrow> sameIdem R s r (snd (lock_redis_Release R h c now r))"
proof -
  show "sameIdem R s r (snd (lock_redis_Acquire R l c now rnd key d r))" if "otherKey s (lock_rkey l key)"
  proof -
    have "sameIdem R s r (snd (rd_call R c (setNXCommand R (time_UnixMilli now) (lock_rkey l key) tok d) r))" for tok
      using sameIdem_commands(2) [OF assms(2) that] by (intro sameIdem_call [OF assms(1)]) (simp add: setNXCommand_def case_prod_unfold)
    then show ?thesis
      unfolding lock_redis_Acquire_def by (auto split: sum.splits prod.splits) (metis snd_conv)+
  qed
  show "sameIdem R s r (snd (lock_redis_Release R h c now r))" if "otherKey s (hl_key h)"
  proof -
    have "sameIdem R s r (snd (rd_call R c (releaseScript R (time_UnixMilli now) (hl_key h) (hl_token h)) r))"
      using sameIdem_commands(3) [OF assms(2) that] by (intro sameIdem_call [OF assms(1)]) (simp add: releaseScript_def case_prod_unfold)
    then show ?thesis
      unfolding lock_redis_Release_def by (auto split: sum.splits prod.splits)
  qed
qed

lemma anomaly_sameIdem:
  assumes "redis_call_law R" "redis_frame_law R" "otherKey s (anomaly_redisKey k metric)"
  shows "sameIdem R s r (snd (anomaly_redis_Increment R k c now metric ts n r))"
    "sameIdem R s r (snd (anomaly_redis_CountInWindow R k c now metric x y r))"
proof -
  note cmd = sameIdem_commands [OF assms(2,3)] and call = sameIdem_call [OF assms(1)]
  let ?add = "\<lambda>q. (RNil, rd_ZINCRBY R (time_UnixMilli now) (anomaly_redisKey k metric) n (FormatInt (minuteOf ts)) q)"
    and ?exp = "\<lambda>q. (RNil, rd_PEXPIRE R (time_UnixMilli now) (anomaly_redisKey k metric) (rd_px R (8 * 24 * hour)) q)"
  have "sameIdem R s r (snd (rd_call R c ?add r))" "sameIdem R s r' (snd (rd_call R c ?exp r'))" for r'
    by (rule call, simp add: cmd)+
  then show "sameIdem R s r (snd (anomaly_redis_Increment R k c now metric ts n r))"
    unfolding anomaly_redis_Increment_def Let_def
    by (auto split: sum.splits prod.splits) (metis sameIdem_trans snd_conv)+
  have sum: "sameIdem R s r' (snd (sumScores R c t key ms tot r'))" for t key ms tot r'
  proof (induction ms arbitrary: tot r')
    case (Cons m ms)
    let ?b = "\<lambda>q. (case rd_ZSCORE R t key (case m of RBulk n \<Rightarrow> n | _ \<Rightarrow> []) q of None \<Rightarrow> RNil | Some n \<Rightarrow> RInt n, q)"
    have "sameIdem R s r' (snd (rd_call R c ?b r'))" by (rule call) simp
    then show ?case
      using Cons.IH by (auto simp: Let_def split: sum.splits reply.splits prod.splits) (metis sameIdem_trans snd_conv)+
  qed simp
  let ?b = "\<lambda>q. (RArr (map RBulk (rd_ZRANGEBYSCORE R (time_UnixMilli now) (anomaly_redisKey k metric) (minuteOf x) (minuteOf y - 1) q)), q)"
  have "sameIdem R s r (snd (rd_call R c ?b r))" by (rule call) simp
  then show "sameIdem R s r (snd (anomaly_redis_CountInWindow R k c now metric x y r))"
    using sum unfolding anomaly_redis_CountInWindow_def Let_def
    by (auto split: sum.splits prod.splits) (metis sameIdem_trans snd_conv)+
qed

lemma device_sameIdem:
  assumes "redis_call_law R" "redis_frame_law R" "otherKey s (device_key d a f)"
  shows "sameIdem R s r (snd (device_redis_Get R d t c a f r))"
    "sameIdem R s r (snd (device_redis_MarkTrusted R d zone t c a f ts r))"
proof -
  note cmd = sameIdem_commands [OF assms(2,3)] and call = sameIdem_call [OF assms(1)]
  have get: "sameIdem R s r (snd (device_redis_Get R d t c a f r))" for r
  proof -
    let ?b = "\<lambda>q. (case rd_GET R t (device_key d a f) q of None \<Rightarrow> RNil | Some v \<Rightarrow> RBulk v, q)"
    have "sameIdem R s r (snd (rd_call R c ?b r))" by (rule call) simp
    then show ?thesis unfolding device_redis_Get_def by (auto split: sum.splits reply.splits option.splits prod.splits)
  qed
  then show "sameIdem R s r (snd (device_redis_Get R d t c a f r))" .
  have save: "sameIdem R s r (snd (device_redis_save R d zone t c a f rec r))" for rec r
  proof -
    have "sameIdem R s r (snd (rd_call R c (\<lambda>q. (RNil, rd_SET R t (device_key d a f) b q)) r))" for b
      by (rule call) (simp add: cmd)
    then show ?thesis unfolding device_redis_save_def by (auto split: sum.splits prod.splits) (metis snd_conv)+
  qed
  obtain v u where vu: "device_redis_Get R d t c a f r = (v, u)" by fastforce
  with get [of r] have "sameIdem R s r u" by simp
  then show "sameIdem R s r (snd (device_redis_MarkTrusted R d zone t c a f ts r))"
    using sameIdem_trans [OF _ save] unfolding device_redis_MarkTrusted_def vu by (simp split: sum.split)
qed

section \<open>The idempotency store of the server\<close>

definition appSlot :: "'r redis \<Rightarrow> Config \<Rightarrow> time \<Rightarrow> string \<Rightarrow> ('l, 'r) appWorld \<Rightarrow> slot" where
  "appSlot R cfg t k w = redisSlot R (idempotency_NewRedisStore (cf_KeyPrefix (c_Redis cfg))) t k (aw_redis w)"

lemma onRedis_eq: "onRedis f w = (x, w') \<longleftrightarrow> (\<exists>r. f (aw_redis w) = (x, r) \<and> w' = w\<lparr>aw_redis := r\<rparr>)"
  by (simp add: onRedis_def onPart_eq)

lemma app_idempotency_store:
  fixes R :: "'r redis"
  assumes "redis_call_law R" "redis_decode_law R" "redis_string_law R"
  shows "idempotency_store (app_idemStore R (idempotency_NewRedisStore (cf_KeyPrefix (c_Redis cfg))) :: ('l, 'r) appWorld idemStore)
     (appSlot R cfg) (2 * millisecond) millisecond"
proof -
  let ?s = "idempotency_NewRedisStore (cf_KeyPrefix (c_Redis cfg))" and ?S = "app_idemStore R (idempotency_NewRedisStore (cf_KeyPrefix (c_Redis cfg)))"
  note st = redis_idempotency_store [OF assms, of ?s]
  have claim: "\<exists>r. store_Claim (idem_redis_Store R ?s) c now key d (aw_redis w) = (x, r) \<and> w' = w\<lparr>aw_redis := r\<rparr>"
    if "store_Claim ?S c now key d w = (x, w')" for c now key d x and w w' :: "('l, 'r) appWorld"
    using that by (simp add: app_idemStore_def idem_redis_Store_def onRedis_eq)
  have complete: "\<exists>r. store_Complete (idem_redis_Store R ?s) c now key b d (aw_redis w) = (y, r) \<and> w' = w\<lparr>aw_redis := r\<rparr>"
    if "store_Complete ?S c now key b d w = (y, w')" for c now key b d y and w w' :: "('l, 'r) appWorld"
    using that by (simp add: app_idemStore_def idem_redis_Store_def onRedis_eq)
  show ?thesis
    unfolding appSlot_def
  proof (unfold_locales, goal_cases)
    case 1
    then show ?case using claim idempotency_store.claim_reply [OF st] by blast
  next
    case 2
    from claim [OF 2(1)] idempotency_store.claim_granted [OF st _ 2(2-6)] show ?case by auto
  next
    case 3
    from claim [OF 3(1)] idempotency_store.claim_held [OF st _ 3(2-4)] show ?case by auto
  next
    case 4
    from claim [OF 4(1)] idempotency_store.claim_frame [OF st _ 4(2-4)] show ?case by auto
  next
    case 5
    from complete [OF 5(1)] idempotency_store.complete_stored [OF st _ 5(2-5)] show ?case by auto
  next
    case 6
    from complete [OF 6(1)] idempotency_store.complete_failed [OF st _ 6(2-6)] show ?case by auto
  next
    case 7
    from complete [OF 7(1)] idempotency_store.complete_frame [OF st _ 7(2-4)] show ?case by auto
  qed
qed

text \<open>The slots are as they were.\<close>

definition keepsSlot :: "'r redis \<Rightarrow> Config \<Rightarrow> (time \<Rightarrow> string \<Rightarrow> slot) \<Rightarrow> ('l, 'r) appWorld \<Rightarrow> bool" where
  "keepsSlot R cfg S w \<longleftrightarrow> (\<forall>t k. appSlot R cfg t k w = S t k)"

lemma appSlot_onRedis:
  assumes "\<And>r. sameIdem R (idempotency_NewRedisStore (cf_KeyPrefix (c_Redis cfg))) r (snd (f r))"
  shows "appSlot R cfg t k (snd (onRedis f w)) = appSlot R cfg t k w"
proof -
  obtain x w' where o: "onRedis f w = (x, w')" by fastforce
  then obtain r where r: "f (aw_redis w) = (x, r)" "w' = w\<lparr>aw_redis := r\<rparr>" by (auto simp: onRedis_eq)
  with assms [of "aw_redis w"] show ?thesis by (simp add: o appSlot_def sameIdem_slot)
qed

text \<open>The prefix is not empty in a configuration \<^verbatim>\<open>Load\<close> accepts; then all stores share it.\<close>

lemma app_otherKey:
  assumes "cf_KeyPrefix (c_Redis cfg) = p" "p \<noteq> []"
  shows "otherKey (idempotency_NewRedisStore p) (sw_rkey \<lparr>sw_prefix = p @ '':ip'', sw_cfg = wc\<rparr> key)"
    and "otherKey (idempotency_NewRedisStore p) (sw_rkey \<lparr>sw_prefix = p @ '':acct'', sw_cfg = wc\<rparr> key)"
    and "\<not> reserved key \<Longrightarrow> otherKey (idempotency_NewRedisStore p) (velocity_rkey (velocity_NewRedisStore p) key)"
    and "\<not> reserved key \<Longrightarrow> otherKey (idempotency_NewRedisStore p) (lock_rkey (lock_NewRedis p) key)"
    and "otherKey (idempotency_NewRedisStore p) (anomaly_redisKey (NewRedisCounter (p @ '':anomaly'')) metric)"
    and "otherKey (idempotency_NewRedisStore p) (device_key (devicetrust_NewRedisStore (p @ '':devicetrust'')) a f)"
proof -
  have p: "ir_prefix (idempotency_NewRedisStore p) = p" using assms(2) by (simp add: idempotency_NewRedisStore_def)
  note o = otherKey_prefixed [of _ "idempotency_NewRedisStore p", unfolded p]
  show "otherKey (idempotency_NewRedisStore p) (sw_rkey \<lparr>sw_prefix = p @ '':ip'', sw_cfg = wc\<rparr> key)"
    using o [of "''ip:'' @ ''sw:'' @ key"] by (simp add: sw_rkey_def reserved_def)
  show "otherKey (idempotency_NewRedisStore p) (sw_rkey \<lparr>sw_prefix = p @ '':acct'', sw_cfg = wc\<rparr> key)"
    using o [of "''acct:'' @ ''sw:'' @ key"] by (simp add: sw_rkey_def reserved_def)
  show "otherKey (idempotency_NewRedisStore p) (velocity_rkey (velocity_NewRedisStore p) key)" if "\<not> reserved key"
    using o [OF that] assms(2) by (simp add: velocity_rkey_def velocity_NewRedisStore_def)
  show "otherKey (idempotency_NewRedisStore p) (lock_rkey (lock_NewRedis p) key)" if "\<not> reserved key"
    using o [OF that] assms(2) by (simp add: lock_rkey_def lock_NewRedis_def)
  show "otherKey (idempotency_NewRedisStore p) (anomaly_redisKey (NewRedisCounter (p @ '':anomaly'')) metric)"
    using o [of "''anomaly:'' @ metric"] by (simp add: anomaly_redisKey_def NewRedisCounter_def reserved_def)
  show "otherKey (idempotency_NewRedisStore p) (device_key (devicetrust_NewRedisStore (p @ '':devicetrust'')) a f)"
    using o [of "''devicetrust:'' @ a @ '':'' @ f"] by (simp add: device_key_def devicetrust_NewRedisStore_def reserved_def)
qed

section \<open>The guard on accounts that are not reserved\<close>

text \<open>The guard with the requests of reserved accounts cut off before lock and velocity store. For all other accounts it is the
  guard of the server, and it keeps the contract \<open>guarded_http\<close> without conditions.\<close>

definition safeVel :: "'w velStore \<Rightarrow> 'w velStore" where
  "safeVel V =
     \<lparr>vs_Record = (\<lambda>c now key ts w. if reserved key then (None, w) else vs_Record V c now key ts w),
      vs_Count = (\<lambda>c now key d w. if reserved key then (Inr 0, w) else vs_Count V c now key d w),
      vs_Last = (\<lambda>c now key w. if reserved key then (Inr None, w) else vs_Last V c now key w)\<rparr>"

definition safeLock :: "idemRedis \<Rightarrow> 'w lockClient \<Rightarrow> 'w lockClient" where
  "safeLock s C =
     \<lparr>client_Acquire = (\<lambda>c now rnd key d w. if reserved key then (Inl lock_ErrNotAcquired, w) else client_Acquire C c now rnd key d w),
      client_Release = (\<lambda>h c now w. if otherKey s (hl_key h) then client_Release C h c now w else (None, w))\<rparr>"

definition safeGuard :: "'r redis \<Rightarrow> Config \<Rightarrow> ('l, 'r) appWorld guard" where
  "safeGuard R cfg =
     (let g = appGuard R cfg; s = idempotency_NewRedisStore (cf_KeyPrefix (c_Redis cfg)) in
      g\<lparr>g_lock := (g_lock g)\<lparr>lm_client := safeLock s (lm_client (g_lock g))\<rparr>,
        g_velocity := (g_velocity g)\<lparr>ve_store := safeVel (ve_store (g_velocity g))\<rparr>\<rparr>)"

lemma safeGuard_simps [simp]:
  "g_ipRate (safeGuard R cfg) = g_ipRate (appGuard R cfg)" "g_rate (safeGuard R cfg) = g_rate (appGuard R cfg)"
  "g_idempotency (safeGuard R cfg) = g_idempotency (appGuard R cfg)" "lm_ttl (g_lock (safeGuard R cfg :: ('l, 'r) appWorld guard)) = lm_ttl (g_lock (appGuard R cfg :: ('l, 'r) appWorld guard))"
  "ve_rules (g_velocity (safeGuard R cfg)) = ve_rules (g_velocity (appGuard R cfg))"
  by (simp_all add: safeGuard_def Let_def)

lemma app_limiters_slot:
  fixes w :: "('l, 'r) appWorld"
  assumes "redis_call_law R" "redis_frame_law R" "cf_KeyPrefix (c_Redis cfg) = p" "p \<noteq> []"
  shows "appSlot R cfg t k (snd (app_ipLimiter R \<lparr>sw_prefix = p @ '':ip'', sw_cfg = wc\<rparr> c now key w)) = appSlot R cfg t k w"
    and "appSlot R cfg t k (snd (app_acctLimiter R \<lparr>sw_prefix = p @ '':acct'', sw_cfg = wc\<rparr> c now key w)) = appSlot R cfg t k w"
  using slidingWindow_sameIdem [OF assms(1,2) app_otherKey(1) [OF assms(3,4), of wc key], of "(aw_ipSeq w, aw_redis w)" c now]
    slidingWindow_sameIdem [OF assms(1,2) app_otherKey(2) [OF assms(3,4), of wc key], of "(aw_acctSeq w, aw_redis w)" c now]
  by (auto simp: app_ipLimiter_def app_acctLimiter_def onPart_def appSlot_def assms(3) intro: sameIdem_slot split: prod.splits)

lemma app_velocity_frame:
  fixes S :: "time \<Rightarrow> string \<Rightarrow> slot"
  assumes "redis_call_law R" "redis_frame_law R" "cf_KeyPrefix (c_Redis cfg) = p" "p \<noteq> []"
  shows "velocity_frame (g_velocity (safeGuard R cfg)) (appRules cfg) (keepsSlot R cfg S :: ('l, 'r) appWorld \<Rightarrow> bool)"
proof -
  have ops: "keepsSlot R cfg S (snd (onRedis (vel_redis_Record R (velocity_NewRedisStore p) c now key ts) w)) = keepsSlot R cfg S w"
    "keepsSlot R cfg S (snd (onRedis (vel_redis_Count R (velocity_NewRedisStore p) c now key d) w)) = keepsSlot R cfg S w"
    "keepsSlot R cfg S (snd (onRedis (vel_redis_Last R (velocity_NewRedisStore p) c now key) w)) = keepsSlot R cfg S w"
    if "\<not> reserved key" for c now key ts d and w :: "('l, 'r) appWorld"
    using velocity_sameIdem [OF assms(1,2) app_otherKey(3) [OF assms(3,4) that]]
    by (simp_all add: keepsSlot_def appSlot_onRedis assms(3))
  show ?thesis
    by unfold_locales
      (simp_all add: safeGuard_def Let_def safeVel_def appGuard_def app_velStore_def ops assms(3))
qed

lemma app_guarded_http:
  fixes R :: "'r redis"
  assumes "redis_call_law R" "redis_decode_law R" "redis_string_law R" "redis_frame_law R"
    and p: "cf_KeyPrefix (c_Redis cfg) = p" "p \<noteq> []" and ttl: "millisecond \<le> cf_IdempotencyTTL (c_Idempotency cfg)"
  shows "guarded_http (app_idemStore R (idempotency_NewRedisStore p)) (appSlot R cfg) (2 * millisecond) millisecond
     (safeGuard R cfg :: ('l, 'r) appWorld guard) (Options_withDefaults (withdrawOptions cfg))"
proof -
  let ?g = "safeGuard R cfg :: ('l, 'r) appWorld guard"
  have store: "im_store (g_idempotency ?g) = app_idemStore R (idempotency_NewRedisStore p)" "millisecond \<le> im_ttl (g_idempotency ?g)"
    using ttl by (simp_all add: appGuard_def idempotency_New_def Let_def p millisecond_def)
  have acq: "appSlot R cfg t k (snd (client_Acquire (lm_client (g_lock ?g)) c now rnd key d w)) = appSlot R cfg t k w"
    for t k c now rnd key d w
  proof (cases "reserved key")
    case False
    then have "appSlot R cfg t k (snd (onRedis (lock_redis_Acquire R (lock_NewRedis p) c now rnd key d) w)) = appSlot R cfg t k w"
      using lock_sameIdem(1) [OF assms(1,4) app_otherKey(4) [OF p False]] by (intro appSlot_onRedis) (simp add: p)
    with False show ?thesis by (simp add: safeGuard_def Let_def safeLock_def appGuard_def lock_New_def app_lockClient_def p)
  qed (simp add: safeGuard_def Let_def safeLock_def)
  have rel: "appSlot R cfg t k (snd (client_Release (lm_client (g_lock ?g)) h c now w)) = appSlot R cfg t k w" for t k h c now w
  proof (cases "otherKey (idempotency_NewRedisStore p) (hl_key h)")
    case True
    then have "appSlot R cfg t k (snd (onRedis (lock_redis_Release R h c now) w)) = appSlot R cfg t k w"
      using lock_sameIdem(2) [OF assms(1,4) True] by (intro appSlot_onRedis) (simp add: p)
    with True show ?thesis by (simp add: safeGuard_def Let_def safeLock_def appGuard_def lock_New_def app_lockClient_def p)
  qed (simp add: safeGuard_def Let_def safeLock_def p)
  have vel: "appSlot R cfg t k (snd (velocity_Check (g_velocity ?g) c nows key w)) = appSlot R cfg t k w" for t k c nows key w
    using velocity_frame.velocity_Check_P [OF app_velocity_frame [OF assms(1,4) p], of "\<lambda>t k. appSlot R cfg t k w" w c nows key]
    by (simp add: keepsSlot_def)
  have lims: "appSlot R cfg t k (snd (g_rate ?g c now key w)) = appSlot R cfg t k w"
    "g_ipRate ?g = Some ip \<Longrightarrow> appSlot R cfg t k (snd (ip c now key w)) = appSlot R cfg t k w" for t k c now key w ip
    using app_limiters_slot [OF assms(1,4) p] by (auto simp: appGuard_def Let_def p)
  show ?thesis
    using app_idempotency_store [OF assms(1-3), of cfg] store lims vel acq rel
    by (intro guarded_http.intro guarded.intro guarded_axioms.intro guarded_http_axioms.intro)
      (auto simp: p Options_withDefaults_def withdrawOptions_def)
qed

text \<open>For an account that is not reserved nothing is cut off.\<close>

lemma safe_velocity_Check:
  fixes w :: "('l, 'r) appWorld"
  assumes "\<not> reserved key"
  shows "velocity_Check (g_velocity (safeGuard R cfg)) c nows key w = velocity_Check (g_velocity (appGuard R cfg)) c nows key w"
proof -
  have rule: "ruleOf b c now key (safeVel V) v = ruleOf b c now key V v" for b now V and v :: "('l, 'r) appWorld"
    using assms by (cases b) (simp_all add: RateOverWindow_Check_def MinInterval_Check_def safeVel_def)
  have "runRules (map ruleOf bs) c nows key (safeVel V) v = runRules (map ruleOf bs) c nows key V v" for bs nows V and v :: "('l, 'r) appWorld"
    by (induction bs arbitrary: nows v) (simp_all add: rule split: prod.split sum.split)
  moreover have "vs_Record (safeVel V) c now key ts v = vs_Record V c now key ts v" for V now ts and v :: "('l, 'r) appWorld"
    using assms by (simp add: safeVel_def)
  moreover have "ve_rules (g_velocity (appGuard R cfg :: ('l, 'r) appWorld guard)) = map ruleOf (appRules cfg)"
    by (simp add: appGuard_def Let_def)
  moreover have "ve_store (g_velocity (safeGuard R cfg :: ('l, 'r) appWorld guard)) = safeVel (ve_store (g_velocity (appGuard R cfg)))"
    by (simp add: safeGuard_def Let_def)
  ultimately show ?thesis unfolding velocity_Check_def by (simp only: safeGuard_simps)
qed

definition safeRequest :: "httpRequest \<Rightarrow> bool" where
  "safeRequest r \<longleftrightarrow> \<not> reserved (defaultKey r)"

lemma safe_layers:
  fixes w :: "('l, 'r) appWorld"
  assumes "safeRequest r" and opt_def: "opt = Options_withDefaults (withdrawOptions cfg)"
  shows "Handler_layers (safeGuard R cfg) opt env r w = Handler_layers (appGuard R cfg) opt env r w"
proof -
  let ?k = "requestKeys opt r"
  have acct: "\<not> reserved (rk_account ?k)" "rk_lock ?k = rk_account ?k"
    using assms(1) by (simp_all add: safeRequest_def opt_def requestKeys_def Options_lockKey_def Options_withDefaults_def withdrawOptions_def
        callKey_def orElse_def)
  then have "\<not> reserved (VelocityKey (rk_account ?k) (o_Action opt))"
    using reserved_action [of "rk_account ?k" "o_Action opt"] by (simp add: VelocityKey_def)
  then have vel: "layer_velocity (safeGuard R cfg) opt env r ?k v = layer_velocity (appGuard R cfg) opt env r ?k v" for v
    by (simp add: layer_velocity_def safe_velocity_Check)
  have "TryLock (safeGuard R cfg) c now rnd (rk_lock ?k) v = TryLock (appGuard R cfg) c now rnd (rk_lock ?k) v"
    for c now rnd and v :: "('l, 'r) appWorld"
    using acct by (simp add: TryLock_def lock_TryAcquire_def) (simp add: safeGuard_def Let_def safeLock_def)
  then have lck: "layer_lock (safeGuard R cfg) opt env c r' ?k v = layer_lock (appGuard R cfg) opt env c r' ?k v" for c r' v
    by (simp add: layer_lock_def)
  have others: "layer_ip (safeGuard R cfg) opt env r ?k v = layer_ip (appGuard R cfg) opt env r ?k v"
    "layer_account (safeGuard R cfg) opt env r ?k v = layer_account (appGuard R cfg) opt env r ?k v"
    "layer_idempotency (safeGuard R cfg) opt env r ?k v = layer_idempotency (appGuard R cfg) opt env r ?k v" for v
    by (simp_all add: layer_ip_def layer_account_def layer_idempotency_def)
  show ?thesis unfolding Handler_layers_def Let_def by (simp only: vel lck others)
qed

section \<open>The handlers leave the slots alone\<close>

lemma app_Withdraw_redis:
  "aw_redis (snd (snd (Withdraw \<lparr>lg_store = app_ledgerStore\<rparr> c now amount actor src (acct, w)))) = aw_redis w"
proof -
  obtain rec s where "RecordTransaction \<lparr>lg_store = app_ledgerStore\<rparr> c now ''acct'' (i64 (- amount)) TxWithdrawal actor src w =
      (Inr rec, w\<lparr>aw_ledger := s\<rparr>)" by (rule app_Record)
  then show ?thesis by (cases "validateAmount amount") (simp_all add: Withdraw_def Let_def)
qed

lemma keepsSlot_redis: "aw_redis w' = aw_redis w \<Longrightarrow> keepsSlot R cfg S w' = keepsSlot R cfg S w"
  by (simp add: keepsSlot_def appSlot_def)

lemma keepsSlot_onRedis:
  "(\<And>r. sameIdem R (idempotency_NewRedisStore (cf_KeyPrefix (c_Redis cfg))) r (snd (f r))) \<Longrightarrow>
     keepsSlot R cfg S (snd (onRedis f w)) = keepsSlot R cfg S w"
  by (simp add: keepsSlot_def appSlot_onRedis)

lemma service_slot:
  fixes R :: "'r redis" and w :: "('l, 'r) appWorld"
  assumes "redis_call_law R" "redis_frame_law R" and p: "cf_KeyPrefix (c_Redis cfg) = p" "p \<noteq> []"
  shows "keepsSlot R cfg S (snd (anomaly_Record (svc_anomaly (appService R zone cfg)) c now metric d w)) = keepsSlot R cfg S w"
    and "keepsSlot R cfg S (snd (DetectSpike (svc_anomaly (appService R zone cfg)) c now metric lb w)) = keepsSlot R cfg S w"
    and "keepsSlot R cfg S (snd (IsKnownDevice (newDeviceTrust R zone cfg t) c a f w)) = keepsSlot R cfg S w"
    and "keepsSlot R cfg S (snd (MarkDeviceTrusted (newDeviceTrust R zone cfg t) c now a f w)) = keepsSlot R cfg S w"
    and "keepsSlot R cfg S (alertUnknown env known a f ip w) = keepsSlot R cfg S w"
    and "keepsSlot R cfg S (ensureAccount now a w) = keepsSlot R cfg S w"
proof -
  define k where "k = NewRedisCounter (p @ '':anomaly'')"
  have det: "det_counter (svc_anomaly (appService R zone cfg)) = app_counter R k"
    by (simp add: appService_def anomaly_New_def Let_def k_def p)
  note ctr = anomaly_sameIdem [OF assms(1,2) app_otherKey(5) [OF p]]
  have count: "keepsSlot R cfg S (snd (ctr_CountInWindow (app_counter R k) c now metric x y v)) = keepsSlot R cfg S v"
    for c now metric x y and v :: "('l, 'r) appWorld"
    unfolding app_counter_def counter.simps k_def by (rule keepsSlot_onRedis) (simp add: p ctr)
  have incr: "keepsSlot R cfg S (snd (ctr_Increment (app_counter R k) c now metric ts n v)) = keepsSlot R cfg S v"
    for c now metric ts n and v :: "('l, 'r) appWorld"
    unfolding app_counter_def counter.simps k_def by (rule keepsSlot_onRedis) (simp add: p ctr)
  show "keepsSlot R cfg S (snd (anomaly_Record (svc_anomaly (appService R zone cfg)) c now metric d w)) = keepsSlot R cfg S w"
    by (simp add: anomaly_Record_def det incr)
  show "keepsSlot R cfg S (snd (DetectSpike (svc_anomaly (appService R zone cfg)) c now metric lb w)) = keepsSlot R cfg S w"
  proof -
    let ?now = "time_Truncate now minute" and ?lb = "if lb < 1 then 60 else lb"
    obtain x1 u1 where 1: "ctr_CountInWindow (app_counter R k) c now metric ?now (time_Add ?now minute) w = (x1, u1)" by fastforce
    obtain x2 u2 where 2: "ctr_CountInWindow (app_counter R k) c now metric (time_Add ?now (i64 (i64 (- ?lb) * minute))) ?now u1 = (x2, u2)"
      by fastforce
    have "snd (DetectSpike (svc_anomaly (appService R zone cfg)) c now metric lb w) \<in> {w, u1, u2}"
      unfolding DetectSpike_def Let_def det 1 prod.case 2
      by (cases x1; cases x2; simp only: sum.case prod.case if_distrib [of snd] snd_conv insert_iff simp_thms split: if_split)
    moreover have "keepsSlot R cfg S u1 = keepsSlot R cfg S w"
      using count [of c now metric ?now "time_Add ?now minute" w] unfolding 1 by simp
    moreover have "keepsSlot R cfg S u2 = keepsSlot R cfg S u1"
      using count [of c now metric "time_Add ?now (i64 (i64 (- ?lb) * minute))" ?now u1] unfolding 2 by simp
    ultimately show ?thesis by auto
  qed
  let ?s = "devicetrust_NewRedisStore (p @ '':devicetrust'')"
  have store: "dc_store (newDeviceTrust R zone cfg t) = (app_deviceMemory :: ('l, 'r) appWorld deviceStore) \<or>
      dc_store (newDeviceTrust R zone cfg t) = (app_deviceRedis R ?s zone t :: ('l, 'r) appWorld deviceStore)"
    by (auto simp: newDeviceTrust_def devicetrust_New_def p)
  note dev = device_sameIdem [OF assms(1,2) app_otherKey(6) [OF p]]
  have mem: "keepsSlot R cfg S (snd (onPart aw_devices (\<lambda>s w. w\<lparr>aw_devices := s\<rparr>) h v)) = keepsSlot R cfg S v" for h and v :: "('l, 'r) appWorld"
    by (rule keepsSlot_redis) (simp add: onPart_def split: prod.split)
  have red: "keepsSlot R cfg S (snd (onRedis (device_redis_Get R ?s t c a f) v)) = keepsSlot R cfg S v"
    "keepsSlot R cfg S (snd (onRedis (device_redis_MarkTrusted R ?s zone t c a f ts) v)) = keepsSlot R cfg S v"
    for ts and v :: "('l, 'r) appWorld"
    by (rule keepsSlot_onRedis, simp add: p dev)+
  have ops: "keepsSlot R cfg S (snd (ds_Get (dc_store (newDeviceTrust R zone cfg t)) c a f v)) = keepsSlot R cfg S v"
    "keepsSlot R cfg S (snd (ds_MarkTrusted (dc_store (newDeviceTrust R zone cfg t)) c a f ts v)) = keepsSlot R cfg S v"
    for ts and v :: "('l, 'r) appWorld"
    using store by (elim disjE; simp add: app_deviceMemory_def app_deviceRedis_def mem red)+
  show "keepsSlot R cfg S (snd (IsKnownDevice (newDeviceTrust R zone cfg t) c a f w)) = keepsSlot R cfg S w"
    "keepsSlot R cfg S (snd (MarkDeviceTrusted (newDeviceTrust R zone cfg t) c now a f w)) = keepsSlot R cfg S w"
    using ops(1) [of w] ops(2) [of now w]
    by (auto simp: IsKnownDevice_def MarkDeviceTrusted_def split: sum.splits prod.splits)
  show "keepsSlot R cfg S (alertUnknown env known a f ip w) = keepsSlot R cfg S w"
    "keepsSlot R cfg S (ensureAccount now a w) = keepsSlot R cfg S w"
    by (rule keepsSlot_redis, simp add: alertUnknown_def ensureAccount_def split: option.split)+
qed

lemma Service_Withdraw_slot:
  assumes "redis_call_law R" "redis_frame_law R" and p: "cf_KeyPrefix (c_Redis cfg) = p" "p \<noteq> []"
  shows "keepsSlot R cfg S (snd (snd (Service_Withdraw (appService R zone cfg) env r w))) = keepsSlot R cfg S w"
proof (cases "decodeWithdraw (rq_body r)")
  case None
  then show ?thesis by (simp add: Service_Withdraw_def)
next
  case (Some amount)
  let ?s = "appService R zone cfg" and ?a = "header_Get r ''X-Account-ID''"
  let ?w1 = "snd (anomaly_Record (svc_anomaly ?s) (rq_ctx r) (re_record env) MetricWithdrawalAttempts 1 w)"
  let ?w2 = "ensureAccount (re_created env) ?a ?w1"
  obtain err acct w3 where wd: "Withdraw \<lparr>lg_store = app_ledgerStore\<rparr> (rq_ctx r) (re_ledger env) amount ?a ''api''
      (accountIn ?w2 ?a, ?w2) = (err, acct, w3)" by (meson prod_cases3)
  let ?w4 = "w3\<lparr>aw_accounts := (aw_accounts w3)(?a \<mapsto> acct)\<rparr>"
  have "aw_redis ?w4 = aw_redis ?w2"
    using app_Withdraw_redis [of "rq_ctx r" "re_ledger env" amount ?a "''api''" "accountIn ?w2 ?a" ?w2] wd by simp
  from keepsSlot_redis [OF this] have w4: "keepsSlot R cfg S ?w4 = keepsSlot R cfg S w"
    by (simp only: service_slot [OF assms])
  have svc: "svc_ledger ?s = \<lparr>lg_store = app_ledgerStore\<rparr>" "svc_devices ?s = newDeviceTrust R zone cfg"
    by (simp_all add: appService_def Let_def)
  obtain res w5 where known: "IsKnownDevice (newDeviceTrust R zone cfg (re_device env 1)) (rq_ctx r) ?a (FingerprintFromRequest r []) ?w4 = (res, w5)"
    by fastforce
  then have w5: "keepsSlot R cfg S w5 = keepsSlot R cfg S w"
    using w4 service_slot(3) [OF assms, of S zone "re_device env 1" "rq_ctx r" ?a "FingerprintFromRequest r []" ?w4] by simp
  show ?thesis
    by (cases err) (simp_all add: Service_Withdraw_def Some Let_def svc wd known w4 w5 service_slot(5) [OF assms] del: One_nat_def)
qed

lemma chain_slot:
  fixes w :: "('l, 'r) appWorld"
  assumes "redis_call_law R" "redis_frame_law R" and p: "cf_KeyPrefix (c_Redis cfg) = p" "p \<noteq> []"
  shows "appSlot R cfg t k (snd (snd (stepup_Middleware (appStepUp cfg) (stepupOpts (svc_devices (appService R zone cfg)) env) (re_stepup env) (re_stepupRnd env)
      (challenge_Middleware appChallenge (challengeOpts (svc_anomaly (appService R zone cfg)) cfg env) (re_challenge env) (re_challengeRnd env)
      (Service_Withdraw (appService R zone cfg) env)) r w))) = appSlot R cfg t k w"
proof -
  have "keepsSlot R cfg S (v\<lparr>aw_tokens := x\<rparr>) = keepsSlot R cfg S v" "keepsSlot R cfg S (v\<lparr>aw_challenges := y\<rparr>) = keepsSlot R cfg S v"
    for S x y and v :: "('l, 'r) appWorld" by (rule keepsSlot_redis, simp)+
  then have "keepsSlot R cfg (\<lambda>t k. appSlot R cfg t k w) (snd (snd (stepup_Middleware (appStepUp cfg)
      (stepupOpts (svc_devices (appService R zone cfg)) env) (re_stepup env) (re_stepupRnd env)
      (challenge_Middleware appChallenge (challengeOpts (svc_anomaly (appService R zone cfg)) cfg env) (re_challenge env) (re_challengeRnd env)
      (Service_Withdraw (appService R zone cfg) env)) r w)))"
    by (intro chain_P [where P = "keepsSlot R cfg (\<lambda>t k. appSlot R cfg t k w)"])
      (simp_all only: Service_Withdraw_slot [OF assms] service_slot [OF assms], simp add: keepsSlot_def)
  then show ?thesis by (simp add: keepsSlot_def)
qed

section \<open>A request from start to end\<close>

text \<open>A request is served without interruption: the layers, the handler, the release of the lock.\<close>

context guarded_http
begin

lemma heldUntil_weaken: "heldUntil now h key w \<Longrightarrow> now \<le> now' \<Longrightarrow> heldUntil now' h key w"
  by (simp add: heldUntil_def)

lemma after_layers:
  assumes "opt = Options_withDefaults opts" "Handler_layers g opt env r w = (Pass (acts, r', l), w1)" "keepsSlots next"
    and "heldUntil now h key w1" "now \<le> env_complete env" "env_complete env \<le> env_release env"
    and "h + slack \<le> now + im_ttl (g_idempotency g)"
  shows "heldUntil (env_release env) h key (snd (snd (Handler g opts env next r w)))"
proof -
  let ?c = "rq_ctx r" and ?i = "rk_idem (requestKeys opt r)"
  obtain a res w2 where run: "runHandler g env ?c ?i next r' w1 = (a, res, w2)" by (meson prod_cases3)
  have w2: "heldUntil (env_complete env) h key w2"
    using httpStep_held [OF assms(4), of "Run env ?c ?i next r'" False w2] assms(3,5,7) run by simp
  show ?thesis
  proof (cases l)
    case None
    then show ?thesis
      using heldUntil_weaken [OF w2 assms(6)] assms(2) run by (simp add: Handler_def flip: assms(1))
  next
    case (Some hl)
    have "heldUntil (env_release env) h key (snd (lock_releaseFn (g_lock g) hl (env_release env) w2))"
      using httpStep_held [OF w2, of "Unlock hl (env_release env)" False] assms(5,6,7) by simp
    then show ?thesis using Some assms(2) run by (simp add: Handler_def flip: assms(1))
  qed
qed

lemma Handler_held:
  assumes "opt = Options_withDefaults opts" "keepsSlots next" "heldUntil now h key w"
    and "now \<le> env_begin env" "env_begin env \<le> env_complete env" "env_complete env \<le> env_release env"
    and "h + slack \<le> now + im_ttl (g_idempotency g)"
  shows "heldUntil (env_release env) h key (snd (snd (Handler g opts env next r w)))"
proof -
  obtain v w1 where lay: "Handler_layers g opt env r w = (v, w1)" by fastforce
  have w1: "heldUntil (env_begin env) h key w1"
    using httpStep_held [OF assms(3), of "Arrive env r" "passes v" w1] assms(4,7) lay by simp
  show ?thesis
  proof (cases v)
    case (Stop a)
    then show ?thesis using heldUntil_weaken [OF w1] assms(5,6) lay by (simp add: Handler_def flip: assms(1))
  next
    case (Pass x)
    then obtain acts r' l where "Handler_layers g opt env r w = (Pass (acts, r', l), w1)" using lay by (cases x) auto
    then show ?thesis using after_layers [OF assms(1) _ assms(2) w1] assms(4-7) by simp
  qed
qed

lemma Handler_claims:
  assumes "opt = Options_withDefaults opts" "keepsSlots next" "Handler_layers g opt env r w = (Pass x, w1)"
    and "rk_idem (requestKeys opt r) = key" "key \<noteq> []" "t0 \<le> env_begin env"
    and "env_begin env \<le> env_complete env" "env_complete env \<le> env_release env"
  shows "heldUntil (env_release env) (t0 + im_ttl (g_idempotency g) - slack) key (snd (snd (Handler g opts env next r w)))"
proof -
  obtain acts r' l where x: "x = (acts, r', l)" by (cases x) auto
  have "heldUntil (env_begin env) (t0 + im_ttl (g_idempotency g) - slack) key w1"
    using layers_pass [OF assms(3) _ assms(4,5)] assms(6) by (auto simp: heldUntil_def passes_def)
  then show ?thesis
    using after_layers [OF assms(1) assms(3) [unfolded x] assms(2)] assms(6-8) by simp
qed

lemma held_stops:
  assumes "heldUntil now h key w" "now \<le> env_begin env" "env_begin env < h" "key \<noteq> []"
    and "rk_idem (requestKeys opt r) = key" "Handler_layers g opt env r w = (v, w1)"
  shows "\<not> passes v"
  using layers_pass [OF assms(6) _ assms(5,4)] assms(1-3) by (auto simp: heldUntil_def)

end

lemma layers_lock_key:
  fixes w :: "('l, 'r) appWorld"
  assumes "Handler_layers (appGuard R cfg) opt env r w = (Pass (acts, r', Some h), w1)"
  shows "hl_key h = lock_rkey (lock_NewRedis (cf_KeyPrefix (c_Redis cfg))) (rk_lock (requestKeys opt r))"
proof -
  obtain w5 where "layer_lock (appGuard R cfg) opt env (rq_ctx r) r' (requestKeys opt r) w5 = (Pass (Some h), w1)"
    using assms unfolding Handler_layers_def Let_def by (auto split: verdict.splits prod.splits)
  then obtain w6 where "client_Acquire (lm_client (g_lock (appGuard R cfg))) (rq_ctx r) (env_lock env) (env_rnd env) (rk_lock (requestKeys opt r))
      (lm_ttl (g_lock (appGuard R cfg :: ('l, 'r) appWorld guard))) w5 = (Inr h, w6)"
    by (auto simp: layer_lock_def TryLock_def lock_TryAcquire_def rejectWith_def storeError_def split: if_splits sum.splits prod.splits)
  then show ?thesis
    by (auto simp: appGuard_def Let_def lock_New_def app_lockClient_def onRedis_eq lock_redis_Acquire_def split: if_splits sum.splits prod.splits)
qed

lemma safe_Handler:
  fixes w :: "('l, 'r) appWorld"
  assumes "safeRequest r" and p: "cf_KeyPrefix (c_Redis cfg) = p" "p \<noteq> []"
  shows "Handler (appGuard R cfg) (withdrawOptions cfg) env h r w = Handler (safeGuard R cfg) (withdrawOptions cfg) env h r w"
proof -
  let ?opt = "Options_withDefaults (withdrawOptions cfg) :: ('l, 'r) appWorld Options"
  have key: "\<not> reserved (rk_lock (requestKeys ?opt r))"
    using assms(1) by (simp add: safeRequest_def requestKeys_def Options_lockKey_def Options_withDefaults_def withdrawOptions_def
        callKey_def orElse_def)
  note lay = safe_layers [OF assms(1) refl, of R cfg env w]
  have run: "runHandler (safeGuard R cfg) env c k h r' v = runHandler (appGuard R cfg) env c k h r' v" for c k r' and v :: "('l, 'r) appWorld"
    unfolding runHandler_def CompleteIdempotency_def by (simp only: safeGuard_simps)
  have rel: "lock_releaseFn (g_lock (safeGuard R cfg)) l t v = lock_releaseFn (g_lock (appGuard R cfg)) l t v"
    if "hl_key l = lock_rkey (lock_NewRedis p) (rk_lock (requestKeys ?opt r))" for l t and v :: "('l, 'r) appWorld"
    using app_otherKey(4) [OF p key] that by (simp add: lock_releaseFn_def safeGuard_def Let_def safeLock_def p)
  obtain v w1 where v: "Handler_layers (appGuard R cfg) ?opt env r w = (v, w1)" by fastforce
  show ?thesis
  proof (cases v)
    case (Stop a)
    then show ?thesis unfolding Handler_def Let_def lay v by simp
  next
    case (Pass x)
    obtain acts r' l where x: "x = (acts, r', l)" by (cases x) auto
    obtain a res u where u: "runHandler (appGuard R cfg) env (rq_ctx r) (rk_idem (requestKeys ?opt r)) h r' w1 = (a, res, u)" by (meson prod_cases3)
    have "hl_key hl = lock_rkey (lock_NewRedis p) (rk_lock (requestKeys ?opt r))" if "l = Some hl" for hl
      using layers_lock_key [of R cfg ?opt env r w acts r' hl w1] v Pass x that p by simp
    then show ?thesis
      unfolding Handler_def Let_def lay v Pass x verdict.case prod.case run u by (cases l) (simp_all add: rel)
  qed
qed

section \<open>Every retry of a withdrawal\<close>

text \<open>The requests that carry the idempotency key \<open>key\<close> and change the ledger.\<close>

fun moves :: "('l, 'r) Server \<Rightarrow> string \<Rightarrow> (requestEnv \<times> string \<times> httpRequest) list \<Rightarrow> ('l, 'r) appWorld \<Rightarrow> nat" where
  "moves sv key [] w = 0"
| "moves sv key ((env, path, r) # reqs) w =
     (case sv_Mux sv env path r w of (acts, res, w') \<Rightarrow>
        (if defaultIdempotencyKey r = key \<and> aw_ledger w' \<noteq> aw_ledger w then 1 else 0) + moves sv key reqs w')"

text \<open>The clock readings of a request that decide: the claim, the completion, the release.\<close>

fun requestTimes :: "requestEnv \<times> string \<times> httpRequest \<Rightarrow> time list" where
  "requestTimes (env, path, r) = [env_begin (re_call env), env_complete (re_call env), env_release (re_call env)]"

text \<open>What one request does to a held key, and to a free one.\<close>

lemma other_routes:
  fixes w :: "('l, 'r) appWorld"
  assumes laws: "redis_call_law R" "redis_frame_law R" and p: "cf_KeyPrefix (c_Redis cfg) = p" "p \<noteq> []"
    and "path \<noteq> ''/withdraw''" "appMux R zone cfg env path r w = (acts, res, w')"
  shows "aw_ledger w' = aw_ledger w \<and> (\<forall>t k. appSlot R cfg t k w' = appSlot R cfg t k w)"
proof -
  let ?s = "appService R zone cfg" and ?a = "header_Get r ''X-Account-ID''"
  have svc: "svc_devices ?s = newDeviceTrust R zone cfg" by (simp add: appService_def Let_def)
  let ?m = "MarkDeviceTrusted (newDeviceTrust R zone cfg (re_device env 0)) (rq_ctx r) (re_trust env) ?a (FingerprintFromRequest r [])
      (ensureAccount (re_created env) ?a w)"
  have "snd (snd (TrustDevice ?s env r w)) \<in> {w, snd ?m}"
    by (auto simp: TrustDevice_def svc Let_def split: prod.splits option.splits)
  moreover have "aw_ledger (snd ?m) = aw_ledger w" by (simp add: service_money accountIn_ensure)
  moreover have "appSlot R cfg t k (snd ?m) = appSlot R cfg t k w" for t k
  proof -
    have "keepsSlot R cfg (\<lambda>t k. appSlot R cfg t k w) (snd ?m)"
      unfolding service_slot(4,6) [OF laws p] by (simp add: keepsSlot_def)
    then show ?thesis by (simp add: keepsSlot_def)
  qed
  ultimately have trust: "aw_ledger (snd (snd (TrustDevice ?s env r w))) = aw_ledger w \<and>
      (\<forall>t k. appSlot R cfg t k (snd (snd (TrustDevice ?s env r w))) = appSlot R cfg t k w)" by auto
  have bal: "snd (snd (Service_Balance ?s r w)) = w" by (simp add: Service_Balance_def Let_def split: option.split)
  show ?thesis
    using assms(5,6) trust bal by (auto simp: appMux_def serveMux_def healthHandler_def split: if_splits)
qed

abbreviation appHeld :: "'r redis \<Rightarrow> Config \<Rightarrow> time \<Rightarrow> time \<Rightarrow> string \<Rightarrow> ('l, 'r) appWorld \<Rightarrow> bool" where
  "appHeld R cfg \<equiv> idempotency_store.heldUntil (appSlot R cfg)"

definition appTTL :: "Config \<Rightarrow> duration" where
  "appTTL cfg = cf_IdempotencyTTL (c_Idempotency cfg)"

text \<open>The hypotheses on Redis and the configuration under which the stores do not meet.\<close>

definition separated :: "'r redis \<Rightarrow> Config \<Rightarrow> bool" where
  "separated R cfg \<longleftrightarrow> redis_call_law R \<and> redis_decode_law R \<and> redis_string_law R \<and> redis_frame_law R \<and>
     cf_KeyPrefix (c_Redis cfg) \<noteq> [] \<and> millisecond \<le> appTTL cfg"

lemma separated_http:
  fixes R :: "'r redis"
  assumes "separated R cfg"
  shows "guarded_http (app_idemStore R (idempotency_NewRedisStore (cf_KeyPrefix (c_Redis cfg)))) (appSlot R cfg) (2 * millisecond) millisecond
     (safeGuard R cfg :: ('l, 'r) appWorld guard) (Options_withDefaults (withdrawOptions cfg))"
    and "im_ttl (g_idempotency (safeGuard R cfg :: ('l, 'r) appWorld guard)) = appTTL cfg"
  using assms app_guarded_http [of R cfg] unfolding separated_def appTTL_def
  by (simp_all add: appGuard_def idempotency_New_def Let_def millisecond_def)

lemma request_held:
  fixes w :: "('l, 'r) appWorld"
  assumes sep: "separated R cfg" and "path = ''/withdraw'' \<longrightarrow> safeRequest r"
    and mux: "appMux R zone cfg env path r w = (acts, res, w')" and held: "appHeld R cfg now h key w" and "key \<noteq> []"
    and times: "now \<le> env_begin (re_call env)" "env_begin (re_call env) \<le> env_complete (re_call env)"
      "env_complete (re_call env) \<le> env_release (re_call env)" "env_begin (re_call env) < h" "h + 2 * millisecond \<le> now + appTTL cfg"
  shows "appHeld R cfg (env_release (re_call env)) h key w'"
    and "defaultIdempotencyKey r = key \<Longrightarrow> aw_ledger w' = aw_ledger w"
proof -
  note G = separated_http(1) [OF sep, where ?'l = 'l] and ttl = separated_http(2) [OF sep, where ?'l = 'l]
  note S = guarded.axioms(1) [OF guarded_http.axioms(1) [OF G]]
  obtain p where p: "cf_KeyPrefix (c_Redis cfg) = p" "p \<noteq> []" and laws: "redis_call_law R" "redis_frame_law R"
    using sep by (auto simp: separated_def)
  let ?opt = "Options_withDefaults (withdrawOptions cfg) :: ('l, 'r) appWorld Options" and ?e = "re_call env"
  let ?next = "stepup_Middleware (appStepUp cfg) (stepupOpts (svc_devices (appService R zone cfg)) env) (re_stepup env) (re_stepupRnd env)
      (challenge_Middleware appChallenge (challengeOpts (svc_anomaly (appService R zone cfg)) cfg env) (re_challenge env) (re_challengeRnd env)
      (Service_Withdraw (appService R zone cfg) env)) :: ('l, 'r) appWorld handler"
  have keeps: "guarded_http.keepsSlots (appSlot R cfg) ?next"
    unfolding guarded_http.keepsSlots_def [OF G] using chain_slot [OF laws p] by blast
  show "appHeld R cfg (env_release ?e) h key w'"
  proof (cases "path = ''/withdraw''")
    case True
    with assms(2) mux have "Handler (safeGuard R cfg) (withdrawOptions cfg) ?e ?next r w = (acts, res, w')"
      by (simp add: appMux_def serveMux_def withdrawChain_def safe_Handler [OF _ p])
    then show ?thesis
      using guarded_http.Handler_held [OF G refl keeps held times(1-3), of r] times(5) unfolding ttl by simp
  next
    case False
    from other_routes [OF laws p False mux] held times(1-3) show ?thesis
      unfolding idempotency_store.heldUntil_def [OF S] by auto
  qed
  show "aw_ledger w' = aw_ledger w" if key: "defaultIdempotencyKey r = key"
  proof (cases "path = ''/withdraw''")
    case True
    obtain v w1 where v: "Handler_layers (appGuard R cfg) ?opt ?e r w = (v, w1)" by fastforce
    have "rk_idem (requestKeys ?opt r) = key"
      using key by (simp add: requestKeys_def callKey_def Options_withDefaults_def withdrawOptions_def orElse_def)
    moreover have "Handler_layers (safeGuard R cfg) ?opt ?e r w = (v, w1)" using safe_layers [OF _ refl] assms(2) True v by metis
    ultimately have "\<not> passes v" using guarded_http.held_stops [OF G held times(1,4) assms(5)] by blast
    then obtain a where "v = Stop a" by (cases v) (auto simp: passes_def)
    moreover have "aw_ledger (snd (Handler_layers (appGuard R cfg) ?opt ?e r w)) = aw_ledger w"
      by (rule app_frame.layers_P [where Q = "\<lambda>x y. y = aw_ledger w"]) simp
    ultimately show ?thesis
      using v mux True by (auto simp: appMux_def serveMux_def withdrawChain_def Handler_def Let_def)
  qed (use other_routes [OF laws p _ mux] in blast)
qed

lemma request_claims:
  fixes w :: "('l, 'r) appWorld"
  assumes sep: "separated R cfg" and "path = ''/withdraw'' \<longrightarrow> safeRequest r"
    and mux: "appMux R zone cfg env path r w = (acts, res, w')" and "key \<noteq> []" "defaultIdempotencyKey r = key"
    and moved: "aw_ledger w' \<noteq> aw_ledger w"
    and times: "t0 \<le> env_begin (re_call env)" "env_begin (re_call env) \<le> env_complete (re_call env)"
      "env_complete (re_call env) \<le> env_release (re_call env)"
  shows "appHeld R cfg (env_release (re_call env)) (t0 + appTTL cfg - 2 * millisecond) key w'"
proof -
  note G = separated_http(1) [OF sep, where ?'l = 'l] and ttl = separated_http(2) [OF sep, where ?'l = 'l]
  obtain p where p: "cf_KeyPrefix (c_Redis cfg) = p" "p \<noteq> []" and laws: "redis_call_law R" "redis_frame_law R"
    using sep by (auto simp: separated_def)
  let ?opt = "Options_withDefaults (withdrawOptions cfg) :: ('l, 'r) appWorld Options" and ?e = "re_call env"
  let ?next = "stepup_Middleware (appStepUp cfg) (stepupOpts (svc_devices (appService R zone cfg)) env) (re_stepup env) (re_stepupRnd env)
      (challenge_Middleware appChallenge (challengeOpts (svc_anomaly (appService R zone cfg)) cfg env) (re_challenge env) (re_challengeRnd env)
      (Service_Withdraw (appService R zone cfg) env)) :: ('l, 'r) appWorld handler"
  have keeps: "guarded_http.keepsSlots (appSlot R cfg) ?next"
    unfolding guarded_http.keepsSlots_def [OF G] using chain_slot [OF laws p] by blast
  have path: "path = ''/withdraw''" using other_routes [OF laws p _ mux] moved by blast
  with assms(2) have safe: "safeRequest r" by simp
  have handler: "Handler (safeGuard R cfg) (withdrawOptions cfg) ?e ?next r w = (acts, res, w')"
    using path mux by (simp add: appMux_def serveMux_def withdrawChain_def safe_Handler [OF safe p])
  obtain v w1 where v: "Handler_layers (safeGuard R cfg) ?opt ?e r w = (v, w1)" by fastforce
  have "aw_ledger (snd (Handler_layers (appGuard R cfg) ?opt ?e r w)) = aw_ledger w"
    by (rule app_frame.layers_P [where Q = "\<lambda>x y. y = aw_ledger w"]) simp
  then have "aw_ledger w1 = aw_ledger w" using v safe_layers [OF safe refl, of R cfg ?e w] by simp
  then obtain x where x: "v = Pass x"
    using moved v handler by (cases v) (auto simp: Handler_def Let_def)
  have "rk_idem (requestKeys ?opt r) = key"
    using assms(5) by (simp add: requestKeys_def callKey_def Options_withDefaults_def withdrawOptions_def orElse_def)
  from guarded_http.Handler_claims [OF G refl keeps v [unfolded x] this assms(4) times] show ?thesis
    unfolding ttl handler by simp
qed

lemma moves_held:
  fixes w :: "('l, 'r) appWorld"
  assumes sep: "separated R cfg" and sv: "sv_Mux sv = appMux R zone cfg" and key: "key \<noteq> []"
  shows "appHeld R cfg now h key w \<Longrightarrow> sorted (now # concat (map requestTimes reqs)) \<Longrightarrow>
     \<forall>(env, path, r) \<in> set reqs. (path = ''/withdraw'' \<longrightarrow> safeRequest r) \<and> env_begin (re_call env) < h \<Longrightarrow>
     h + 2 * millisecond \<le> now + appTTL cfg \<Longrightarrow> moves sv key reqs w = 0"
proof (induction reqs arbitrary: now w)
  case (Cons q reqs)
  obtain env path r where q: "q = (env, path, r)" by (metis prod.collapse)
  obtain acts res w' where mux: "appMux R zone cfg env path r w = (acts, res, w')" by (meson prod_cases3)
  have times: "now \<le> env_begin (re_call env)" "env_begin (re_call env) \<le> env_complete (re_call env)"
      "env_complete (re_call env) \<le> env_release (re_call env)" "env_begin (re_call env) < h"
    and safe: "path = ''/withdraw'' \<longrightarrow> safeRequest r"
    using Cons.prems q by auto
  have later: "sorted (env_release (re_call env) # concat (map requestTimes reqs))"
    using Cons.prems(2) q by auto
  note step = request_held [OF sep safe mux Cons.prems(1) key times Cons.prems(4)]
  have "moves sv key reqs w' = 0"
    using Cons.IH [OF step(1) later] Cons.prems(3,4) times by simp
  then show ?case using step(2) mux by (simp add: q sv)
qed simp

lemma moves_once:
  fixes w :: "('l, 'r) appWorld"
  assumes sep: "separated R cfg" and sv: "sv_Mux sv = appMux R zone cfg" and key: "key \<noteq> []"
  shows "sorted (concat (map requestTimes reqs)) \<Longrightarrow>
     \<forall>(env, path, r) \<in> set reqs. (path = ''/withdraw'' \<longrightarrow> safeRequest r) \<and>
       t0 \<le> env_begin (re_call env) \<and> env_begin (re_call env) + 2 * millisecond < t0 + appTTL cfg \<Longrightarrow>
     moves sv key reqs w \<le> 1"
proof (induction reqs arbitrary: w)
  case (Cons q reqs)
  obtain env path r where q: "q = (env, path, r)" by (metis prod.collapse)
  obtain acts res w' where mux: "appMux R zone cfg env path r w = (acts, res, w')" by (meson prod_cases3)
  have times: "t0 \<le> env_begin (re_call env)" "env_begin (re_call env) \<le> env_complete (re_call env)"
      "env_complete (re_call env) \<le> env_release (re_call env)"
    and safe: "path = ''/withdraw'' \<longrightarrow> safeRequest r"
    using Cons.prems q by auto
  have later: "sorted (env_release (re_call env) # concat (map requestTimes reqs))"
    using Cons.prems(1) q by auto
  have IH: "moves sv key reqs w' \<le> 1" using Cons.IH later Cons.prems(2) by simp
  show ?case
  proof (cases "defaultIdempotencyKey r = key \<and> aw_ledger w' \<noteq> aw_ledger w")
    case True
    then have "appHeld R cfg (env_release (re_call env)) (t0 + appTTL cfg - 2 * millisecond) key w'"
      using request_claims [OF sep safe mux key _ _ times] by blast
    then have "moves sv key reqs w' = 0"
      using Cons.prems(2) times later by (intro moves_held [OF sep sv key]) auto
    then show ?thesis using True mux by (simp add: q sv)
  next
    case False
    then show ?thesis using IH mux by (auto simp: q sv)
  qed
qed simp

section \<open>Guarantees\<close>

text \<open>C4: A withdrawal that is retried moves money once. Of all requests that carry one idempotency key and reach the server
  within a TTL (less two milliseconds), on whatever routes, from whatever accounts and with other requests in between, at
  most one changes the ledger; calls to Redis may fail before or after they ran. The accounts must not be named \<^verbatim>\<open>inflight\<close> or
  \<^verbatim>\<open>result\<close>, nor start with one of these and a colon: their locks and counters would meet the keys of the idempotency
  store.\<close>

theorem app_moves_money_once:
  fixes R :: "'r redis" and w :: "('l, 'r) appWorld"
  assumes "separated R cfg" "New L R zone client cfg now w0 = Inr (sv, w1)" "key \<noteq> []"
    and "sorted (concat (map requestTimes reqs))"
    and "\<forall>(env, path, r) \<in> set reqs. (path = ''/withdraw'' \<longrightarrow> safeRequest r) \<and>
       t0 \<le> env_begin (re_call env) \<and> env_begin (re_call env) + 2 * millisecond < t0 + appTTL cfg"
  shows "moves sv key reqs w \<le> 1"
  by (rule moves_once [OF assms(1) New_Inr(1) [OF assms(2)] assms(3-5)])

theorem app_moves_money_once_witness:
  "\<exists>sv w. New refRate refRedis (\<lambda>t. 0) True Defaults (\<lambda>a. 0) demoState = Inr (sv, w) \<and>
     moves sv ''k'' [(demoRequestEnv, ''/withdraw'', demoHttp), (demoRequestEnv, ''/withdraw'', demoHttp)] w \<le> 1"
proof -
  obtain sv w where new: "New refRate refRedis (\<lambda>t. 0) True Defaults (\<lambda>a. 0) demoState = Inr (sv, w)" by (rule demo_New_Defaults)
  have "safeRequest demoHttp" by code_simp
  moreover have "separated refRedis Defaults" by (simp add: separated_def appTTL_def Defaults_def hour_def millisecond_def)
  moreover have "appTTL Defaults = 24 * hour" by (simp add: appTTL_def Defaults_def)
  ultimately have "moves sv ''k'' [(demoRequestEnv, ''/withdraw'', demoHttp), (demoRequestEnv, ''/withdraw'', demoHttp)] w \<le> 1"
    by (intro app_moves_money_once [OF _ new, where ?t0.0 = 0])
      (simp_all add: demoRequestEnv_def demoEnv_def hour_def millisecond_def)
  with new show ?thesis by blast
qed

end
