(* ===== verification/Example_Main.thy ===== *)
theory Example_Main
  imports App_Facts
begin

text \<open>
  The program \<^verbatim>\<open>example/main.go\<close>: settings from the environment, a Redis client that has to answer a ping, the server, and the
  listener. \<^verbatim>\<open>redis.NewClient\<close> and \<^verbatim>\<open>http.ListenAndServe\<close> are parameters: \<open>newClient\<close> gives the Redis behind an address, and \<open>listen\<close>
  the error with which listening on an address fails, or \<open>None\<close> when it goes on serving.
\<close>

section \<open>The program\<close>

definition DeadlineExceeded :: go_error where
  "DeadlineExceeded = Sentinel ''context deadline exceeded''"

text \<open>\<^verbatim>\<open>context.WithTimeout\<close> of the background context, as a call finds it that starts at once.\<close>

definition context_WithTimeout :: "duration \<Rightarrow> ctx" where
  "context_WithTimeout d = (if d \<le> 0 then Some DeadlineExceeded else None)"

definition PING :: "'r rcmd" where
  "PING r = (RBulk ''PONG'', r)"

text \<open>How the process goes on: \<^verbatim>\<open>log.Fatal\<close> with its message, which ends it with status 1, or serving on an address.\<close>

datatype ('l, 'r) status = Fatal string | Serving string "('l, 'r) Server" "('l, 'r) appWorld"

definition main :: "environ \<Rightarrow> (string \<Rightarrow> 'r redis) \<Rightarrow> (string \<Rightarrow> go_error option) \<Rightarrow> 'l rateLib \<Rightarrow> (time \<Rightarrow> int) \<Rightarrow> (string \<Rightarrow> time) \<Rightarrow>
    ('l, 'r) appWorld \<Rightarrow> string list \<times> ('l, 'r) status" where
  "main env newClient listen L zone now w =
     (case Load env of
        Inl e \<Rightarrow> ([], Fatal (''config: '' @ error_Error e))
      | Inr cfg \<Rightarrow>
          let addr = cf_Addr (c_Redis cfg); client = newClient addr;
              c = context_WithTimeout (cf_PingTimeout (c_Redis cfg)) in
          (case rd_call client c PING (aw_redis w) of
             (Inl e, r) \<Rightarrow>
               ([], Fatal (''cannot reach Redis at '' @ addr @ '': '' @ error_Error e @ [char_of (10 :: nat)] @
                           ''Start redis-server or set REDIS_ADDR''))
           | (Inr _, r) \<Rightarrow>
               let connected = ''connected to Redis at '' @ addr @ '' (prefix='' @ cf_KeyPrefix (c_Redis cfg) @ '')'' in
               (case New L client zone True cfg now (w\<lparr>aw_redis := r\<rparr>) of
                  Inl e \<Rightarrow> ([connected], Fatal (error_Error e))
                | Inr (srv, w') \<Rightarrow>
                    let listenAddr = cf_ListenAddr (c_Server cfg);
                        lines = [connected, ''floodguard example listening on '' @ listenAddr,
                          ''demo routes: POST /withdraw  POST /demo/trust-device  GET /demo/balance  GET /health''] in
                    (case listen listenAddr of
                       Some e \<Rightarrow> (lines, Fatal (error_Error e))
                     | None \<Rightarrow> (lines, Serving listenAddr srv w')))))"

section \<open>When it serves\<close>

lemma main_Serving:
  assumes "main env newClient listen L zone now w = (lines, Serving addr srv w')"
  obtains cfg v r where "Load env = Inr cfg"
    "rd_call (newClient (cf_Addr (c_Redis cfg))) (context_WithTimeout (cf_PingTimeout (c_Redis cfg))) PING (aw_redis w) = (Inr v, r)"
    "New L (newClient (cf_Addr (c_Redis cfg))) zone True cfg now (w\<lparr>aw_redis := r\<rparr>) = Inr (srv, w')"
    "addr = cf_ListenAddr (c_Server cfg)" "listen addr = None"
  using assms by (auto simp: main_def Let_def split: sum.splits prod.splits option.splits)

text \<open>C37: The process serves exactly when the environment loads, Redis answers the ping before the deadline, the limits and windows
  of both rate limiters are positive and the address can be listened on; in every other case it ends with a message.\<close>

theorem main_serves_iff:
  "(\<exists>lines srv w'. main env newClient listen L zone now w = (lines, Serving addr srv w')) \<longleftrightarrow>
     (\<exists>cfg v r. Load env = Inr cfg \<and>
        rd_call (newClient (cf_Addr (c_Redis cfg))) (context_WithTimeout (cf_PingTimeout (c_Redis cfg))) PING (aw_redis w) = (Inr v, r) \<and>
        limitsPositive cfg \<and> addr = cf_ListenAddr (c_Server cfg) \<and> listen addr = None)"
  (is "?serves \<longleftrightarrow> ?ready")
proof
  assume ?serves
  then obtain lines srv w' where "main env newClient listen L zone now w = (lines, Serving addr srv w')" by blast
  then show ?ready
  proof (rule main_Serving)
    fix cfg v r
    assume c: "Load env = Inr cfg"
      "rd_call (newClient (cf_Addr (c_Redis cfg))) (context_WithTimeout (cf_PingTimeout (c_Redis cfg))) PING (aw_redis w) = (Inr v, r)"
      "New L (newClient (cf_Addr (c_Redis cfg))) zone True cfg now (w\<lparr>aw_redis := r\<rparr>) = Inr (srv, w')"
      "addr = cf_ListenAddr (c_Server cfg)" "listen addr = None"
    with New_Inr(4) [OF c(3)] show ?ready by blast
  qed
next
  assume ?ready
  then obtain cfg v r where c: "Load env = Inr cfg" "limitsPositive cfg" "addr = cf_ListenAddr (c_Server cfg)" "listen addr = None"
    "rd_call (newClient (cf_Addr (c_Redis cfg))) (context_WithTimeout (cf_PingTimeout (c_Redis cfg))) PING (aw_redis w) = (Inr v, r)"
    by blast
  then obtain srv w' where "New L (newClient (cf_Addr (c_Redis cfg))) zone True cfg now (w\<lparr>aw_redis := r\<rparr>) = Inr (srv, w')"
    using New_ok_iff [of L "newClient (cf_Addr (c_Redis cfg))" zone True cfg now] by (metis surj_pair)
  with c show ?serves by (simp add: main_def Let_def)
qed

text \<open>With nothing set in the environment and Redis at hand the server comes up on port 8080.\<close>

theorem main_serves_iff_witness:
  "\<exists>lines srv w'. main (\<lambda>_. []) (\<lambda>_. refRedis) (\<lambda>_. None) refRate (\<lambda>_. 0) (\<lambda>_. 0) demoState = (lines, Serving '':8080'' srv w')"
proof -
  have "limitsPositive Defaults" by (simp add: limitsPositive_def Defaults_def minute_def)
  moreover have "cf_ListenAddr (c_Server Defaults) = '':8080''" "cf_PingTimeout (c_Redis Defaults) = 3 * second"
    by (simp_all add: Defaults_def)
  moreover have "rd_call refRedis None PING r = (Inr (RBulk ''PONG''), r)" for r by (simp add: refRedis_def PING_def)
  ultimately show ?thesis
    unfolding main_serves_iff by (simp add: Load_unset context_WithTimeout_def second_def)
qed

end
