(* ===== verification/Json_Text.thy ===== *)
theory Json_Text
  imports Json
begin

text \<open>
  Text in JSON: a literal the encoder writes for a string is scanned to its closing quote and unquotes to the string,
  with the bytes that are not UTF-8 replaced by U+FFFD. A text of ASCII characters comes back as it was.
\<close>

section \<open>Strings that are written and read back\<close>

text \<open>A piece of a string literal the scanner passes over, and what \<open>unquote\<close> makes of it.\<close>

definition literalPiece :: "string \<Rightarrow> string \<Rightarrow> bool" where
  "literalPiece b v \<longleftrightarrow>
     (\<forall>r raw rest. scanString r = Some (raw, rest) \<longrightarrow> scanString (b @ r) = Some (b @ raw, rest)) \<and>
     (\<forall>r. unquote (b @ r) = v @ unquote r)"

lemma literalPiece_append: "literalPiece b v \<Longrightarrow> literalPiece b' v' \<Longrightarrow> literalPiece (b @ b') (v @ v')"
  by (simp add: literalPiece_def)

lemma literalPiece_Nil [simp]: "literalPiece [] []"
  by (simp add: literalPiece_def)

lemma literalPiece_unicode:
  assumes "isHex a" "isHex b" "isHex x" "isHex y" and "hex4 [a, b, x, y] < 55296 \<or> 57344 \<le> hex4 [a, b, x, y]"
  shows "literalPiece [char_of (92 :: nat), CHR ''u'', a, b, x, y] (encodeRune (hex4 [a, b, x, y]))"
proof -
  have "unquote ([char_of (92 :: nat), CHR ''u'', a, b, x, y] @ r) = encodeRune (hex4 [a, b, x, y]) @ unquote r" for r
    using assms(5) by (subst unquote.simps) (auto simp: Let_def)
  then show ?thesis using assms by (simp add: literalPiece_def)
qed

lemma literalPiece_escape:
  assumes "of_char e \<in> {34, 92, 47, 98, 102, 110, 114, 116 :: nat}"
  shows "literalPiece [char_of (92 :: nat), e]
    [if e = CHR ''b'' then char_of (8 :: nat) else if e = CHR ''f'' then char_of (12 :: nat)
     else if e = CHR ''n'' then char_of (10 :: nat) else if e = CHR ''r'' then char_of (13 :: nat)
     else if e = CHR ''t'' then char_of (9 :: nat) else e]"
proof -
  have "e \<noteq> CHR ''u''" using assms by auto
  then have "unquote ([char_of (92 :: nat), e] @ r) =
     [if e = CHR ''b'' then char_of (8 :: nat) else if e = CHR ''f'' then char_of (12 :: nat)
     else if e = CHR ''n'' then char_of (10 :: nat) else if e = CHR ''r'' then char_of (13 :: nat)
     else if e = CHR ''t'' then char_of (9 :: nat) else e] @ unquote r" for r
    by (subst unquote.simps) simp
  then show ?thesis using assms \<open>e \<noteq> CHR ''u''\<close> by (simp add: literalPiece_def Let_def)
qed

text \<open>A valid UTF-8 sequence without quote, backslash or control character stands for itself.\<close>

lemma utf8Len_take:
  assumes "0 < utf8Len s" shows "utf8Len (take (utf8Len s) s @ r) = utf8Len s"
  using assms by (cases s) (auto split: list.splits if_splits)

lemma scanString_plain:
  assumes "list_all (\<lambda>c. 32 \<le> (of_char c :: nat) \<and> of_char c \<noteq> (34 :: nat) \<and> of_char c \<noteq> (92 :: nat)) b"
    and "scanString r = Some (raw, rest)"
  shows "scanString (b @ r) = Some (b @ raw, rest)"
  using assms by (induction b) (simp_all add: Let_def)

lemma literalPiece_utf8:
  assumes "0 < utf8Len s"
    and plain: "list_all (\<lambda>c. 32 \<le> (of_char c :: nat) \<and> of_char c \<noteq> (34 :: nat) \<and> of_char c \<noteq> (92 :: nat)) (take (utf8Len s) s)"
  shows "literalPiece (take (utf8Len s) s) (take (utf8Len s) s)"
proof -
  define b where "b = take (utf8Len s) s"
  have len: "length b = utf8Len s" using utf8Len_le [of s] by (simp add: b_def)
  then obtain c t where b: "b = c # t" using assms(1) by (cases b) auto
  with plain have c: "of_char c \<noteq> (92 :: nat)" by (simp add: b_def)
  have "utf8Len (b @ r) = length b" for r using utf8Len_take [OF assms(1)] len by (simp add: b_def)
  then have "unquote (b @ r) = take (length b) (b @ r) @ unquote (drop (length b) (b @ r))" for r
    using c assms(1) len unfolding b by (subst unquote.simps) (simp add: Let_def del: utf8Len.simps)
  then have "unquote (b @ r) = b @ unquote r" for r by simp
  then show ?thesis
    using scanString_plain plain unfolding literalPiece_def b_def by blast
qed

lemma utf8Len_high:
  assumes "1 < utf8Len s" shows "list_all (\<lambda>c. 128 \<le> (of_char c :: nat)) (take (utf8Len s) s)"
  using assms by (cases s) (auto simp: byteIn_def cont_def split: list.splits if_splits)


text \<open>A byte below 128.\<close>

lemma hexByte_hex:
  assumes "of_char c < (128 :: nat)"
  shows "isHex (hexDigit (of_char c div 16)) \<and> isHex (hexDigit (of_char c mod 16)) \<and>
     encodeRune (hex4 [CHR ''0'', CHR ''0'', hexDigit (of_char c div 16), hexDigit (of_char c mod 16)]) = [c] \<and>
     hex4 [CHR ''0'', CHR ''0'', hexDigit (of_char c div 16), hexDigit (of_char c mod 16)] < 55296"
proof -
  have d: "isHex (hexDigit d) \<and> hexVal (hexDigit d) = d" if "d < 16" for d
    using that by (auto simp: hexDigit_def isHex_def isHexLetter_def hexVal_def isDigit_def digitVal_def byteIn_def lowerChar_def isUpperAZ_def)
  define n where "n = (of_char c :: nat)"
  have n: "n div 16 < 16" "n mod 16 < 16" "n < 128" using assms by (simp_all add: n_def less_mult_imp_div_less)
  have "hexVal (CHR ''0'') = 0" by code_simp
  then have "hex4 [CHR ''0'', CHR ''0'', hexDigit (n div 16), hexDigit (n mod 16)] = n"
    using d [OF n(1)] d [OF n(2)] by (simp add: hex4_def)
  then show ?thesis
    using d [OF n(1)] d [OF n(2)] n(3) unfolding n_def [symmetric] by (simp add: encodeRune_def n_def)
qed

lemma literalPiece_self:
  assumes "of_char e \<in> {34, 92 :: nat}" shows "literalPiece [char_of (92 :: nat), e] [e]"
proof -
  have "e \<noteq> CHR ''b''" "e \<noteq> CHR ''f''" "e \<noteq> CHR ''n''" "e \<noteq> CHR ''r''" "e \<noteq> CHR ''t''" using assms by auto
  then show ?thesis using literalPiece_escape [of e] assms by auto
qed

lemma literalPiece_escapeAscii:
  assumes "of_char c < (128 :: nat)"
  shows "literalPiece (escapeAscii c) [c]"
proof -
  define n where "n = (of_char c :: nat)"
  have c: "c = char_of n" by (simp add: n_def)
  note e = literalPiece_escape
  consider "n = 34" | "n = 92" | "n = 8" | "n = 12" | "n = 10" | "n = 13" | "n = 9"
    | "n \<notin> {34, 92, 8, 12, 10, 13, 9}" "n < 32 \<or> n = 38 \<or> n = 60 \<or> n = 62"
    | "n \<notin> {34, 92}" "\<not> n < 32" "n \<noteq> 38" "n \<noteq> 60" "n \<noteq> 62"
    by blast
  then show ?thesis
  proof cases
    case 8
    then have "escapeAscii c = [char_of (92 :: nat), CHR ''u'', CHR ''0'', CHR ''0'', hexDigit (n div 16), hexDigit (n mod 16)]"
      by (auto simp: escapeAscii_def Let_def n_def [symmetric] hexByte_def)
    moreover have "isHex (CHR ''0'')" by code_simp
    ultimately show ?thesis
      using literalPiece_unicode hexByte_hex [OF assms] unfolding n_def by (metis (no_types, lifting))
  next
    case 9
    then have e: "escapeAscii c = [c]" by (auto simp: escapeAscii_def Let_def n_def [symmetric])
    have "utf8Len [c] = 1" using assms by (simp add: byteIn_def)
    then show ?thesis unfolding e using literalPiece_utf8 [of "[c]"] 9 by (simp add: n_def)
  qed (use literalPiece_self [of c] e [of "CHR ''b''"] e [of "CHR ''f''"] e [of "CHR ''n''"] e [of "CHR ''r''"] e [of "CHR ''t''"]
         in \<open>simp_all add: escapeAscii_def Let_def c\<close>)
qed


text \<open>What the encoder makes of the bytes that are no valid UTF-8.\<close>

function toValidUTF8 :: "string \<Rightarrow> string" where
  "toValidUTF8 s =
     (if s = [] then []
      else
        let n = utf8Len s in
        if n = 0 then runeError @ toValidUTF8 (drop 1 s) else take n s @ toValidUTF8 (drop n s))"
  by auto
termination by (relation "measure length") auto

declare toValidUTF8.simps [simp del]

theorem jsonEscape_piece: "literalPiece (jsonEscape s) (toValidUTF8 s)"
proof (induction s rule: toValidUTF8.induct)
  case (1 s)
  define n where "n = utf8Len s"
  have hex: "isHex (CHR ''f'')" "isHex (CHR ''d'')" "isHex (CHR ''2'')" "isHex (CHR ''0'')" "isHex (CHR ''8'')" "isHex (CHR ''9'')"
    by code_simp+
  have "hexVal (CHR ''f'') = 15" "hexVal (CHR ''d'') = 13" "hexVal (CHR ''2'') = 2" "hexVal (CHR ''0'') = 0"
    "hexVal (CHR ''8'') = 8" "hexVal (CHR ''9'') = 9" by code_simp+
  then have sep: "hex4 ''2028'' = 8232" "hex4 ''2029'' = 8233" "hex4 ''fffd'' = 65533" by (simp_all add: hex4_def)
  have uni: "literalPiece ([char_of (92 :: nat)] @ ''ufffd'') runeError"
    "literalPiece ([char_of (92 :: nat)] @ ''u2028'') (map char_of [226, 128, 168 :: nat])"
    "literalPiece ([char_of (92 :: nat)] @ ''u2029'') (map char_of [226, 128, 169 :: nat])"
    using literalPiece_unicode [of "CHR ''f''" "CHR ''f''" "CHR ''f''" "CHR ''d''"]
      literalPiece_unicode [of "CHR ''2''" "CHR ''0''" "CHR ''2''" "CHR ''8''"]
      literalPiece_unicode [of "CHR ''2''" "CHR ''0''" "CHR ''2''" "CHR ''9''"] hex
    by (simp_all add: sep runeError_def encodeRune_def)
  consider "s = []" | "s \<noteq> []" "n = 0" | "s \<noteq> []" "n = 1" | "s \<noteq> []" "1 < n" by linarith
  then show ?case
  proof cases
    case 1
    then show ?thesis by (simp add: jsonEscape.simps toValidUTF8.simps)
  next
    case 2
    then have "jsonEscape s = ([char_of (92 :: nat)] @ ''ufffd'') @ jsonEscape (drop 1 s)"
      "toValidUTF8 s = runeError @ toValidUTF8 (drop 1 s)"
      by (simp_all add: jsonEscape.simps [of s] toValidUTF8.simps [of s] n_def)
    moreover have "literalPiece (jsonEscape (drop 1 s)) (toValidUTF8 (drop 1 s))" using 1 2 by (simp add: n_def)
    ultimately show ?thesis using uni(1) literalPiece_append by metis
  next
    case 3
    then obtain c t where s: "s = c # t" by (cases s) auto
    with 3 have "of_char c < (128 :: nat)" by (auto simp: n_def byteIn_def split: if_splits list.splits)
    moreover have "jsonEscape s = escapeAscii c @ jsonEscape (drop n s)" "toValidUTF8 s = [c] @ toValidUTF8 (drop n s)"
      using 3 by (simp_all add: jsonEscape.simps [of "c # t"] toValidUTF8.simps [of "c # t"] n_def s del: utf8Len.simps)
    moreover have "literalPiece (jsonEscape (drop n s)) (toValidUTF8 (drop n s))" using 1 3 by (simp add: n_def)
    ultimately show ?thesis using literalPiece_escapeAscii literalPiece_append by metis
  next
    case 4
    have ih: "literalPiece (jsonEscape (drop n s)) (toValidUTF8 (drop n s))" using 1 4 by (simp add: n_def)
    have v: "toValidUTF8 s = take n s @ toValidUTF8 (drop n s)"
      using 4 by (simp add: toValidUTF8.simps [of s] n_def Let_def)
    have "list_all (\<lambda>c. 32 \<le> (of_char c :: nat) \<and> of_char c \<noteq> (34 :: nat) \<and> of_char c \<noteq> (92 :: nat)) (take n s)"
      using utf8Len_high [of s] 4 by (auto simp: n_def list_all_iff)
    then have self: "literalPiece (take n s) (take n s)" using literalPiece_utf8 [of s] 4 by (simp add: n_def)
    have "jsonEscape s =
       (if take n s = map char_of [226, 128, 168 :: nat] then [char_of (92 :: nat)] @ ''u2028''
        else if take n s = map char_of [226, 128, 169 :: nat] then [char_of (92 :: nat)] @ ''u2029''
        else take n s) @ jsonEscape (drop n s)"
      using 4 by (subst jsonEscape.simps) (simp add: Let_def n_def [symmetric])
    moreover have "literalPiece
       (if take n s = map char_of [226, 128, 168 :: nat] then [char_of (92 :: nat)] @ ''u2028''
        else if take n s = map char_of [226, 128, 169 :: nat] then [char_of (92 :: nat)] @ ''u2029''
        else take n s) (take n s)"
      using uni(2,3) self by simp
    ultimately show ?thesis using ih literalPiece_append unfolding v by metis
  qed
qed

text \<open>So a literal the encoder writes is scanned to its end and unquotes to the text, invalid bytes replaced.\<close>

lemma scanString_jsonEscape: "scanString (jsonEscape s @ char_of (34 :: nat) # r) = Some (jsonEscape s, r)"
  using jsonEscape_piece [of s] by (simp add: literalPiece_def)

lemma unquote_jsonEscape: "unquote (jsonEscape s) = toValidUTF8 s"
  using jsonEscape_piece [of s] unquote.simps [of "[]"] by (simp add: literalPiece_def) (metis append_Nil2)

text \<open>Text of ASCII characters is valid as it is.\<close>

lemma toValidUTF8_ascii: "list_all (\<lambda>c. of_char c < (128 :: nat)) s \<Longrightarrow> toValidUTF8 s = s"
  by (induction s) (simp_all add: toValidUTF8.simps byteIn_def)

end
