(* ===== verification/Devicetrust_Time.thy ===== *)
theory Devicetrust_Time
  imports Devicetrust_Redis
begin

text \<open>
  The times in the device records: a day number and its date in the Gregorian calendar determine each other, and the
  instant read from the text of a time is the one it was written for, to the nanosecond, in any time zone of whole
  minutes.
\<close>

section \<open>Calendar dates round trip\<close>

text \<open>Years of an era of 400 start in March: the days before year \<open>y\<close>, and the year of a day.\<close>

definition eraDays :: "int \<Rightarrow> int" where
  "eraDays y = 365 * y + y div 4 - y div 100 + y div 400"

definition eraYear :: "int \<Rightarrow> int" where
  "eraYear doe = (doe - doe div 1460 + doe div 36524 - doe div 146096) div 365"

lemma eraYear_ends:
  "list_all (\<lambda>y. eraYear (eraDays y) = y \<and> eraYear (eraDays (y + 1) - 1) = y) (map int [0..<400])"
  by code_simp

lemma eraYear_mono: "0 \<le> a \<Longrightarrow> a \<le> b \<Longrightarrow> b < 146096 \<Longrightarrow> eraYear a \<le> eraYear b"
proof -
  assume a: "0 \<le> a" "a \<le> b" "b < 146096"
  have "b div 1460 \<le> (a + (b - a) * 1460) div 1460" using a by (intro zdiv_mono1) auto
  then have p: "b div 1460 \<le> a div 1460 + (b - a)" by simp
  have q: "a div 36524 \<le> b div 36524" using a by (intro zdiv_mono1) auto
  have "a - p + r - 0 \<le> b - p' + r' - 0" if "p' \<le> p + (b - a)" "r \<le> r'" for p p' r r' :: int using that by linarith
  from this [OF p q] show ?thesis
    unfolding eraYear_def using a by (intro zdiv_mono1) (simp_all add: div_pos_pos_trivial)
qed


lemma eraDays_mono: "y \<le> z \<Longrightarrow> eraDays y \<le> eraDays z"
proof -
  assume "y \<le> z"
  then have d: "y div 4 \<le> z div 4" "y div 400 \<le> z div 400" by (simp_all add: zdiv_mono1)
  have "z div 100 \<le> (y + (z - y) * 100) div 100" using \<open>y \<le> z\<close> by (intro zdiv_mono1) auto
  then have "z div 100 \<le> y div 100 + (z - y)" by simp
  with d \<open>y \<le> z\<close> show ?thesis unfolding eraDays_def by linarith
qed

lemma eraYear_bounds:
  assumes "0 \<le> doe" "doe < 146097"
  shows "0 \<le> eraYear doe \<and> eraYear doe < 400 \<and> eraDays (eraYear doe) \<le> doe \<and> doe < eraDays (eraYear doe + 1)"
proof -
  have ends: "eraYear (eraDays y) = y \<and> eraYear (eraDays (y + 1) - 1) = y" if "0 \<le> y" "y < 400" for y
  proof -
    have "y \<in> set (map int [0..<400])" using that by (auto intro!: image_eqI [of _ _ "nat y"])
    then show ?thesis using eraYear_ends unfolding list_all_iff by blast
  qed
  have zero: "eraDays 0 = 0" and top: "eraDays 400 = 146097" by (simp_all add: eraDays_def)
  define y where "y = int (GREATEST n. n < 400 \<and> eraDays (int n) \<le> doe)"
  have g: "(GREATEST n. n < 400 \<and> eraDays (int n) \<le> doe) < 400 \<and> eraDays (int (GREATEST n. n < 400 \<and> eraDays (int n) \<le> doe)) \<le> doe"
    by (rule GreatestI_nat [where k = 0 and b = 400]) (use assms zero in auto)
  then have y: "0 \<le> y" "y < 400" "eraDays y \<le> doe" by (auto simp: y_def)
  have up: "doe < eraDays (y + 1)"
  proof (rule ccontr)
    assume not: "\<not> doe < eraDays (y + 1)"
    show False
    proof (cases "y + 1 < 400")
      case True
      with not y have "nat (y + 1) < 400 \<and> eraDays (int (nat (y + 1))) \<le> doe" by simp
      then have "nat (y + 1) \<le> (GREATEST n. n < 400 \<and> eraDays (int n) \<le> doe)"
        by (rule Greatest_le_nat [where b = 400]) auto
      with y show False by (simp add: y_def)
    next
      case False
      with y have "y + 1 = 400" by linarith
      with not top assms show False by simp
    qed
  qed
  have last: "y = 399" if "145731 \<le> doe"
  proof (rule ccontr)
    assume "y \<noteq> 399"
    then have "eraDays (y + 1) \<le> eraDays 399" using y by (intro eraDays_mono) auto
    also have "eraDays 399 = 145731" by (simp add: eraDays_def)
    finally show False using up that by simp
  qed
  have "eraYear doe = y"
  proof (cases "145731 \<le> doe")
    case True
    have "eraYear doe = 399"
    proof (cases "doe = 146096")
      case False
      have "eraYear 145731 \<le> eraYear doe" "eraYear doe \<le> eraYear 146095"
        using True False assms by (auto intro!: eraYear_mono)
      then show ?thesis by (simp add: eraYear_def)
    qed (simp add: eraYear_def)
    with last [OF True] show ?thesis by simp
  next
    case False
    have "y + 1 \<le> 399"
    proof (rule ccontr)
      assume "\<not> y + 1 \<le> 399"
      then have "eraDays 399 \<le> eraDays y" by (intro eraDays_mono) auto
      with False y(3) show False by (simp add: eraDays_def [of 399])
    qed
    then have "eraDays (y + 1) \<le> 145731" using eraDays_mono [of "y + 1" 399] by (simp add: eraDays_def [of 399])
    then have "eraYear doe \<le> eraYear (eraDays (y + 1) - 1)" using up assms by (intro eraYear_mono) auto
    moreover have "eraYear (eraDays y) \<le> eraYear doe"
      using y zero eraDays_mono [of 0 y] False by (intro eraYear_mono) auto
    ultimately show ?thesis using ends [OF y(1,2)] by simp
  qed
  with y up show ?thesis by simp
qed


lemma div_plus_one:
  fixes y k :: int
  assumes "0 < k"
  shows "(y + 1) div k = y div k + (if (y + 1) mod k = 0 then 1 else 0)"
proof -
  have y: "y = k * (y div k) + y mod k" "0 \<le> y mod k" "y mod k < k" using assms by simp_all
  show ?thesis
  proof (cases "y mod k + 1 = k")
    case True
    have "(y div k + 1) * k = k * (y div k) + k" by (simp add: algebra_simps)
    with True y(1) have "y + 1 = (y div k + 1) * k" by linarith
    then show ?thesis using assms by simp
  next
    case False
    with y have r: "0 \<le> y mod k + 1" "y mod k + 1 < k" by linarith+
    have e: "y + 1 = k * (y div k) + (y mod k + 1)" using y(1) by linarith
    have "(y + 1) div k = y div k" by (rule int_div_pos_eq [OF e r])
    moreover have "(y + 1) mod k = y mod k + 1" by (rule int_mod_pos_eq [OF e r])
    ultimately show ?thesis using y(2) by simp
  qed
qed

lemma eraDays_Suc: "eraDays (y + 1) - eraDays y = (if leapYear (y + 1) then 366 else 365)"
proof -
  note d = div_plus_one [of 4 y, simplified] div_plus_one [of 100 y, simplified] div_plus_one [of 400 y, simplified]
  have m: "(y + 1) mod 400 = 0 \<Longrightarrow> (y + 1) mod 100 = 0" "(y + 1) mod 100 = 0 \<Longrightarrow> (y + 1) mod 4 = 0"
    using mod_mod_cancel [of 100 400 "y + 1"] mod_mod_cancel [of 4 100 "y + 1"] by simp_all
  have "eraDays (y + 1) - eraDays y =
      365 + ((y + 1) div 4 - y div 4) - ((y + 1) div 100 - y div 100) + ((y + 1) div 400 - y div 400)"
    unfolding eraDays_def by (simp only: distrib_left)
  also have "\<dots> = 365 + (if (y + 1) mod 4 = 0 then 1 else 0) - (if (y + 1) mod 100 = 0 then 1 else 0) + (if (y + 1) mod 400 = 0 then 1 else 0)"
    unfolding d add_diff_cancel_left' by (rule refl)
  also have "\<dots> = (if leapYear (y + 1) then 366 else 365)"
  proof -
    have "365 + (if A then 1 else 0) - (if B then 1 else 0) + (if C then 1 else 0) = (if A \<and> (\<not> B \<or> C) then 366 else (365 :: int))"
      if "C \<longrightarrow> B" "B \<longrightarrow> A" for A B C using that by (cases A; cases B; cases C) simp_all
    from this [OF impI [OF m(1)] impI [OF m(2)]] show ?thesis unfolding leapYear_def .
  qed
  finally show ?thesis .
qed

text \<open>The months, from March on.\<close>

definition monthOf :: "int \<Rightarrow> int \<times> int \<times> int" where
  "monthOf doy =
     (let mp = (5 * doy + 2) div 153 in (mp, if mp < 10 then mp + 3 else mp - 9, doy - (153 * mp + 2) div 5 + 1))"

lemma monthOf_table:
  "list_all (\<lambda>doy. case monthOf doy of (mp, m, d) \<Rightarrow>
     0 \<le> mp \<and> mp \<le> 11 \<and> 1 \<le> d \<and> (if m = 2 then d \<le> 29 \<and> (d = 29 \<longrightarrow> doy = 365) else d \<le> daysIn m 1)) (map int [0..<366])"
  by code_simp

lemma monthOf_bounds:
  assumes "0 \<le> doy" "doy < 366" "monthOf doy = (mp, m, d)"
  shows "0 \<le> mp \<and> mp \<le> 11 \<and> 1 \<le> d \<and> (if m = 2 then d \<le> 29 \<and> (d = 29 \<longrightarrow> doy = 365) else d \<le> daysIn m y)"
proof -
  have "doy \<in> set (map int [0..<366])" using assms(1,2) by (auto intro!: image_eqI [of _ _ "nat doy"])
  with monthOf_table assms(3) have "0 \<le> mp \<and> mp \<le> 11 \<and> 1 \<le> d \<and> (if m = 2 then d \<le> 29 \<and> (d = 29 \<longrightarrow> doy = 365) else d \<le> daysIn m 1)"
    unfolding list_all_iff by fastforce
  then show ?thesis by (auto simp: daysIn_def)
qed

lemma civilDate_ok:
  assumes "civilDate days = (y, m, d)"
  shows "1 \<le> m \<and> m \<le> 12 \<and> 1 \<le> d \<and> d \<le> daysIn m y \<and> civilDays y m d = days"
proof -
  define era where "era = (days + 719468) div 146097"
  define doe where "doe = (days + 719468) mod 146097"
  define yoe where "yoe = eraYear doe"
  have doe: "0 \<le> doe" "doe < 146097" by (simp_all add: doe_def)
  note yb = eraYear_bounds [OF doe, folded yoe_def]
  have ed: "eraDays yoe = 365 * yoe + yoe div 4 - yoe div 100" using yb by (simp add: eraDays_def div_pos_pos_trivial)
  define doy where "doy = doe - eraDays yoe"
  have doyb: "0 \<le> doy" "doy < (if leapYear (yoe + 1) then 366 else 365)"
    using yb eraDays_Suc [of yoe] by (auto simp: doy_def split: if_splits)
  obtain mp m' d' where mo: "monthOf doy = (mp, m', d')" by (cases "monthOf doy") auto
  have mb: "0 \<le> mp \<and> mp \<le> 11 \<and> 1 \<le> d' \<and> (if m' = 2 then d' \<le> 29 \<and> (d' = 29 \<longrightarrow> doy = 365) else d' \<le> daysIn m' y)"
    using doyb by (intro monthOf_bounds [OF _ _ mo]) (auto split: if_splits)
  have date: "civilDate days = (case monthOf doy of (mp, m, d) \<Rightarrow> (yoe + era * 400 + (if m \<le> 2 then 1 else 0), m, d))"
    unfolding civilDate_def monthOf_def Let_def doy_def ed unfolding yoe_def eraYear_def era_def doe_def by (simp only: prod.case)
  have out: "m = m'" "d = d'" "y = yoe + era * 400 + (if m \<le> 2 then 1 else 0)"
    using assms mo unfolding date by auto
  have m: "m = (if mp < 10 then mp + 3 else mp - 9)" and d: "d = doy - (153 * mp + 2) div 5 + 1"
    using mo out by (auto simp: monthOf_def Let_def)
  have mods: "(x + k * 400) mod 4 = x mod 4" "(x + k * 400) mod 100 = x mod 100" for x k :: int
    using mod_mult_self1 [of x "k * 100" 4] mod_mult_self1 [of x "k * 4" 100] by (simp_all add: ac_simps)
  have leap: "leapYear (yoe + era * 400 + 1) = leapYear (yoe + 1)"
    using mods [of "yoe + 1" era] mod_mult_self1 [of "yoe + 1" era 400] by (simp add: leapYear_def ac_simps)
  have "d \<le> daysIn m y"
  proof (cases "m = 2")
    case True
    with mb out have "d \<le> 29" "d = 29 \<longrightarrow> doy = 365" "y = yoe + era * 400 + 1" by auto
    then show ?thesis using doyb leap True by (auto simp: daysIn_def split: if_splits)
  qed (use mb out in auto)
  moreover have "civilDays y m d = days"
  proof -
    have "(if m \<le> 2 then y - 1 else y) = yoe + era * 400" using out by simp
    moreover have "(if m \<le> 2 then m + 9 else m - 3) = mp" using m mb by auto
    moreover have "(yoe + era * 400) div 400 = era" "(yoe + era * 400) mod 400 = yoe" using yb by simp_all
    ultimately have "civilDays y m d = era * 146097 + (365 * yoe + yoe div 4 - yoe div 100 + ((153 * mp + 2) div 5 + d - 1)) - 719468"
      unfolding civilDays_def Let_def by (simp only:)
    also have "\<dots> = era * 146097 + doe - 719468" unfolding d doy_def ed by linarith
    also have "\<dots> = days" unfolding era_def doe_def using div_mult_mod_eq [of "days + 719468" 146097] by linarith
    finally show ?thesis .
  qed
  ultimately show ?thesis using mb m out by auto
qed


section \<open>Times round trip\<close>

lemma digits_padLeft: "list_all isDigit (padLeft k (natDigits n))"
  by (auto simp: padLeft_def list_all_iff isDigit_0 intro: isDigit_natDigits)

lemma readDigits_padLeft: "readDigits 0 (padLeft k (natDigits n)) = n"
  by (simp add: padLeft_def readDigits_zeros)

lemma length_padLeft: "0 < k \<Longrightarrow> n < 10 ^ k \<Longrightarrow> length (padLeft k (natDigits n)) = k"
  using length_natDigits [of k n] by (simp add: padLeft_def)

lemma readField_padLeft:
  assumes "0 < k" "n < 10 ^ k" "lo \<le> n" "n \<le> hi"
  shows "readField k lo hi (padLeft k (natDigits n) @ s) = Some (n, s)"
  using assms length_padLeft [OF assms(1,2)] digits_padLeft [of k n]
  by (simp add: readField_def Let_def readDigits_padLeft)

lemma readField_pad2: "0 \<le> n \<Longrightarrow> n < 100 \<Longrightarrow> lo \<le> nat n \<Longrightarrow> nat n \<le> hi \<Longrightarrow> readField 2 lo hi (pad2 n @ s) = Some (nat n, s)"
  unfolding pad2_def by (rule readField_padLeft) simp_all

lemma readFraction_fmtFrac:
  assumes "n < 10 ^ 9" and "s = [] \<or> \<not> isDigit (hd s) \<and> hd s \<noteq> CHR ''.''"
  shows "readFraction (fmtFrac n 9 @ s) = (int n, s)"
proof -
  define ds where "ds = rev (dropWhile (\<lambda>c. c = CHR ''0'') (rev (padLeft 9 (natDigits n))))"
  have f: "list_all isDigit ds" "length ds \<le> 9" "readDigits 0 ds * 10 ^ (9 - length ds) = n"
    using fracDigits [of 9 n] assms(1) by (simp_all add: ds_def)
  have frac: "fmtFrac n 9 = (if ds = [] then [] else CHR ''.'' # ds)"
    using assms(1) by (simp add: fmtFrac_def ds_def Let_def)
  show ?thesis
  proof (cases "ds = []")
    case True
    then have "n = 0" using f(3) by simp
    with True frac assms(2) show ?thesis by (cases s) (auto simp: readFraction_def)
  next
    case False
    have "takeWhile isDigit (ds @ s) = ds" "dropWhile isDigit (ds @ s) = s"
      using f(1) assms(2) by (cases s; auto simp: list_all_iff takeWhile_append dropWhile_append3)+
    moreover have "isDigit (hd (ds @ s))" using False f(1) by (cases ds) auto
    moreover have "int (readDigits 0 ds) * 10 ^ (9 - length ds) = int n" using f(3) by (metis of_nat_mult of_nat_numeral of_nat_power)
    ultimately show ?thesis using False frac f(2) by (simp add: readFraction_def Let_def)
  qed
qed

lemma readZone_zoneSuffix:
  assumes "\<bar>off\<bar> < 86400" "off mod 60 = 0"
  shows "readZone (zoneSuffix off) = Some off"
proof (cases "off = 0")
  case True
  then show ?thesis by (simp add: zoneSuffix_def readZone_def)
next
  case False
  define m where "m = \<bar>off\<bar> div 60"
  have m: "0 \<le> m" "m < 1440" "\<bar>off\<bar> = 60 * m" "60 \<le> \<bar>off\<bar>"
  proof -
    obtain q where q: "off = 60 * q" using assms(2) by (auto simp: mod_eq_0_iff_dvd dvd_def)
    then have "m = \<bar>q\<bar>" by (simp add: m_def abs_mult)
    with q assms(1) False show "0 \<le> m" "m < 1440" "\<bar>off\<bar> = 60 * m" "60 \<le> \<bar>off\<bar>" by (auto simp: abs_mult)
  qed
  define h where "h = m div 60"
  define n where "n = m mod 60"
  have n: "0 \<le> n" "n < 60" "m = 60 * h + n" using div_mult_mod_eq [of m 60] by (simp_all add: h_def n_def)
  with m have hn: "0 \<le> h" "h < 24" "0 \<le> n" "n < 60" "m = 60 * h + n" by linarith+
  define sgn where "sgn = (if off \<le> - 60 then CHR ''-'' else CHR ''+'')"
  have suffix: "zoneSuffix off = sgn # pad2 h @ CHR '':'' # pad2 n @ []"
    using False by (simp add: zoneSuffix_def Let_def m_def [symmetric] h_def n_def sgn_def)
  have len: "length (pad2 h) = 2" "length (pad2 n) = 2"
    using hn length_padLeft [of 2 "nat h"] length_padLeft [of 2 "nat n"] by (simp_all add: pad2_def)
  have r: "readField 2 0 23 (pad2 h @ CHR '':'' # pad2 n @ []) = Some (nat h, CHR '':'' # pad2 n @ [])"
    "readField 2 0 59 (pad2 n) = Some (nat n, [])"
    using hn readField_pad2 [of h 0 23] readField_pad2 [of n 0 59 "[]"] by simp_all
  have "(if sgn = CHR ''-'' then - 1 else 1) * (int (nat h) * 3600 + int (nat n) * 60) = off"
    using hn m by (auto simp: sgn_def)
  then show ?thesis
    using r len unfolding readZone_def suffix by (auto simp: expect_def sgn_def)
qed


lemma expect_Cons [simp]: "expect c (c # s) = Some s"
  by (simp add: expect_def)

text \<open>The zone is a whole number of minutes, less than a day.\<close>

definition wholeMinutes :: "(time \<Rightarrow> int) \<Rightarrow> bool" where
  "wholeMinutes zone \<longleftrightarrow> (\<forall>t. \<bar>zone t\<bar> < 86400 \<and> zone t mod 60 = 0)"

theorem parseTime_marshalTime:
  assumes "wholeMinutes zone" and "marshalTime zone t = Inr s"
  shows "parseTime s = Some t"
proof -
  define off where "off = zone t"
  define l where "l = t + off * 1000000000"
  define secs where "secs = l div 1000000000"
  define nsec where "nsec = l mod 1000000000"
  define day where "day = secs div 86400"
  define sod where "sod = secs mod 86400"
  have off: "\<bar>off\<bar> < 86400" "off mod 60 = 0" using assms(1) by (auto simp: wholeMinutes_def off_def)
  obtain y m d where date: "civilDate day = (y, m, d)" by (cases "civilDate day") auto
  note ok = civilDate_ok [OF date]
  have "marshalTime zone t =
      (if y < 0 \<or> 9999 < y then Inl (Errorf ''Time.MarshalJSON: year outside of range [0,9999]'')
       else if 86400 \<le> \<bar>off\<bar> then Inl (Errorf ''Time.MarshalJSON: timezone hour outside of range [0,23]'')
       else Inr (formatYear y @ ''-'' @ pad2 m @ ''-'' @ pad2 d @ ''T'' @ pad2 (sod div 3600) @ '':'' @ pad2 (sod div 60 mod 60) @
              '':'' @ pad2 (sod mod 60) @ fmtFrac (nat nsec) 9 @ zoneSuffix off))"
    using date unfolding marshalTime_def Let_def off_def l_def secs_def nsec_def day_def sod_def by (simp only: prod.case)
  with assms(2) off(1)
  have y: "0 \<le> y" "y \<le> 9999"
    and s: "s = formatYear y @ ''-'' @ pad2 m @ ''-'' @ pad2 d @ ''T'' @ pad2 (sod div 3600) @ '':'' @ pad2 (sod div 60 mod 60) @
               '':'' @ pad2 (sod mod 60) @ fmtFrac (nat nsec) 9 @ zoneSuffix off"
    by (simp_all split: if_splits)
  have sod: "0 \<le> sod" "sod < 86400" by (simp_all add: sod_def)
  have nsec: "0 \<le> nsec" "nsec < 1000000000" by (simp_all add: nsec_def)
  define hh where "hh = sod div 3600"
  define mi where "mi = sod div 60 mod 60"
  define ss where "ss = sod mod 60"
  have parts: "sod = hh * 3600 + mi * 60 + ss" "0 \<le> hh" "hh < 24" "0 \<le> mi" "mi < 60" "0 \<le> ss" "ss < 60"
  proof -
    have "sod = 60 * (sod div 60) + ss" "sod div 60 = 60 * (sod div 60 div 60) + mi" "sod div 60 div 60 = hh"
      unfolding ss_def mi_def hh_def by (rule mult_div_mod_eq [symmetric], rule mult_div_mod_eq [symmetric])
        (simp add: zdiv_zmult2_eq [symmetric])
    then show "sod = hh * 3600 + mi * 60 + ss" by linarith
    show "0 \<le> mi" "mi < 60" "0 \<le> ss" "ss < 60" by (simp_all add: mi_def ss_def)
    with \<open>sod = hh * 3600 + mi * 60 + ss\<close> sod show "0 \<le> hh" "hh < 24" by linarith+
  qed
  have md: "d \<le> 31" using ok by (auto simp: daysIn_def split: if_splits)
  have fy: "formatYear y = padLeft 4 (natDigits (nat y))" using y by (simp add: formatYear_def)
  have zone0: "zoneSuffix off \<noteq> [] \<and> \<not> isDigit (hd (zoneSuffix off)) \<and> hd (zoneSuffix off) \<noteq> CHR ''.''"
    by (auto simp: zoneSuffix_def Let_def isDigit_def byteIn_def)
  have frac: "readFraction (fmtFrac (nat nsec) 9 @ zoneSuffix off) = (nsec, zoneSuffix off)"
    using readFraction_fmtFrac [of "nat nsec" "zoneSuffix off"] zone0 nsec by simp
  have "t = (day * 86400 + hh * 3600 + mi * 60 + ss - off) * 1000000000 + nsec"
  proof -
    have "secs = day * 86400 + sod" "l = secs * 1000000000 + nsec"
      by (simp_all add: day_def sod_def secs_def nsec_def)
    with parts(1) show ?thesis unfolding l_def by (simp add: algebra_simps)
  qed
  moreover have "readField 4 0 9999 (formatYear y @ r) = Some (nat y, r)" for r
    unfolding fy using y by (intro readField_padLeft) simp_all
  moreover have "readField 2 1 12 (pad2 m @ r) = Some (nat m, r)" for r
    using ok by (intro readField_pad2) linarith+
  moreover have "readField 2 1 (nat (daysIn m y)) (pad2 d @ r) = Some (nat d, r)" for r
    using ok md by (intro readField_pad2) linarith+
  moreover have "readField 2 0 23 (pad2 hh @ r) = Some (nat hh, r)" "readField 2 0 59 (pad2 mi @ r) = Some (nat mi, r)"
    "readField 2 0 59 (pad2 ss @ r) = Some (nat ss, r)" for r
    using parts by (intro readField_pad2; linarith)+
  moreover have "int (nat y) = y" "int (nat m) = m" "int (nat d) = d" "int (nat hh) = hh" "int (nat mi) = mi" "int (nat ss) = ss"
    using y ok parts by linarith+
  ultimately show ?thesis
    using ok unfolding parseTime_def s hh_def [symmetric] mi_def [symmetric] ss_def [symmetric]
    by (simp only: append.simps bind.simps prod.case expect_Cons frac readZone_zoneSuffix [OF off] option.map)
qed

end
