(* ===== verification/Devicetrust_Facts.thy ===== *)
theory Devicetrust_Facts
  imports Json_Text Devicetrust_Time
begin

text \<open>
  The Redis store of device records against the in-memory one: the record read from its JSON text is the one that was
  written, and over a reachable server every history of sightings and markings gives the answers the in-memory store
  gives.
\<close>

section \<open>The parser on what the encoder writes\<close>

definition plainText :: "string \<Rightarrow> bool" where
  "plainText = list_all (\<lambda>c. 32 \<le> (of_char c :: nat) \<and> of_char c \<noteq> (34 :: nat) \<and> of_char c \<noteq> (92 :: nat) \<and> of_char c < (128 :: nat))"

lemma plainText_simps [simp]:
  "plainText []" "plainText (s @ t) \<longleftrightarrow> plainText s \<and> plainText t"
  "plainText (c # s) \<longleftrightarrow>
     32 \<le> (of_char c :: nat) \<and> of_char c \<noteq> (34 :: nat) \<and> of_char c \<noteq> (92 :: nat) \<and> of_char c < (128 :: nat) \<and> plainText s"
  by (auto simp: plainText_def)

lemma scanString_plainText: "plainText s \<Longrightarrow> scanString (s @ char_of (34 :: nat) # r) = Some (s, r)"
  using scanString_plain [of s "char_of (34 :: nat) # r" "[]" r] by (auto simp: plainText_def list_all_iff)

lemma unquote_plainText: "plainText s \<Longrightarrow> unquote s = s"
  by (induction s) (simp_all add: unquote.simps byteIn_def)

lemma quote_char [simp]:
  "char_of (34 :: nat) \<noteq> CHR ''{''" "char_of (34 :: nat) \<noteq> CHR ''}''" "char_of (34 :: nat) \<noteq> CHR ''[''" "char_of (34 :: nat) \<noteq> CHR '',''"
  "\<not> isSpace (char_of (34 :: nat))"
  by code_simp+

lemma parse_string:
  assumes "scanString (w @ char_of (34 :: nat) # r) = Some (w, r)"
  shows "parseValue (Suc n) d (quoted w @ r) = Some (JsonString w, r)"
  using assms by (simp add: quoted_def)

lemma parse_bool: "parseValue (Suc n) d ((if b then ''true'' else ''false'') @ r) = Some (JsonBool b, r)"
  by (simp add: isSpace_def keyword_def)

lemma parse_member:
  assumes "plainText k" and "parseValue n d u = Some (v, c # x)"
    and "c = CHR '','' \<and> parseMembers n d x = Some (ms, rest) \<or> c = CHR ''}'' \<and> ms = [] \<and> rest = x"
  shows "parseMembers (Suc n) d (quoted k @ '':'' @ u) = Some ((k, v) # ms, rest)"
  using assms by (auto simp: quoted_def isSpace_def scanString_plainText unquote_plainText)

lemma parse_record:
  assumes "scanString (fp @ char_of (34 :: nat) # r0) = Some (fp, r0)"
      "r0 = '','' @ quoted ''Trusted'' @ '':'' @ (if b then ''true'' else ''false'') @ '','' @
                    quoted ''FirstSeen'' @ '':'' @ quoted t1 @ '','' @ quoted ''LastSeen'' @ '':'' @ quoted t2 @ ''}''"
    and t: "plainText t1" "plainText t2"
  shows "unmarshalJson (''{'' @ quoted ''Fingerprint'' @ '':'' @ quoted fp @ r0) =
     Some (JsonObject [(''Fingerprint'', JsonString fp), (''Trusted'', JsonBool b), (''FirstSeen'', JsonString t1),
                       (''LastSeen'', JsonString t2)])"
proof -
  define s where "s = quoted ''Fingerprint'' @ '':'' @ quoted fp @ r0"
  obtain N where N: "Suc (Suc (Suc (Suc (Suc (Suc N))))) = 2 * length (''{'' @ s) + 2 + 6" by auto
  obtain d where d: "maxNestingDepth = Suc d" by (auto simp: maxNestingDepth_def)
  define s4 where "s4 = quoted ''LastSeen'' @ '':'' @ quoted t2 @ ''}''"
  define s3 where "s3 = quoted ''FirstSeen'' @ '':'' @ quoted t1 @ '','' @ s4"
  define s2 where "s2 = quoted ''Trusted'' @ '':'' @ (if b then ''true'' else ''false'') @ '','' @ s3"
  have p4: "parseMembers (Suc (Suc N)) d s4 = Some ([(''LastSeen'', JsonString t2)], [])"
    unfolding s4_def by (rule parse_member [where c = "CHR ''}''"])
      (use parse_string [OF scanString_plainText [OF t(2)], of N d "''}''"] in simp_all)
  have p3: "parseMembers (Suc (Suc (Suc N))) d s3 = Some ([(''FirstSeen'', JsonString t1), (''LastSeen'', JsonString t2)], [])"
    unfolding s3_def by (rule parse_member [where c = "CHR '',''" and x = s4])
      (use parse_string [OF scanString_plainText [OF t(1)], of "Suc N" d "'','' @ s4"] p4 in simp_all)
  have p2: "parseMembers (Suc (Suc (Suc (Suc N)))) d s2 =
      Some ([(''Trusted'', JsonBool b), (''FirstSeen'', JsonString t1), (''LastSeen'', JsonString t2)], [])"
    unfolding s2_def by (rule parse_member [where c = "CHR '',''" and x = s3])
      (use parse_bool [of "Suc (Suc N)" d b "'','' @ s3"] p3 in simp_all)
  have "parseMembers (Suc (Suc (Suc (Suc (Suc N))))) d s =
      Some ([(''Fingerprint'', JsonString fp), (''Trusted'', JsonBool b), (''FirstSeen'', JsonString t1), (''LastSeen'', JsonString t2)], [])"
    unfolding s_def by (rule parse_member [where c = "CHR '',''" and x = s2])
      (use parse_string [OF assms(1), of "Suc (Suc (Suc N))" d] p2 assms(2) in \<open>simp_all add: s2_def s3_def s4_def\<close>)
  moreover obtain u where "s = char_of (34 :: nat) # u" by (simp add: s_def quoted_def)
  ultimately have "parseValue (Suc (Suc (Suc (Suc (Suc (Suc N)))))) maxNestingDepth (''{'' @ s) =
      Some (JsonObject [(''Fingerprint'', JsonString fp), (''Trusted'', JsonBool b), (''FirstSeen'', JsonString t1), (''LastSeen'', JsonString t2)], [])"
    unfolding d parseValue.simps(2) by (simp add: isSpace_def del: parseMembers.simps)
  moreover have "parseValue (Suc (Suc (Suc (Suc (Suc (Suc N)))))) maxNestingDepth (''{'' @ s) = parseJson (''{'' @ s)"
    by (rule parseJson_fuel) (use N in linarith)
  ultimately have "parseJson (''{'' @ s) =
      Some (JsonObject [(''Fingerprint'', JsonString fp), (''Trusted'', JsonBool b), (''FirstSeen'', JsonString t1), (''LastSeen'', JsonString t2)], [])"
    by metis
  then show ?thesis unfolding s_def by (simp add: unmarshalJson_def)
qed

section \<open>The text of a time\<close>

lemma plainText_digits: "list_all isDigit s \<Longrightarrow> plainText s"
  by (auto simp: plainText_def list_all_iff isDigit_def byteIn_def)

lemma plainText_pad2: "plainText (pad2 n)"
  unfolding pad2_def by (rule plainText_digits, rule digits_padLeft)

lemma plainText_marshalTime:
  assumes "marshalTime zone t = Inr s" shows "plainText s"
proof -
  have "list_all isDigit (rev (dropWhile P (rev (padLeft 9 (natDigits n)))))" for P n
    using digits_padLeft [of 9 n] by (auto simp: list_all_iff dest!: set_dropWhileD)
  then have "plainText (fmtFrac n 9)" for n
    unfolding fmtFrac_def Let_def by (simp add: plainText_digits)
  moreover have "plainText (zoneSuffix off)" for off
    by (simp add: zoneSuffix_def Let_def plainText_pad2)
  moreover have "plainText (formatYear y)" for y
    by (simp add: formatYear_def plainText_digits digits_padLeft)
  ultimately show ?thesis
    using assms by (auto simp: marshalTime_def Let_def plainText_pad2 split: prod.splits if_splits)
qed

section \<open>Records round trip\<close>

text \<open>An instant that fits an \<^verbatim>\<open>int64\<close> of nanoseconds, the years 1678 to 2261.\<close>

definition unixNano :: "time \<Rightarrow> bool" where
  "unixNano t \<longleftrightarrow> - (2 ^ 63) \<le> t \<and> t < 2 ^ 63"

lemma civilDate_year:
  assumes "civilDate days = (y, m, d)"
  shows "400 * ((days + 719468) div 146097) \<le> y \<and> y \<le> 400 * ((days + 719468) div 146097) + 400"
proof -
  define doe where "doe = (days + 719468) mod 146097"
  have "0 \<le> doe" "doe < 146097" by (simp_all add: doe_def)
  then have "0 \<le> eraYear doe" "eraYear doe < 400" using eraYear_bounds [of doe] by blast+
  moreover have "fst (civilDate days) = eraYear doe + (days + 719468) div 146097 * 400 + (if fst (snd (civilDate days)) \<le> 2 then 1 else 0)"
    unfolding civilDate_def Let_def eraYear_def doe_def by (simp only: fst_conv snd_conv)
  ultimately show ?thesis using assms by auto
qed

lemma marshalTime_ok:
  assumes "unixNano t" "wholeMinutes zone"
  obtains s where "marshalTime zone t = Inr s"
proof -
  define off where "off = zone t"
  have off: "\<bar>off\<bar> < 86400" using assms(2) by (simp add: off_def wholeMinutes_def)
  define day where "day = (t + off * 1000000000) div 1000000000 div 86400"
  have day: "day = (t + off * 1000000000) div 86400000000000"
    unfolding day_def by (simp add: zdiv_zmult2_eq [symmetric])
  have "- 9223458437000000000 \<le> t + off * 1000000000" "t + off * 1000000000 < 9223458437000000000"
    using assms(1) off by (auto simp: unixNano_def)
  then have "- 106753 \<le> day" "day \<le> 106753"
    unfolding day using zdiv_mono1 [of "- 9223458437000000000" "t + off * 1000000000" 86400000000000]
      zdiv_mono1 [of "t + off * 1000000000" 9223458437000000000 86400000000000] by simp_all
  then have era: "4 \<le> (day + 719468) div 146097" "(day + 719468) div 146097 \<le> 5"
    using zdiv_mono1 [of 612715 "day + 719468" 146097] zdiv_mono1 [of "day + 719468" 826221 146097] by simp_all
  obtain y m d where date: "civilDate day = (y, m, d)" by (cases "civilDate day") auto
  have "0 \<le> y \<and> y \<le> 9999" using civilDate_year [OF date] era by linarith
  then have "\<exists>s. marshalTime zone t = Inr s"
    unfolding marshalTime_def Let_def off_def [symmetric] day_def [symmetric] using date off by simp
  then show ?thesis using that by blast
qed

lemma marshalRecord_ok:
  assumes "unixNano (dr_FirstSeen rec)" "unixNano (dr_LastSeen rec)" "wholeMinutes zone"
  obtains b where "marshalRecord zone rec = Inr b"
proof -
  obtain t1 t2 where "marshalTime zone (dr_FirstSeen rec) = Inr t1" "marshalTime zone (dr_LastSeen rec) = Inr t2"
    using marshalTime_ok assms by metis
  then show ?thesis by (intro that) (simp add: marshalRecord_def)
qed

lemma fieldFor_self: "k \<in> set names \<Longrightarrow> fieldFor names k = Some k"
  by (simp add: fieldFor_def)

lemma unmarshal_marshalRecord:
  assumes "wholeMinutes zone" and "marshalRecord zone rec = Inr b"
  shows "unmarshalRecord b = Some (rec\<lparr>dr_Fingerprint := toValidUTF8 (dr_Fingerprint rec)\<rparr>)"
proof -
  from assms(2) obtain t1 t2 where t: "marshalTime zone (dr_FirstSeen rec) = Inr t1" "marshalTime zone (dr_LastSeen rec) = Inr t2"
    by (auto simp: marshalRecord_def split: sum.splits)
  let ?r = "'','' @ quoted ''Trusted'' @ '':'' @ (if dr_Trusted rec then ''true'' else ''false'') @ '','' @
      quoted ''FirstSeen'' @ '':'' @ quoted t1 @ '','' @ quoted ''LastSeen'' @ '':'' @ quoted t2 @ ''}''"
  have b: "b = ''{'' @ quoted ''Fingerprint'' @ '':'' @ quoted (jsonEscape (dr_Fingerprint rec)) @ ?r"
    using assms(2) t by (simp add: marshalRecord_def)
  have "unmarshalJson b = Some (JsonObject [(''Fingerprint'', JsonString (jsonEscape (dr_Fingerprint rec))),
      (''Trusted'', JsonBool (dr_Trusted rec)), (''FirstSeen'', JsonString t1), (''LastSeen'', JsonString t2)])"
    unfolding b by (rule parse_record [OF scanString_jsonEscape refl]) (use plainText_marshalTime t in blast)+
  then show ?thesis
    using parseTime_marshalTime [OF assms(1) t(1)] parseTime_marshalTime [OF assms(1) t(2)]
    by (simp add: unmarshalRecord_def storeField_def fieldFor_self storeTime_def unquote_jsonEscape zeroRecord_def)
qed

section \<open>The store over a reachable server\<close>

text \<open>A fingerprint the store is used with: ASCII and without the separator of its keys. \<open>Fingerprint\<close> gives such texts.\<close>

definition keyable :: "string \<Rightarrow> bool" where
  "keyable f \<longleftrightarrow> f \<noteq> [] \<and> list_all (\<lambda>c. of_char c < (128 :: nat) \<and> c \<noteq> CHR '':'') f"

lemma device_key_inj:
  assumes "device_key s a f = device_key s b g" "keyable f" "keyable g"
  shows "a = b \<and> f = g"
proof -
  have no: "CHR '':'' \<notin> set f" "CHR '':'' \<notin> set g" using assms(2,3) by (auto simp: keyable_def list_all_iff)
  from assms(1) have "a @ CHR '':'' # f = b @ CHR '':'' # g" by (simp add: device_key_def)
  with no show ?thesis by (auto simp: append_eq_append_conv2 append_eq_Cons_conv Cons_eq_append_conv)
qed

text \<open>The server mirrors an in-memory store: under every key it holds the text of the record, or nothing.\<close>

definition mirrors :: "'r redis \<Rightarrow> deviceRedis \<Rightarrow> (time \<Rightarrow> int) \<Rightarrow> int \<Rightarrow> deviceMemory \<Rightarrow> 'r \<Rightarrow> bool" where
  "mirrors R s zone t m r \<longleftrightarrow>
     (\<forall>a f t'. keyable f \<longrightarrow> t \<le> t' \<longrightarrow>
        (case accountKey a f m of
           None \<Rightarrow> rd_GET R t' (device_key s a f) r = None
         | Some rec \<Rightarrow> dr_Fingerprint rec = f \<and> unixNano (dr_FirstSeen rec) \<and> unixNano (dr_LastSeen rec) \<and>
             (\<exists>b. marshalRecord zone rec = Inr b \<and> rd_GET R t' (device_key s a f) r = Some b)))"

lemma mirrorsD:
  assumes "mirrors R s zone t m r" "keyable f" "t \<le> t'"
  shows "case accountKey a f m of
       None \<Rightarrow> rd_GET R t' (device_key s a f) r = None
     | Some rec \<Rightarrow> dr_Fingerprint rec = f \<and> unixNano (dr_FirstSeen rec) \<and> unixNano (dr_LastSeen rec) \<and>
         (\<exists>b. marshalRecord zone rec = Inr b \<and> rd_GET R t' (device_key s a f) r = Some b)"
  using assms unfolding mirrors_def by blast

lemma mirrors_Get:
  assumes "mirrors R s zone t m r" "redis_up R" "wholeMinutes zone" "t \<le> t'" "keyable f"
  shows "device_redis_Get R s t' None a f r = (Inr (accountKey a f m), r)"
proof (cases "accountKey a f m")
  case None
  then have "rd_GET R t' (device_key s a f) r = None" using mirrorsD [OF assms(1,5,4), of a] by simp
  with None assms(2) show ?thesis by (simp add: device_redis_Get_def redis_up_def)
next
  case (Some rec)
  then obtain b where b: "marshalRecord zone rec = Inr b" "rd_GET R t' (device_key s a f) r = Some b"
    and f: "dr_Fingerprint rec = f" using mirrorsD [OF assms(1,5,4), of a] by auto
  have "toValidUTF8 f = f" using assms(5) by (intro toValidUTF8_ascii) (auto simp: keyable_def list_all_iff)
  then have "unmarshalRecord b = Some rec" using unmarshal_marshalRecord [OF assms(3) b(1)] f by simp
  with Some b assms(2) show ?thesis by (simp add: device_redis_Get_def redis_up_def)
qed

lemma mirrors_save:
  assumes "mirrors R s zone t m r" "redis_up R" "redis_string_law R" "wholeMinutes zone" "t \<le> t'" "keyable f"
    and "dr_Fingerprint rec = f" "unixNano (dr_FirstSeen rec)" "unixNano (dr_LastSeen rec)"
  shows "\<exists>r'. device_redis_save R s zone t' None a f rec r = (None, r') \<and> mirrors R s zone t' (device_put a f rec m) r'"
proof -
  obtain b where b: "marshalRecord zone rec = Inr b" using marshalRecord_ok [OF assms(8,9,4)] .
  then have "device_redis_save R s zone t' None a f rec r = (None, rd_SET R t' (device_key s a f) b r)"
    using assms(2) by (simp add: device_redis_save_def redis_up_def)
  moreover have "mirrors R s zone t' (device_put a f rec m) (rd_SET R t' (device_key s a f) b r)"
    unfolding mirrors_def
  proof (intro allI impI)
    fix c g u assume g: "keyable g" "t' \<le> u"
    have got: "rd_GET R u (device_key s c g) (rd_SET R t' (device_key s a f) b r) =
        (if c = a \<and> g = f then Some b else rd_GET R u (device_key s c g) r)"
      using string_simps(2) [OF assms(3) g(2)] device_key_inj [of s c g a f] g(1) assms(6) by auto
    show "case accountKey c g (device_put a f rec m) of
           None \<Rightarrow> rd_GET R u (device_key s c g) (rd_SET R t' (device_key s a f) b r) = None
         | Some rec \<Rightarrow> dr_Fingerprint rec = g \<and> unixNano (dr_FirstSeen rec) \<and> unixNano (dr_LastSeen rec) \<and>
             (\<exists>b'. marshalRecord zone rec = Inr b' \<and> rd_GET R u (device_key s c g) (rd_SET R t' (device_key s a f) b r) = Some b')"
      unfolding got accountKey_put
      using b assms(5,7-9) g mirrorsD [OF assms(1) g(1), of u c] by (cases "c = a \<and> g = f"; simp) blast
  qed
  ultimately show ?thesis by blast
qed


text \<open>A history over Redis: each event with the clock of the server when it arrives.\<close>

definition deviceRedisRun :: "'r redis \<Rightarrow> deviceRedis \<Rightarrow> (time \<Rightarrow> int) \<Rightarrow> (int \<times> deviceEvent) list \<Rightarrow> 'r \<Rightarrow> 'r" where
  "deviceRedisRun R s zone es r =
     fold (\<lambda>(t, e). deviceStep (devicetrust_New (device_redis_Store R s zone t) (Some (device_redis_Store R s zone t))) e) es r"

fun eventFingerprint :: "deviceEvent \<Rightarrow> string" where
  "eventFingerprint (Seen t a f) = f"
| "eventFingerprint (Marked t a f) = f"

lemma seenRecord_fields:
  assumes "mirrors R s zone t m r" "keyable f" "unixNano ts"
  shows "dr_Fingerprint (seenRecord f ts (accountKey a f m)) = f"
    "unixNano (dr_FirstSeen (seenRecord f ts (accountKey a f m)))" "unixNano (dr_LastSeen (seenRecord f ts (accountKey a f m)))"
  using mirrorsD [OF assms(1,2) order_refl, of a] assms(3) by (auto simp: seenRecord_def split: option.splits)

lemma mirrors_step:
  assumes "mirrors R s zone t m r" "redis_up R" "redis_string_law R" "wholeMinutes zone" "t \<le> t'"
    and "keyable (eventFingerprint e)" "unixNano (deviceTime e)"
  shows "mirrors R s zone t' (deviceStep \<lparr>dc_store = device_memory_Store\<rparr> e m)
     (deviceStep \<lparr>dc_store = device_redis_Store R s zone t'\<rparr> e r)"
proof -
  have later: "mirrors R s zone t' m r" using assms(1,5) unfolding mirrors_def by (meson order_trans)
  have f: "eventFingerprint e \<noteq> []" using assms(6) by (simp add: keyable_def)
  note save = mirrors_save [OF assms(1-5), of _ _ ]
  note Get = mirrors_Get [OF assms(1,2,4,5)]
  note fields = seenRecord_fields [OF assms(1)]
  show ?thesis
  proof (cases e)
    case (Seen ts a g)
    then have g: "keyable g" "unixNano ts" "g \<noteq> []" using assms(6,7) f by simp_all
    obtain r' where "device_redis_save R s zone t' None a g (seenRecord g ts (accountKey a g m)) r = (None, r')"
      "mirrors R s zone t' (device_put a g (seenRecord g ts (accountKey a g m)) m) r'"
      using save [OF g(1)] fields [OF g(1,2)] by blast
    then show ?thesis
      using Seen g later by (simp add: RecordSeen_def device_redis_Store_def device_memory_Store_def device_redis_UpsertSeen_def
          device_memory_UpsertSeen_def Get)
  next
    case (Marked ts a g)
    then have g: "keyable g" "unixNano ts" "g \<noteq> []" using assms(6,7) f by simp_all
    obtain r' where "device_redis_save R s zone t' None a g ((seenRecord g ts (accountKey a g m))\<lparr>dr_Trusted := True\<rparr>) r = (None, r')"
      "mirrors R s zone t' (device_put a g ((seenRecord g ts (accountKey a g m))\<lparr>dr_Trusted := True\<rparr>) m) r'"
      using save [OF g(1), of "(seenRecord g ts (accountKey a g m))\<lparr>dr_Trusted := True\<rparr>" a] fields [OF g(1,2), of a] by auto
    then show ?thesis
      using Marked g later by (simp add: MarkDeviceTrusted_def device_redis_Store_def device_memory_Store_def
          device_redis_MarkTrusted_def device_memory_MarkTrusted_def Get)
  qed
qed

lemma mirrors_run:
  assumes "redis_up R" "redis_string_law R" "wholeMinutes zone"
    and "mirrors R s zone t m r" "sorted (t # map fst es)"
    and "\<forall>(u, e) \<in> set es. keyable (eventFingerprint e) \<and> unixNano (deviceTime e)"
  shows "mirrors R s zone (last (t # map fst es)) (deviceRun \<lparr>dc_store = device_memory_Store\<rparr> (map snd es) m)
     (deviceRedisRun R s zone es r)"
  using assms(4-)
proof (induction es arbitrary: t m r)
  case (Cons x es)
  obtain u e where x: "x = (u, e)" by (cases x)
  with Cons.prems have "mirrors R s zone u (deviceStep \<lparr>dc_store = device_memory_Store\<rparr> e m)
     (deviceStep \<lparr>dc_store = device_redis_Store R s zone u\<rparr> e r)"
    by (intro mirrors_step [OF _ assms(1-3)]) auto
  with Cons.IH Cons.prems x show ?case by (auto simp: deviceRun_def deviceRedisRun_def devicetrust_New_def)
qed (simp add: deviceRun_def deviceRedisRun_def)

section \<open>Guarantees\<close>



text \<open>C29: The Redis store of devices refines the in-memory one: over a reachable server without device keys, after any history
  of \<^verbatim>\<open>RecordSeen\<close> and \<^verbatim>\<open>MarkDeviceTrusted\<close>, \<^verbatim>\<open>Lookup\<close> and \<^verbatim>\<open>IsKnownDevice\<close> answer for every account and fingerprint what
  they answer over the in-memory store after the same history. The fingerprints are ASCII without colons, as those
  \<^verbatim>\<open>Fingerprint\<close> computes; with them no two devices share a key.\<close>

theorem device_redis_refines_memory:
  assumes "redis_up R" "redis_string_law R" "wholeMinutes zone"
    and "\<forall>a f t. 0 \<le> t \<longrightarrow> rd_GET R t (device_key s a f) r = None"
    and "\<forall>(u, e) \<in> set es. keyable (eventFingerprint e) \<and> unixNano (deviceTime e)"
    and "sorted (0 # map fst es @ [t])" and "keyable f"
  shows "fst (Lookup (devicetrust_New St (Some (device_redis_Store R s zone t))) None a f (deviceRedisRun R s zone es r)) =
     fst (Lookup (devicetrust_New device_memory_Store None) None a f
        (deviceRun (devicetrust_New device_memory_Store None) (map snd es) devicetrust_NewMemoryStore)) \<and>
    fst (IsKnownDevice (devicetrust_New St (Some (device_redis_Store R s zone t))) None a f (deviceRedisRun R s zone es r)) =
     fst (IsKnownDevice (devicetrust_New device_memory_Store None) None a f
        (deviceRun (devicetrust_New device_memory_Store None) (map snd es) devicetrust_NewMemoryStore))"
proof -
  have "mirrors R s zone 0 devicetrust_NewMemoryStore r"
    using assms(4) by (simp add: mirrors_def accountKey_def devicetrust_NewMemoryStore_def)
  then have "mirrors R s zone (last (0 # map fst es)) (deviceRun \<lparr>dc_store = device_memory_Store\<rparr> (map snd es) devicetrust_NewMemoryStore)
     (deviceRedisRun R s zone es r)"
    using assms(5,6) by (intro mirrors_run [OF assms(1-3)]) (auto simp: sorted_append)
  moreover have "last (0 # map fst es) \<le> t" using assms(6) by (auto simp: sorted_append last_map)
  ultimately have "device_redis_Get R s t None a f (deviceRedisRun R s zone es r) =
     (Inr (accountKey a f (deviceRun \<lparr>dc_store = device_memory_Store\<rparr> (map snd es) devicetrust_NewMemoryStore)),
      deviceRedisRun R s zone es r)"
    by (rule mirrors_Get [OF _ assms(1,3) _ assms(7)])
  then show ?thesis
    by (simp add: Lookup_def IsKnownDevice_def devicetrust_New_def device_redis_Store_def mem_device.get_reads)
qed

theorem device_redis_refines_memory_witness:
  "fst (Lookup (devicetrust_New (device_redis_Store refRedis (devicetrust_NewRedisStore []) (\<lambda>t. 10800) 9) (Some (device_redis_Store refRedis (devicetrust_NewRedisStore []) (\<lambda>t. 10800) 9))) None ''a'' ''f''
       (deviceRedisRun refRedis (devicetrust_NewRedisStore []) (\<lambda>t. 10800) [(3, Seen 70 ''a'' ''f''), (5, Marked 71 ''a'' ''f'')] refEmpty)) =
     Inr (Some \<lparr>dr_Fingerprint = ''f'', dr_Trusted = True, dr_FirstSeen = 70, dr_LastSeen = 71\<rparr>)"
proof -
  have "accountKey ''a'' ''f'' devicetrust_NewMemoryStore = None" by (simp add: accountKey_def devicetrust_NewMemoryStore_def)
  then show ?thesis
    using device_redis_refines_memory [OF refRedis_up refRedis_string_law, of "\<lambda>t. 10800" "devicetrust_NewRedisStore []" refEmpty
        "[(3, Seen 70 ''a'' ''f''), (5, Marked 71 ''a'' ''f'')]" 9 "''f''"
        "device_redis_Store refRedis (devicetrust_NewRedisStore []) (\<lambda>t. 10800) 9" "''a''"]
    by (simp add: wholeMinutes_def unixNano_def keyable_def refRedis_def ref_GET_def refEmpty_def Lookup_def deviceRun_def devicetrust_New_def
        device_memory_Store_def RecordSeen_def MarkDeviceTrusted_def device_memory_UpsertSeen_def device_memory_MarkTrusted_def
        device_memory_Get_def accountKey_put seenRecord_def)
qed

end
