(* ===== verification/Ratelimit_Exact.thy ===== *)
theory Ratelimit_Exact
  imports Ratelimit
begin

text \<open>
  The Redis sliding window against its specification. The bound of theory \<open>Ratelimit\<close> says that it never lets too many calls
  through; here it is shown to be exact while Redis answers: the sorted set holds the live calls and nothing else, so
  that the decisions are those of a log of the calls let through.
\<close>

section \<open>The reference\<close>

text \<open>A log of the calls let through: a call at \<open>now\<close> is let through when fewer than the limit of them lie in the window that
  ends with it, to the millisecond.\<close>

fun windowLog :: "int \<Rightarrow> duration \<Rightarrow> time list \<Rightarrow> time list \<Rightarrow> time list" where
  "windowLog limit window acc [] = []"
| "windowLog limit window acc (now # nows) =
     (if int (length (filter (\<lambda>a. time_UnixMilli (now - window) < time_UnixMilli a) acc)) < limit
      then now # windowLog limit window (acc @ [now]) nows else windowLog limit window acc nows)"

section \<open>The set holds nothing but calls let through\<close>

definition swOnly :: "(int \<Rightarrow> string \<Rightarrow> 'r \<Rightarrow> (string \<rightharpoonup> int)) \<Rightarrow> string \<Rightarrow> (time \<times> int) list \<Rightarrow> int \<Rightarrow> 'r \<Rightarrow> bool" where
  "swOnly zs k acc t r \<longleftrightarrow>
     (\<forall>m x. zs t k r m = Some x \<longrightarrow> (\<exists>a n. (a, n) \<in> set acc \<and> m = sw_member a n \<and> x = time_UnixMilli a \<and> 0 \<le> x))"

lemma swOnly_later: "redis_zset_law R zs ex \<Longrightarrow> t \<le> t' \<Longrightarrow> swOnly zs k acc t r \<Longrightarrow> swOnly zs k acc t' r"
  using zset_later [of R zs ex t t' k r] unfolding swOnly_def by (auto split: option.splits if_splits)

lemma card_le_members:
  assumes "dom z \<subseteq> (\<lambda>(a, n). sw_member a n) ` set acc" shows "card (dom z) \<le> length acc"
  using card_mono [OF _ assms] card_image_le [of "set acc" "\<lambda>(a, n). sw_member a n"] card_length [of acc]
  by (meson List.finite_set finite_imageI order_trans)

lemma swBody_exact:
  assumes law: "redis_zset_law R zs ex" and v: "validWindow s" and q: "0 \<le> q" and pos: "0 \<le> time_UnixMilli now"
    and k: "swKnows s zs ex k acc (time_UnixMilli (now - swc_Window (sw_cfg s))) (time_UnixMilli now) (q, r)"
    and o: "swOnly zs k acc (time_UnixMilli now) r"
    and out: "swBody R s k now (q + 1) r = (rep, r')"
    and ok: "ok \<longleftrightarrow> int (length (filter (\<lambda>(a, n). time_UnixMilli (now - swc_Window (sw_cfg s)) < time_UnixMilli a) acc)) < swc_Limit (sw_cfg s)"
  shows "rep = RInt (if ok then 1 else 0) \<and> swOnly zs k (if ok then acc @ [(now, q + 1)] else acc) (time_UnixMilli now) r'"
proof -
  let ?c = "time_UnixMilli (now - swc_Window (sw_cfg s))" and ?t = "time_UnixMilli now"
  let ?m = "sw_member now (q + 1)" and ?live = "filter (\<lambda>(a, n). ?c < time_UnixMilli a) acc"
  define r1 where "r1 = rd_ZREMRANGEBYSCORE R ?t k 0 ?c r"
  define r2 where "r2 = rd_ZADD R ?t k ?t ?m r1"
  have z1: "zs ?t k r1 = (\<lambda>m. case zs ?t k r m of None \<Rightarrow> None | Some x \<Rightarrow> if 0 \<le> x \<and> x \<le> ?c then None else Some x)"
    unfolding r1_def by (rule zset_simps(4) [OF law])
  have z2: "zs ?t k r2 = (zs ?t k r1)(?m \<mapsto> ?t)" unfolding r2_def by (rule zset_simps(2) [OF law])
  have live1: "\<exists>a n. (a, n) \<in> set ?live \<and> m = sw_member a n \<and> x = time_UnixMilli a \<and> 0 \<le> x" if "zs ?t k r1 m = Some x" for m x
    using that o unfolding z1 swOnly_def by (fastforce split: option.splits if_splits)
  have fresh: "?m \<noteq> sw_member a n" if "(a, n) \<in> set acc" for a n
    using k that q sw_member_inj [of n "q + 1" a now] by (fastforce simp: swKnows_def)
  have in2: "zs ?t k r2 (sw_member a n) = Some (time_UnixMilli a)" if "(a, n) \<in> set acc" "?c < time_UnixMilli a" for a n
    using k that fresh z1 z2 by (fastforce simp: swKnows_def)
  have fin: "finite (dom (zs ?t k r2))" by (rule zset_simps(1) [OF law])
  have "length (?live @ [(now, q + 1)]) \<le> card (dom (zs ?t k r2))"
    using in2 z2 k q fin by (intro card_ge_members) (auto simp: swKnows_def distinct_map_filter split_beta)
  moreover have "card (dom (zs ?t k r2)) \<le> length (?live @ [(now, q + 1)])"
    using live1 z2 by (intro card_le_members) (force simp: image_iff split: if_splits)
  ultimately have "rd_ZCARD R ?t k r2 = int (length ?live) + 1" using zset_simps(6) [OF law, of ?t k r2] by simp
  then have "(rep, r') = (if ok then (RInt 1, rd_PEXPIRE R ?t k (swTTL s) r2) else (RInt 0, rd_ZREM R ?t k ?m r2))"
    using out unfolding slidingWindowScript_def Let_def r1_def [symmetric] r2_def [symmetric] ok by auto
  moreover have "swOnly zs k (acc @ [(now, q + 1)]) ?t (rd_PEXPIRE R ?t k (swTTL s) r2)"
    unfolding swOnly_def zset_simps(9) [OF law swTTL_pos [OF v]] z2 using live1 pos by (auto split: if_splits) fastforce
  moreover have "swOnly zs k acc ?t (rd_ZREM R ?t k ?m r2)"
    unfolding swOnly_def zset_simps(3) [OF law] z2 using live1 by (auto split: if_splits) fastforce
  ultimately show ?thesis by (auto split: if_splits)
qed

lemma slidingWindow_Allow_up:
  assumes "redis_up R" "redis_decode_law R" "validWindow s" "key \<noteq> []" "0 \<le> q" "q + 1 < 18446744073709551616"
    and "swBody R s (sw_rkey s key) now (q + 1) r = (RInt i, r')"
  shows "slidingWindow_Allow R s None now key (q, r) = (Inr (i = 1), (q + 1, r'))"
proof -
  have neg: "dur_neg (swc_Window (sw_cfg s)) = - swc_Window (sw_cfg s)"
    using assms(3) by (intro dur_neg_pos) (auto simp: validWindow_def in_i64_def maxInt64_def second_def)
  have "u64 (q + 1) = q + 1" using assms(5,6) by (simp add: u64_def)
  then show ?thesis
    using assms(4,7) call_up [OF assms(1), of "swBody R s (sw_rkey s key) now (q + 1)" r "RInt i" r']
    by (simp add: slidingWindow_Allow_def Let_def swTTL_def time_Add_def neg decode_simps [OF assms(2)])
qed

lemma slidingWindow_log:
  assumes laws: "redis_up R" "redis_decode_law R" "redis_zset_law R zs ex" and v: "validWindow s" and key: "key \<noteq> []"
  shows "swKnows s zs ex (sw_rkey s key) acc c t (q, r) \<Longrightarrow> swOnly zs (sw_rkey s key) acc t r \<Longrightarrow> 0 \<le> q \<Longrightarrow>
     q + int (length nows) < 18446744073709551616 \<Longrightarrow> sorted nows \<Longrightarrow>
     \<forall>now \<in> set nows. 0 \<le> now \<and> t \<le> time_UnixMilli now \<and> c \<le> time_UnixMilli (now - swc_Window (sw_cfg s)) \<Longrightarrow>
     map snd (limiterRun (slidingWindow_Allow R s) (map (Pair key) nows) (q, r)) =
       windowLog (swc_Limit (sw_cfg s)) (swc_Window (sw_cfg s)) (map fst acc) nows"
proof (induction nows arbitrary: acc c t q r)
  case (Cons now nows)
  let ?c = "time_UnixMilli (now - swc_Window (sw_cfg s))" and ?t = "time_UnixMilli now" and ?k = "sw_rkey s key"
  have know: "swKnows s zs ex ?k acc ?c ?t (q, r)" and only: "swOnly zs ?k acc ?t r"
    using swKnows_later [OF laws(3) v Cons.prems(1), of now] swOnly_later [OF laws(3) _ Cons.prems(2)] Cons.prems(6) by simp_all
  have later: "\<forall>n \<in> set nows. 0 \<le> n \<and> ?t \<le> time_UnixMilli n \<and> ?c \<le> time_UnixMilli (n - swc_Window (sw_cfg s))"
    using Cons.prems(5,6) by (auto intro: ms_mono)
  obtain rep r' where body: "swBody R s ?k now (q + 1) r = (rep, r')" by fastforce
  have pos: "0 \<le> ?t" using Cons.prems(6) by (simp add: time_UnixMilli_def pos_imp_zdiv_nonneg_iff)
  define ok where "ok \<longleftrightarrow> int (length (filter (\<lambda>(a, n). ?c < time_UnixMilli a) acc)) < swc_Limit (sw_cfg s)"
  have ex: "rep = RInt (if ok then 1 else 0)" "swOnly zs ?k (if ok then acc @ [(now, q + 1)] else acc) ?t r'"
    using swBody_exact [OF laws(3) v Cons.prems(3) pos know only body ok_def] by blast+
  have al: "slidingWindow_Allow R s None now key (q, r) = (Inr ok, (q + 1, r'))"
    using slidingWindow_Allow_up [OF laws(1,2) v key Cons.prems(3) _ body [unfolded ex(1)]] Cons.prems(4) by simp
  have ok: "ok \<longleftrightarrow> int (length (filter (\<lambda>a. ?c < time_UnixMilli a) (map fst acc))) < swc_Limit (sw_cfg s)"
    by (simp add: ok_def filter_map o_def case_prod_unfold)
  have "swKnows s zs ex ?k (if ok then acc @ [(now, q + 1)] else acc) ?c ?t (q + 1, r')"
    using swBody_step [OF laws(3) v Cons.prems(3) know body] ex(1) by simp
  from Cons.IH [OF this ex(2)] Cons.prems(3-5) later
  have "map snd (limiterRun (slidingWindow_Allow R s) (map (Pair key) nows) (q + 1, r')) =
      windowLog (swc_Limit (sw_cfg s)) (swc_Window (sw_cfg s)) (map fst (if ok then acc @ [(now, q + 1)] else acc)) nows"
    by simp
  then show ?case using al ok by simp
qed simp

section \<open>Guarantees\<close>

text \<open>C9: As long as Redis answers, the sliding window is exactly its specification: of the calls for a key, those let through
  are the ones a log of all calls let through so far lets through, one by one, with no call refused that had room in
  its window and none let through that had not.\<close>

theorem slidingWindow_exact:
  assumes "redis_up R" "redis_decode_law R" "redis_zset_law R zs ex"
    and "NewRedisSlidingWindow client p cfg = Inr s" "swc_Window cfg \<le> maxInt64 - second"
    and "key \<noteq> []" "zs (time_UnixMilli now) (sw_rkey s key) r = Map.empty"
    and "0 \<le> q" "q + int (length (now # nows)) < 18446744073709551616" "sorted (0 # now # nows)"
  shows "map snd (limiterRun (slidingWindow_Allow R s) (map (Pair key) (now # nows)) (q, r)) =
     windowLog (swc_Limit cfg) (swc_Window cfg) [] (now # nows)"
proof -
  have v: "validWindow s" and c: "sw_cfg s = cfg"
    using assms(4,5) by (auto simp: NewRedisSlidingWindow_def SlidingWindowConfig_validate_def validWindow_def
        split: if_splits option.splits)
  have "\<forall>n \<in> set (now # nows). 0 \<le> n \<and> time_UnixMilli now \<le> time_UnixMilli n \<and>
      time_UnixMilli (now - swc_Window (sw_cfg s)) \<le> time_UnixMilli (n - swc_Window (sw_cfg s))"
    using assms(10) by (auto intro: ms_mono)
  then show ?thesis
    using slidingWindow_log [OF assms(1-3) v assms(6), of "[]" "time_UnixMilli (now - swc_Window (sw_cfg s))"
        "time_UnixMilli now" q r "now # nows"] swKnows_start [of zs "time_UnixMilli now" "sw_rkey s key" r] assms(7-10) c
    by (simp add: swOnly_def)
qed

theorem slidingWindow_exact_witness:
  "map snd (limiterRun (slidingWindow_Allow refRedis \<lparr>sw_prefix = ''p'', sw_cfg = \<lparr>swc_Limit = 2, swc_Window = second\<rparr>\<rparr>)
      (map (Pair ''a'') [5, 6, 7, 1000000005]) (0, refEmpty)) = [5, 6, 1000000005]"
proof -
  have "map snd (limiterRun (slidingWindow_Allow refRedis \<lparr>sw_prefix = ''p'', sw_cfg = \<lparr>swc_Limit = 2, swc_Window = second\<rparr>\<rparr>)
      (map (Pair ''a'') [5, 6, 7, 1000000005]) (0, refEmpty)) = windowLog 2 second [] [5, 6, 7, 1000000005]"
    using slidingWindow_exact [OF refRedis_up refRedis_decode_law refRedis_zset_law, of True "''p''" "\<lparr>swc_Limit = 2, swc_Window = second\<rparr>"
        "\<lparr>sw_prefix = ''p'', sw_cfg = \<lparr>swc_Limit = 2, swc_Window = second\<rparr>\<rparr>" "''a''" 5 refEmpty 0 "[6, 7, 1000000005]"]
    by (simp add: NewRedisSlidingWindow_def SlidingWindowConfig_validate_def second_def maxInt64_def ref_zs_def
      ref_entries_def refEmpty_def del: limiterRun.simps windowLog.simps)
  then show ?thesis by (simp add: second_def time_UnixMilli_def del: limiterRun.simps)
qed

end
