(* ===== verification/Spec2Isabelle.thy ===== *)
theory Spec2Isabelle
  imports App_Once Example_Main Devicetrust_Facts Ratelimit_Exact
begin

text \<open>
  A verification library for \<^verbatim>\<open>floodguard-rate-limiter\<close>, a Go library that guards HTTP endpoints against floods and
  duplicate requests, with an example money service built on it.

  \<^bold>\<open>The program.\<close> Four protections have an in-memory and a Redis backend each: idempotency keys, locks, velocity rules and
  rate limits. The root package \<^verbatim>\<open>floodguard\<close> chains them in a guard; package \<^verbatim>\<open>middleware\<close> runs the guard in front of an HTTP
  handler, records the response and replays it to duplicates. Independent packages add step-up verification, captcha
  challenges, device trust, spike detection, alerts and a hash-chained ledger. The example server reads its settings from
  the environment and wires all of them around a wallet.

  \<^bold>\<open>Theories and sources\<close> (under \<^verbatim>\<open>src/\<close>), in the order they build on each other:
  \<^item> \<open>Prelude\<close>: \<^verbatim>\<open>int64\<close> wrap-around, times and durations, the parts of \<^verbatim>\<open>strings\<close>, \<^verbatim>\<open>strconv\<close> and \<^verbatim>\<open>hex\<close> in use, error values.
  \<^item> \<open>Redis_Iface\<close>, \<open>Redis_Ref\<close>: Redis and go-redis as a parameter with laws, and a reference server that satisfies them.
  \<^item> \<open>Idempotency\<close> (\<^verbatim>\<open>idempotency/\<close>), \<open>Lock\<close> (\<^verbatim>\<open>lock/\<close>), \<open>Velocity\<close> (\<^verbatim>\<open>velocity/\<close>), \<open>Ratelimit\<close> (\<^verbatim>\<open>ratelimit/\<close>): stores, Lua
    scripts and managers of the four protections. \<open>Ratelimit_Exact\<close>: the sliding window against a reference log.
  \<^item> \<open>Guard\<close> (\<^verbatim>\<open>floodguard.go\<close>, \<^verbatim>\<open>errors.go\<close>, \<^verbatim>\<open>velocity_key.go\<close>): the guard and its errors.
  \<^item> \<open>Http\<close>: the part of \<^verbatim>\<open>net/http\<close> in use; a handler is a function from request and state to writer actions, outcome and
    state. \<open>Middleware\<close> (\<^verbatim>\<open>middleware/http.go\<close>): the pipeline layer by layer. \<open>Frame\<close>: what the pipeline cannot change.
  \<^item> \<open>Sha256\<close>, \<open>Ledger\<close> (\<^verbatim>\<open>ledger/\<close>), \<open>Wallet\<close> (\<^verbatim>\<open>example/wallet/\<close>): SHA-256 itself, the hash chain and accounts in cents.
  \<^item> \<open>Stepup\<close> (\<^verbatim>\<open>stepup/\<close>), \<open>Challenge\<close> (\<^verbatim>\<open>challenge/\<close>): managers, in-memory stores and middlewares.
  \<^item> \<open>Strconv\<close>, \<open>Float64\<close>, \<open>Json\<close>, \<open>Json_Text\<close>: number, duration and JSON syntax and binary64 rounding of the standard library,
    and strings written and read back.
  \<^item> \<open>Devicetrust\<close>, \<open>Devicetrust_Redis\<close> (\<^verbatim>\<open>devicetrust/\<close>): fingerprints, the client, both stores with JSON records;
    \<open>Devicetrust_Time\<close>: dates and times as text; \<open>Devicetrust_Facts\<close>: the Redis store against the in-memory one.
  \<^item> \<open>Anomaly\<close> (\<^verbatim>\<open>anomaly/\<close>), \<open>Notify\<close> (\<^verbatim>\<open>notify/\<close>): spike detection over both counters; the alert queue and its worker as a
    step relation.
  \<^item> \<open>Config\<close> (\<^verbatim>\<open>config/config.go\<close>): settings, defaults and \<^verbatim>\<open>Load\<close>.
  \<^item> \<open>App\<close> (\<^verbatim>\<open>example/app/\<close>): service, handlers and the server \<^verbatim>\<open>New\<close> wires; \<open>App_Facts\<close> the lemmas about it, \<open>App_Once\<close> what
    retries do. \<open>Example_Main\<close> (\<^verbatim>\<open>example/main.go\<close>): the start of the process. This theory has the other properties of the
    running server.

  \<^bold>\<open>Correspondence.\<close> A struct is a record, an interface a record of operations over a state type, a method one
  definition with the state last in arguments and result. Clock readings and random bytes are arguments. A returned error
  is a sum or an option, a panic an \<open>outcome\<close>. Each in-memory store runs its operations under its mutex, so an operation is
  one step, and concurrency is any interleaving of operations; in the example server a whole request is one step.

  \<^bold>\<open>Contracts.\<close> The locales \<open>idempotency_store\<close>, \<open>lock_provider\<close>, \<open>velocity_log\<close>, \<open>ledger_store\<close>, \<open>stepup_store\<close>,
  \<open>captcha_store\<close>, \<open>device_store\<close>, \<open>minute_counter\<close> and \<open>recording_sender\<close> state what a client relies on a backend for, and are
  interpreted on the in-memory backends; the Redis idempotency store and the Redis lock satisfy theirs under the laws of
  Redis. \<open>guarded\<close>, \<open>guarded_http\<close>, \<open>velocity_frame\<close> and \<open>handler_frame\<close> are the contracts between a guard, its layers
  and the handler; \<open>app_guarded_http\<close> is the contract for the guard of the server over Redis.

  \<^bold>\<open>What is shown.\<close> At most one execution per idempotency key and TTL, by the stores, the guard and the HTTP pipeline,
  and in the running server over Redis at most one movement of money; replay of the stored response; mutual exclusion of both locks, also when Redis calls fail, and release after panics;
  bounds of the sliding window, the token bucket and the velocity rules, and the exact decisions of the window; order of the layers; an intact and tamper-evident
  ledger; conservation of money in the wallet and in the running server; exact behaviour of the withdrawal handler; failing
  closed without Redis; single use of step-up tokens; the gates of step-up and challenge; device trust as a function of its
  history, by both stores, and the round trip of its records; delivery of alerts in order and a worker that comes to rest;
  loading of settings, with a round trip; when the process starts; and several theorems that pin down
  behaviour that looks unintended (they are among the findings of the manifest).

  \<^bold>\<open>Bounds and fuel.\<close> The JSON parser has fuel twice the length of its input plus two, which \<open>parseJson_fuel\<close> shows to be
  enough, and the nesting limit 10000 of \<^verbatim>\<open>encoding/json\<close>. \<open>trimLeft\<close> has the length of its input as fuel, each step
  removing at least a byte. All other loops are structural or have a measure. Integers are kept in \<^verbatim>\<open>int64\<close> range by \<open>i64\<close>.

  \<^bold>\<open>Parameters.\<close> Redis with go-redis (\<open>'r redis\<close>) and \<^verbatim>\<open>golang.org/x/time/rate\<close> (\<open>'l rateLib\<close>) are outside the repository;
  theorems that rely on them name the laws, and \<open>refRedis\<close> and \<open>refRate\<close> satisfy these.

  \<^bold>\<open>Not modelled.\<close> Shell scripts and the SQL migration (no Go code), the trace and log lines of the packages (those of
  \<^verbatim>\<open>notify\<close> and \<^verbatim>\<open>main\<close> are modelled), deadlines that pass inside a call (a context is live or has its error), and requests to
  the example server that interleave inside a handler (the interleaving of requests is shown for the middleware).
\<close>

section \<open>The running server\<close>



text \<open>C6: What the withdrawal handler does, on every branch, in any state the server can reach. A body that is not JSON for
  the request is answered 400 and changes nothing. An amount that is not positive or too large is answered 400, one beyond
  the balance 402, and no balance moves. Any other amount is answered 200, and exactly that amount leaves the balance of
  the caller, in the accounts and in the ledger, and no other balance changes.\<close>

theorem app_withdraw_exact:
  assumes "New L R zone client cfg now w0 = Inr (sv, w)" and "wf_config cfg" and "w' = appRun sv reqs w"
    and "Service_Withdraw (sv_Service sv) env r w' = (acts, res, v)" and "a = header_Get r ''X-Account-ID''"
  shows "res = Returned () \<and>
     (case decodeWithdraw (rq_body r) of
        None \<Rightarrow> rp_status (respond acts) = 400 \<and> v = w'
      | Some n \<Rightarrow>
          let valid = 0 < n \<and> n \<le> 4611686018427387903; ok = valid \<and> n \<le> totalCents (accountIn w' a) in
          rp_status (respond acts) = (if ok then 200 else if valid then 402 else 400) \<and>
          (\<forall>b. totalCents (accountIn v b) = totalCents (accountIn w' b) - (if ok \<and> b = a then n else 0)) \<and>
          (\<forall>b. movedFor (aw_ledger v) b = movedFor (aw_ledger w') b - (if ok \<and> b = a then n else 0)))"
proof -
  have inv: "onMoney (moneyInv cfg) w'"
    using appRun_money [OF New_Inr(1) [OF assms(1)] moneyInv_start [OF assms(1,2)]] assms(3) by simp
  show ?thesis
    using Service_Withdraw_exact [OF inv assms(4) [unfolded New_Inr(2) [OF assms(1)]] assms(5)] unfolding withdrawOutcome_def .
qed

definition demoBody :: string where
  "demoBody = ''{'' @ quoted ''amount_cents'' @ '':700}''"

definition demoWithdraw :: httpRequest where
  "demoWithdraw = demoHttp\<lparr>rq_headers := [(''X-Account-Id'', ''acct-1001'')], rq_body := Body demoBody None\<rparr>"

theorem app_withdraw_exact_witness:
  "\<exists>sv w. New refRate refRedis (\<lambda>t. 0) True Defaults (\<lambda>a. 0) demoState = Inr (sv, w) \<and>
     (case Service_Withdraw (sv_Service sv) demoRequestEnv demoWithdraw w of (acts, res, v) \<Rightarrow>
        rp_status (respond acts) = 200 \<and> totalCents (accountIn v ''acct-1001'') = 49300)"
proof -
  obtain sv w where new: "New refRate refRedis (\<lambda>t. 0) True Defaults (\<lambda>a. 0) demoState = Inr (sv, w)" by (rule demo_New_Defaults)
  obtain acts res v where run: "Service_Withdraw (sv_Service sv) demoRequestEnv demoWithdraw w = (acts, res, v)" by (meson prod_cases3)
  have parsed: "parseValue 42 (Suc d) demoBody = Some (JsonObject [(''amount_cents'', JsonNumber ''700'')], [])" for d by code_simp
  have depth: "maxNestingDepth = Suc 9999" by (simp add: maxNestingDepth_def)
  have "parseValue 42 maxNestingDepth demoBody = Some (JsonObject [(''amount_cents'', JsonNumber ''700'')], [])"
    unfolding depth by (rule parsed)
  moreover have "length demoBody = 20" by (simp add: demoBody_def quoted_def)
  moreover have "ParseInt ''700'' = Inr 700"
  proof -
    have "FormatInt 700 = ''700''" by code_simp
    then show ?thesis using parseInt64_FormatInt [of 700] by (simp add: ParseInt_def in_i64_def)
  qed
  ultimately have body: "decodeWithdraw (rq_body demoWithdraw) = Some 700"
    by (simp add: decodeWithdraw_def decodeFirst_def parseJson_def demoWithdraw_def nameMatches_def storeInt_def)
  have a: "''acct-1001'' = header_Get demoWithdraw ''X-Account-ID''" by code_simp
  have total: "totalCents (accountIn w ''acct-1001'') = 50000"
    by (simp add: accountIn_def New_Inr(6) [OF new] Defaults_def NewAccount_def)
  show ?thesis
    using app_withdraw_exact [OF new wf_Defaults _ run a, of "[]"] new run by (simp add: body total Let_def)
qed

text \<open>C7: The server fails closed. While Redis is out of reach every request to \<^verbatim>\<open>/withdraw\<close> is answered 503 (or 400 when a
  required idempotency key is missing) and nothing of the process changes but the sequence numbers of the limiters: no
  handler runs, no token is issued, no money moves.\<close>

theorem app_fails_closed:
  fixes R :: "'r redis" and v :: "('l, 'r) appWorld"
  assumes "New L R zone client cfg now w0 = Inr (sv, w)" and "redis_down R"
    and "sv_Mux sv env ''/withdraw'' r v = (acts, res, v')"
  shows "res = Returned () \<and>
     rp_status (respond acts) =
       (if cf_RequireIdempotencyKey (c_Middleware cfg) \<and> defaultIdempotencyKey r = [] then 400 else 503) \<and>
     v' = v\<lparr>aw_ipSeq := aw_ipSeq v', aw_acctSeq := aw_acctSeq v'\<rparr>"
proof -
  let ?opt = "Options_withDefaults (withdrawOptions cfg) :: ('l, 'r) appWorld Options" and ?g = "appGuard R cfg :: ('l, 'r) appWorld guard"
  let ?k = "requestKeys ?opt r" and ?e = "re_call env"
  have opt: "o_Audit ?opt = None" "failClosed ?opt" "o_RequireIdempotencyKey ?opt = cf_RequireIdempotencyKey (c_Middleware cfg)"
    "rk_idem ?k = defaultIdempotencyKey r"
    by (simp_all add: Options_withDefaults_def withdrawOptions_def failClosed_def requestKeys_def callKey_def orElse_def)
  obtain x y where lim: "g_ipRate ?g = Some (app_ipLimiter R x)" "g_rate ?g = app_acctLimiter R y"
    by (simp add: appGuard_def Let_def)
  obtain e n e' n' where ip: "app_ipLimiter R x (rq_ctx r) (env_ip ?e) (rk_ip ?k) v = (Inl e, v\<lparr>aw_ipSeq := n\<rparr>)"
    and acct: "app_acctLimiter R y (rq_ctx r) (env_account ?e) (rk_account ?k) v = (Inl e', v\<lparr>aw_acctSeq := n'\<rparr>)"
    using down_limiter(1) [OF assms(2), of x "rq_ctx r" "env_ip ?e" "rk_ip ?k" v]
      down_limiter(2) [OF assms(2), of y "rq_ctx r" "env_account ?e" "rk_account ?k" v] by blast
  have stop: "\<exists>i j. Handler_layers ?g ?opt ?e r v =
      (Stop (if cf_RequireIdempotencyKey (c_Middleware cfg) \<and> defaultIdempotencyKey r = []
             then middleware_writeError 400 ''Idempotency-Key required'' [] else writeStoreError True),
       v\<lparr>aw_ipSeq := i, aw_acctSeq := j\<rparr>)"
  proof (cases "cf_RequireIdempotencyKey (c_Middleware cfg) \<and> defaultIdempotencyKey r = []")
    case True
    then show ?thesis
      by - (rule exI [of _ "aw_ipSeq v"], rule exI [of _ "aw_acctSeq v"],
        simp add: Handler_layers_def layer_required_def opt Options_audit_def Let_def)
  next
    case req: False
    show ?thesis
    proof (cases "rk_ip ?k = []")
      case True
      with req show ?thesis
        by - (rule exI [of _ "aw_ipSeq v"], rule exI [of _ n'],
        auto simp: Handler_layers_def layer_required_def layer_ip_def layer_account_def storeError_def opt Options_audit_def lim acct Let_def)
    next
      case False
      with req show ?thesis
        by - (rule exI [of _ n], rule exI [of _ "aw_acctSeq v"],
        auto simp: Handler_layers_def layer_required_def layer_ip_def storeError_def opt Options_audit_def lim ip Let_def)
    qed
  qed
  have chain: "sv_Mux sv env ''/withdraw'' = withdrawChain ?g cfg (appStepUp cfg) appChallenge (appService R zone cfg) env"
    by (simp add: New_Inr(1) [OF assms(1)] appMux_def serveMux_def)
  from stop assms(3) show ?thesis
    unfolding chain withdrawChain_def Handler_def Let_def
    by (auto simp: status_writeError writeStoreError_def)
qed

theorem app_fails_closed_witness:
  "\<exists>sv w. New refRate deadRedis (\<lambda>t. 0) True Defaults (\<lambda>a. 0) demoState = Inr (sv, w) \<and>
     rp_status (respond (fst (sv_Mux sv demoRequestEnv ''/withdraw'' demoHttp w))) = 400"
proof -
  obtain sv w where "New refRate deadRedis (\<lambda>t. 0) True Defaults (\<lambda>a. 0) demoState = Inr (sv, w)" by (rule demo_New_Defaults)
  moreover have key: "cf_RequireIdempotencyKey (c_Middleware Defaults) \<and> defaultIdempotencyKey demoHttp = []" by code_simp
  moreover have "redis_down deadRedis" by (simp add: redis_down_def deadRedis_def)
  ultimately show ?thesis
    using app_fails_closed [of refRate deadRedis "\<lambda>t. 0" True Defaults "\<lambda>a. 0" demoState sv w demoRequestEnv demoHttp w] key
    by (metis prod.collapse)
qed

section \<open>Keys of one prefix\<close>

text \<open>The idempotency store and the lock share the key prefix, so an account named like a stored result collides with
  it. While the lock of the account \<open>result:k\<close> is held, a request with the idempotency key \<open>k\<close> is not processed: it is
  answered with the token of that lock as if it were the stored response.\<close>

theorem app_lock_key_collision:
  fixes R :: "'r redis" and w :: "('l, 'r) appWorld"
  assumes laws: "redis_call_law R" "redis_decode_law R" "redis_string_law R" "redis_up R"
    and g: "floodguard_New L (appConfig R cfg ip acct) w0 = (g, w1)" and p: "cf_KeyPrefix (c_Redis cfg) \<noteq> []"
    and lock: "TryLock g None now (Inr b) (''result:'' @ k) w = (Inr h, w')" and b: "b \<noteq> []" and k: "k \<noteq> []"
    and t: "now \<le> t" "t + 2 * millisecond < now + lm_ttl (g_lock g)"
  shows "fst (Begin (g_idempotency g) None t k w') = Inr (False, hl_token h)"
proof -
  let ?p = "cf_KeyPrefix (c_Redis cfg)"
  have g': "g_lock g = lock_New (app_lockClient R (lock_NewRedis ?p)) (Some (app_lockClient R (lock_NewRedis ?p))) (cf_LockTTL (c_Lock cfg))"
    "im_store (g_idempotency g) = app_idemStore R (idempotency_NewRedisStore ?p)"
    using g by (auto simp: floodguard_New_def appConfig_def Let_def lock_New_def idempotency_New_def)
  obtain r' where acq: "lock_redis_Acquire R (lock_NewRedis ?p) None now (Inr b) (''result:'' @ k) (lm_ttl (g_lock g)) (aw_redis w) = (Inr h, r')"
    and r': "aw_redis w' = r'"
    using lock by (auto simp: TryLock_def lock_TryAcquire_def g' lock_New_def app_lockClient_def onRedis_def onPart_eq split: sum.splits prod.splits)
  from redis_Acquire_state [OF laws(1-3) acq] obtain tok where tok:
    "r' = snd (acquireBody R (lock_NewRedis ?p) now tok (''result:'' @ k) (lm_ttl (g_lock g)) (aw_redis w))"
    "redisHolder R (lock_NewRedis ?p) now (''result:'' @ k) (aw_redis w) = None" "hl_token h = tok" "tok = EncodeToString b"
    by (auto simp: lock_randomToken_def)
  have ttl: "millisecond \<le> lm_ttl (g_lock g)" using t by (simp add: millisecond_def)
  have "redisHolder R (lock_NewRedis ?p) t (''result:'' @ k) r' = Some tok"
    using acquireBody_holder [OF laws(2,3) ttl t(1), of "lock_NewRedis ?p" "''result:'' @ k" "''result:'' @ k" tok "aw_redis w"]
      ms_live [OF _ t(2)] ttl tok by (simp add: millisecond_def)
  then have "rd_GET R (time_UnixMilli t) (resultKey (idempotency_NewRedisStore ?p) k) r' = Some tok"
    using p by (simp add: redisHolder_def lock_rkey_def lock_NewRedis_def resultKey_def idempotency_NewRedisStore_def)
  moreover have "tok \<noteq> []" using b tok(4) by (simp add: EncodeToString_Nil)
  ultimately show ?thesis
    using k r' tok(3)
    by (simp add: Begin_def g' app_idemStore_def onRedis_def onPart_def idem_redis_Claim_def claimScript_def call_up [OF laws(4)]
        decode_simps [OF laws(2)] redisInt_def zeroClaim_def)
qed

definition demoWindow :: redisSlidingWindow where
  "demoWindow = \<lparr>sw_prefix = ''p'', sw_cfg = \<lparr>swc_Limit = 1, swc_Window = second\<rparr>\<rparr>"

theorem app_lock_key_collision_witness:
  "\<exists>g h w'. floodguard_New refRate (appConfig refRedis Defaults demoWindow demoWindow) demoState = (g, demoState) \<and>
     TryLock g None 0 (Inr ''x'') ''result:k'' demoState = (Inr h, w') \<and>
     fst (Begin (g_idempotency g) None 5 ''k'' w') = Inr (False, hl_token h)"
proof -
  obtain g where g: "floodguard_New refRate (appConfig refRedis Defaults demoWindow demoWindow) demoState = (g, demoState)"
    using world_built by (metis prod.collapse)
  let ?c = "app_lockClient refRedis (lock_NewRedis ''floodguard'') :: (refBucket, refServer) appWorld lockClient"
  have lk: "g_lock g = \<lparr>lm_client = ?c, lm_ttl = 30 * second\<rparr>"
    using g by (auto simp: floodguard_New_def appConfig_def Let_def lock_New_def Defaults_def second_def)
  have none: "rd_GET refRedis t key refEmpty = None" for t key by (simp add: refRedis_def ref_GET_def refEmpty_def)
  have "\<exists>h w'. TryLock g None 0 (Inr ''x'') (''result:'' @ ''k'') demoState = (Inr h, w')"
    by (simp add: TryLock_def lock_TryAcquire_def lk app_lockClient_def onRedis_def onPart_def lock_redis_Acquire_def second_def
        lock_randomToken_def call_up [OF refRedis_up] setNXCommand_def string_simps(3) [OF refRedis_string_law] demoState_def none
        decode_simps [OF refRedis_decode_law])
  then obtain h w' where "TryLock g None 0 (Inr ''x'') (''result:'' @ ''k'') demoState = (Inr h, w')" by blast
  moreover have "cf_KeyPrefix (c_Redis Defaults) \<noteq> []" by (simp add: Defaults_def)
  ultimately show ?thesis
    using g app_lock_key_collision [OF refRedis_call_law refRedis_decode_law refRedis_string_law refRedis_up g, of 0 "''x''" "''k''" demoState h w' 5]
    by (simp add: lk second_def millisecond_def)
qed

end
